(* ===== verification/Prelude.thy ===== *)
theory Prelude
  imports Main "HOL-Library.AList" "HOL-Library.Multiset"
begin

text \<open>
  Shared vocabulary of the development: the names of the model's container types, the fact
  collections the component theories extend, and the generic lemmas on association lists and
  counting that every component uses.

  Conventions.
  \<^item> A Rust \<^verbatim>\<open>HashMap\<close> is an association list with distinct keys, read by
    \<^const>\<open>map_of\<close> and written by \<^const>\<open>AList.update\<close> and \<^const>\<open>AList.delete\<close>.  Rust leaves the
    iteration order of a hash map open; the model iterates in the order of the list, and
    no theorem depends on that order (statements speak of lookups, sets, multisets or
    lengths).
  \<^item> A Rust \<^verbatim>\<open>HashSet\<close> is a list without repetitions, written by \<^const>\<open>List.insert\<close>.
  \<^item> A \<^verbatim>\<open>BTreeMap\<close> is an association list whose keys are strictly increasing.
  \<^item> \<^verbatim>\<open>Result\<lesser>T, E\<greater>\<close> is \<open>'e + 't\<close> with \<^const>\<open>Inl\<close> for the error.
  \<^item> A method with \<^verbatim>\<open>&mut self\<close> returns its result paired with the new state.
\<close>

type_synonym ('k, 'v) hmap = "('k \<times> 'v) list"
type_synonym 'a hset = "'a list"
type_synonym ('k, 'v) btmap = "('k \<times> 'v) list"
type_synonym usize = nat

named_theorems map_simps \<open>lookup and key facts of association-list maps\<close>
named_theorems count_simps \<open>how the length of a filtered map changes under an update\<close>


section \<open>Hash maps\<close>

definition keys_distinct :: "('k, 'v) hmap \<Rightarrow> bool" where
  "keys_distinct m \<longleftrightarrow> distinct (map fst m)"

lemma keys_distinct_Nil [simp, intro]: "keys_distinct []"
  by (simp add: keys_distinct_def)

lemma keys_distinct_update [intro, simp]:
  "keys_distinct m \<Longrightarrow> keys_distinct (AList.update k v m)"
  by (simp add: keys_distinct_def distinct_update)

lemma keys_distinct_delete [intro, simp]:
  "keys_distinct m \<Longrightarrow> keys_distinct (AList.delete k m)"
  by (simp add: keys_distinct_def distinct_delete)

lemma keys_distinct_filter [intro, simp]:
  "keys_distinct m \<Longrightarrow> keys_distinct (filter P m)"
  by (auto simp: keys_distinct_def intro: distinct_map_filter)

lemma map_of_update [map_simps]:
  "map_of (AList.update k v m) k' = (if k' = k then Some v else map_of m k')"
  by (simp add: update_conv')

lemma map_of_delete_if [map_simps]:
  "map_of (AList.delete k m) k' = (if k' = k then None else map_of m k')"
  by (simp add: delete_conv')

text \<open>Writing a fresh key appends the pair: an insertion into a vacant entry.\<close>

lemma update_fresh [map_simps]:
  "map_of m k = None \<Longrightarrow> AList.update k v m = m @ [(k, v)]"
  by (induction m) (auto split: if_splits)

lemma set_update_fresh:
  "map_of m k = None \<Longrightarrow> set (AList.update k v m) = insert (k, v) (set m)"
  by (simp add: update_fresh)

lemma update_subset: "set (AList.update k v m) \<subseteq> insert (k, v) (set m)"
  by (induction m) auto


lemma map_of_SomeI:
  "keys_distinct m \<Longrightarrow> (k, v) \<in> set m \<Longrightarrow> map_of m k = Some v"
  by (simp add: keys_distinct_def)

lemma map_of_Some_iff:
  "keys_distinct m \<Longrightarrow> map_of m k = Some v \<longleftrightarrow> (k, v) \<in> set m"
  by (auto simp: keys_distinct_def dest: map_of_SomeD)

lemma length_filter_update_fresh [count_simps]:
  "map_of m k = None \<Longrightarrow>
   length (filter P (AList.update k v m)) = length (filter P m) + (if P (k, v) then 1 else 0)"
  by (simp add: update_fresh)

lemma length_filter_update [count_simps]:
  assumes "keys_distinct m" "map_of m k = Some v"
  shows "length (filter P (AList.update k v' m)) + (if P (k, v) then 1 else 0) =
    length (filter P m) + (if P (k, v') then 1 else 0)"
  using assms
proof (induction m)
  case (Cons x m)
  then show ?case
    by (cases x) (auto simp: keys_distinct_def split: if_splits)
qed simp


section \<open>Voters\<close>

text \<open>
  The keys whose entry satisfies a predicate: their number is the length of the filtered
  map, since keys are distinct.
\<close>

definition keys_with :: "('k \<times> 'v \<Rightarrow> bool) \<Rightarrow> ('k, 'v) hmap \<Rightarrow> 'k set" where
  "keys_with P m = fst ` set (filter P m)"

lemma finite_keys_with [simp, intro]: "finite (keys_with P m)"
  by (simp add: keys_with_def)

lemma card_keys_with:
  assumes "keys_distinct m"
  shows "card (keys_with P m) = length (filter P m)"
proof -
  have "distinct (map fst (filter P m))"
    using assms by (simp add: keys_distinct_def distinct_map_filter)
  then have "card (set (map fst (filter P m))) = length (map fst (filter P m))"
    by (rule distinct_card)
  then show ?thesis by (simp add: keys_with_def)
qed

lemma keys_with_map_of:
  "keys_distinct m \<Longrightarrow> keys_with P m = {k. \<exists>v. map_of m k = Some v \<and> P (k, v)}"
  by (force simp: keys_with_def map_of_Some_iff)


text \<open>
  Two sets of more than \<open>n - f\<close> members each out of \<open>n\<close> share more than \<open>n - 2 f\<close>
  members: the counting core of every quorum argument.
\<close>

lemma card_Int_lower_bound:
  assumes "finite U" "A \<subseteq> U" "B \<subseteq> U"
  shows "card A + card B \<le> card U + card (A \<inter> B)"
proof -
  have fin: "finite A" "finite B" using assms finite_subset by blast+
  have "card A + card B = card (A \<union> B) + card (A \<inter> B)"
    using fin by (rule card_Un_Int)
  moreover have "card (A \<union> B) \<le> card U"
    using assms by (intro card_mono) auto
  ultimately show ?thesis by linarith
qed

lemma filter_eq_map_snd_length [simp]:
  "length (map (snd \<circ> snd) (filter P m)) = length (filter P m)"
  by simp

end
