(* ===== verification/Bft_Types.thy ===== *)
theory Bft_Types
  imports Prelude
begin

text \<open>
  The message vocabulary of the BFT agreement (\<^verbatim>\<open>substrate/bft/src/generic/mod.rs\<close>): votes,
  proposals, their localized (signed, attributed) forms, and the justification types and
  misbehavior reports of \<^verbatim>\<open>substrate/bft/src/generic/accumulator.rs\<close>.  Candidates, digests,
  authority ids and signatures are type variables, as they are type parameters there.
\<close>

section \<open>Votes and messages\<close>

datatype 'd Vote =
    Prepare usize 'd
  | Commit usize 'd
  | AdvanceRound usize

primrec vote_round_number :: "'d Vote \<Rightarrow> usize" where
  "vote_round_number (Prepare round d) = round"
| "vote_round_number (Commit round d) = round"
| "vote_round_number (AdvanceRound round) = round"

datatype ('c, 'd) Message =
    Message_Propose usize 'c
  | Message_Vote "'d Vote"

record ('c, 'd, 'v, 's) LocalizedProposal =
  lp_round_number :: usize
  lp_proposal :: 'c
  lp_digest :: 'd
  lp_sender :: 'v
  lp_digest_signature :: 's
  lp_full_signature :: 's

record ('d, 'v, 's) LocalizedVote =
  lv_vote :: "'d Vote"
  lv_sender :: 'v
  lv_signature :: 's

datatype ('c, 'd, 'v, 's) LocalizedMessage =
    LocalizedMessage_Propose "('c, 'd, 'v, 's) LocalizedProposal"
  | LocalizedMessage_Vote "('d, 'v, 's) LocalizedVote"

primrec msg_sender :: "('c, 'd, 'v, 's) LocalizedMessage \<Rightarrow> 'v" where
  "msg_sender (LocalizedMessage_Propose p) = lp_sender p"
| "msg_sender (LocalizedMessage_Vote v) = lv_sender v"

primrec msg_round_number :: "('c, 'd, 'v, 's) LocalizedMessage \<Rightarrow> usize" where
  "msg_round_number (LocalizedMessage_Propose p) = lp_round_number p"
| "msg_round_number (LocalizedMessage_Vote v) = vote_round_number (lv_vote v)"


section \<open>Justifications\<close>

record ('d, 's) UncheckedJustification =
  uj_round_number :: usize
  uj_digest :: 'd
  uj_signatures :: "'s list"

datatype ('d, 's) Justification = Justification (uncheck: "('d, 's) UncheckedJustification")

text \<open>
  The loop of \<^verbatim>\<open>UncheckedJustification::check\<close>: every signature must check out and no voter
  may appear twice; the result is the set of voters (\<^const>\<open>None\<close> for \<^verbatim>\<open>return false\<close>).
\<close>

fun check_signatures ::
  "(usize \<Rightarrow> 'd \<Rightarrow> 's \<Rightarrow> 'v option) \<Rightarrow> usize \<Rightarrow> 'd \<Rightarrow> 's list \<Rightarrow> 'v hset \<Rightarrow> 'v hset option"
where
  "check_signatures check_message r d [] voted = Some voted"
| "check_signatures check_message r d (signature # rest) voted =
     (case check_message r d signature of
        None \<Rightarrow> None
      | Some v \<Rightarrow>
          if v \<in> set voted then None
          else check_signatures check_message r d rest (List.insert v voted))"

definition justification_check ::
  "usize \<Rightarrow> (usize \<Rightarrow> 'd \<Rightarrow> 's \<Rightarrow> 'v option) \<Rightarrow> ('d, 's) UncheckedJustification
   \<Rightarrow> ('d, 's) UncheckedJustification + ('d, 's) Justification"
where
  "justification_check threshold check_message uj =
     (let checks_out =
        (case check_signatures check_message (uj_round_number uj) (uj_digest uj)
                (uj_signatures uj) [] of
           None \<Rightarrow> False
         | Some voted \<Rightarrow> threshold \<le> length voted)
      in if checks_out then Inr (Justification uj) else Inl uj)"

datatype ('d, 's) Misbehavior =
    ProposeOutOfTurn usize 'd 's
  | DoublePropose usize "'d \<times> 's" "'d \<times> 's"
  | DoublePrepare usize "'d \<times> 's" "'d \<times> 's"
  | DoubleCommit usize "'d \<times> 's" "'d \<times> 's"


section \<open>What the check establishes\<close>

lemma check_signatures_Some_iff:
  "check_signatures cm r d sigs voted = Some vs \<longleftrightarrow>
     (\<exists>ws. map (cm r d) sigs = map Some ws \<and> distinct ws \<and> set ws \<inter> set voted = {}
           \<and> vs = rev ws @ voted)"
proof (induction sigs arbitrary: voted vs)
  case Nil
  then show ?case by auto
next
  case (Cons sg sigs)
  show ?case
  proof (cases "cm r d sg")
    case None
    then show ?thesis by (auto simp: Cons_eq_map_conv)
  next
    case (Some v)
    show ?thesis
    proof (cases "v \<in> set voted")
      case True
      with Some show ?thesis by (auto simp: Cons_eq_map_conv)
    next
      case False
      then have ins: "List.insert v voted = v # voted" by simp
      show ?thesis
        using Some False
        by (auto simp: Cons.IH Cons_eq_map_conv ins)
    qed
  qed
qed

text \<open>
  \<^verbatim>\<open>check\<close> accepts exactly the justifications whose signatures all check out, for pairwise
  different voters, at least \<open>threshold\<close> many.
\<close>

lemma justification_check_iff:
  "justification_check threshold cm uj = Inr j \<longleftrightarrow>
     j = Justification uj \<and>
     (\<exists>voters. map (cm (uj_round_number uj) (uj_digest uj)) (uj_signatures uj) = map Some voters
        \<and> distinct voters \<and> threshold \<le> length voters)"
  by (auto simp: justification_check_def check_signatures_Some_iff
           split: option.splits if_splits)
     (metis check_signatures_Some_iff inf_bot_right list.set(1) append_Nil2 option.distinct(1))+


definition bft_threshold :: "usize \<Rightarrow> usize \<Rightarrow> usize" where
  "bft_threshold nodes max_faulty = nodes - max_faulty"

end
