(* ===== verification/Bft_Accumulator.thy ===== *)
theory Bft_Accumulator
  imports Bft_Types
begin

text \<open>
  The vote accumulator of one BFT round (\<^verbatim>\<open>substrate/bft/src/generic/accumulator.rs\<close>): its state
  record, one definition per method, the invariant that ties the vote counters and the
  produced justifications to the recorded votes, soundness of misbehavior reports, and the
  safety of the round (two conflicting commits need double voters).
\<close>

section \<open>State\<close>

datatype ('c, 'd, 's) State =
    State_Begin
  | State_Proposed 'c
  | State_Prepared "('d, 's) Justification"
  | State_Committed "('d, 's) Justification"
  | State_Advanced "('d, 's) Justification option"

record VoteCounts =
  prepared :: usize
  committed :: usize

definition VoteCounts_default :: VoteCounts where
  "VoteCounts_default = \<lparr>prepared = 0, committed = 0\<rparr>"

record ('c, 'd, 's) Proposal =
  proposal :: 'c
  digest :: 'd
  digest_signature :: 's

record ('c, 'd, 'v, 's) Accumulator =
  acc_round_number :: usize
  acc_threshold :: usize
  acc_round_proposer :: 'v
  acc_proposal :: "('c, 'd, 's) Proposal option"
  acc_prepares :: "('v, 'd \<times> 's) hmap"
  acc_commits :: "('v, 'd \<times> 's) hmap"
  acc_vote_counts :: "('d, VoteCounts) hmap"
  acc_advance_round :: "'v hset"
  acc_state :: "('c, 'd, 's) State"

definition acc_new :: "usize \<Rightarrow> usize \<Rightarrow> 'v \<Rightarrow> ('c, 'd, 'v, 's) Accumulator" where
  "acc_new round_number threshold round_proposer =
     \<lparr>acc_round_number = round_number, acc_threshold = threshold,
      acc_round_proposer = round_proposer, acc_proposal = None,
      acc_prepares = [], acc_commits = [], acc_vote_counts = [],
      acc_advance_round = [], acc_state = State_Begin\<rparr>"

definition advance_votes :: "('c, 'd, 'v, 's) Accumulator \<Rightarrow> usize" where
  "advance_votes acc = length (acc_advance_round acc)"

definition acc_proposal_candidate :: "('c, 'd, 'v, 's) Accumulator \<Rightarrow> 'c option" where
  "acc_proposal_candidate acc = map_option proposal (acc_proposal acc)"


section \<open>Importing messages\<close>

definition import_proposal ::
  "('c, 'd, 'v, 's) LocalizedProposal \<Rightarrow> ('c, 'd, 'v, 's) Accumulator
   \<Rightarrow> (('d, 's) Misbehavior + unit) \<times> ('c, 'd, 'v, 's) Accumulator"
where
  "import_proposal p acc =
     (if lp_sender p \<noteq> acc_round_proposer acc
      then (Inl (ProposeOutOfTurn (acc_round_number acc) (lp_digest p) (lp_digest_signature p)), acc)
      else
        (let store =
           (let acc1 = acc\<lparr>acc_proposal := Some \<lparr>proposal = lp_proposal p, digest = lp_digest p,
                                                digest_signature = lp_digest_signature p\<rparr>\<rparr>
            in (Inr (),
                (case acc_state acc of
                   State_Begin \<Rightarrow> acc1\<lparr>acc_state := State_Proposed (lp_proposal p)\<rparr>
                 | _ \<Rightarrow> acc1)))
         in case acc_proposal acc of
              Some old \<Rightarrow>
                if digest old \<noteq> lp_digest p
                then (Inl (DoublePropose (acc_round_number acc)
                             (digest old, digest_signature old)
                             (lp_digest p, lp_digest_signature p)), acc)
                else store
            | None \<Rightarrow> store))"

definition vote_counts_of :: "('d, VoteCounts) hmap \<Rightarrow> 'd \<Rightarrow> VoteCounts" where
  "vote_counts_of m d = (case map_of m d of Some c \<Rightarrow> c | None \<Rightarrow> VoteCounts_default)"

definition signatures_for :: "'d \<Rightarrow> ('v, 'd \<times> 's) hmap \<Rightarrow> 's list" where
  "signatures_for d m = map (\<lambda>(v, d', s). s) (filter (\<lambda>(v, d', s). d' = d) m)"

definition import_prepare ::
  "'d \<Rightarrow> 'v \<Rightarrow> 's \<Rightarrow> ('c, 'd, 'v, 's) Accumulator
   \<Rightarrow> (('d, 's) Misbehavior + unit) \<times> ('c, 'd, 'v, 's) Accumulator"
where
  "import_prepare d sender signature acc =
     (let finish = (\<lambda>threshold_prepared acc.
        let valid_transition = (case acc_state acc of
              State_Begin \<Rightarrow> True | State_Proposed _ \<Rightarrow> True | _ \<Rightarrow> False)
        in case (valid_transition, threshold_prepared) of
             (True, Some tp) \<Rightarrow>
               (Inr (), acc\<lparr>acc_state := State_Prepared (Justification
                  \<lparr>uj_round_number = acc_round_number acc, uj_digest = tp,
                   uj_signatures = signatures_for tp (acc_prepares acc)\<rparr>)\<rparr>)
           | _ \<Rightarrow> (Inr (), acc))
      in case map_of (acc_prepares acc) sender of
           None \<Rightarrow>
             (let count = vote_counts_of (acc_vote_counts acc) d;
                  count' = count\<lparr>prepared := prepared count + 1\<rparr>;
                  acc' = acc\<lparr>acc_prepares := AList.update sender (d, signature) (acc_prepares acc),
                             acc_vote_counts := AList.update d count' (acc_vote_counts acc)\<rparr>
              in finish (if acc_threshold acc \<le> prepared count' then Some d else None) acc')
         | Some occupied \<Rightarrow>
             if fst occupied \<noteq> d
             then (Inl (DoublePrepare (acc_round_number acc) occupied (d, signature)), acc)
             else finish None acc)"

definition import_commit ::
  "'d \<Rightarrow> 'v \<Rightarrow> 's \<Rightarrow> ('c, 'd, 'v, 's) Accumulator
   \<Rightarrow> (('d, 's) Misbehavior + unit) \<times> ('c, 'd, 'v, 's) Accumulator"
where
  "import_commit d sender signature acc =
     (let finish = (\<lambda>threshold_committed acc.
        case threshold_committed of
          Some tc \<Rightarrow>
            (Inr (), acc\<lparr>acc_state := State_Committed (Justification
               \<lparr>uj_round_number = acc_round_number acc, uj_digest = tc,
                uj_signatures = signatures_for tc (acc_commits acc)\<rparr>)\<rparr>)
        | None \<Rightarrow> (Inr (), acc))
      in case map_of (acc_commits acc) sender of
           None \<Rightarrow>
             (let count = vote_counts_of (acc_vote_counts acc) d;
                  count' = count\<lparr>committed := committed count + 1\<rparr>;
                  acc' = acc\<lparr>acc_commits := AList.update sender (d, signature) (acc_commits acc),
                             acc_vote_counts := AList.update d count' (acc_vote_counts acc)\<rparr>
              in finish (if acc_threshold acc \<le> committed count' then Some d else None) acc')
         | Some occupied \<Rightarrow>
             if fst occupied \<noteq> d
             then (Inl (DoubleCommit (acc_round_number acc) occupied (d, signature)), acc)
             else finish None acc)"

definition import_advance_round ::
  "'v \<Rightarrow> ('c, 'd, 'v, 's) Accumulator
   \<Rightarrow> (('d, 's) Misbehavior + unit) \<times> ('c, 'd, 'v, 's) Accumulator"
where
  "import_advance_round sender acc =
     (let acc' = acc\<lparr>acc_advance_round := List.insert sender (acc_advance_round acc)\<rparr>
      in if length (acc_advance_round acc') < acc_threshold acc' then (Inr (), acc')
         else (Inr (), acc'\<lparr>acc_state :=
           (case acc_state acc' of
              State_Committed j \<Rightarrow> State_Committed j
            | State_Prepared j \<Rightarrow> State_Advanced (Some j)
            | State_Advanced j \<Rightarrow> State_Advanced j
            | State_Begin \<Rightarrow> State_Advanced None
            | State_Proposed _ \<Rightarrow> State_Advanced None)\<rparr>))"

definition acc_import_message ::
  "('c, 'd, 'v, 's) LocalizedMessage \<Rightarrow> ('c, 'd, 'v, 's) Accumulator
   \<Rightarrow> (('d, 's) Misbehavior + unit) \<times> ('c, 'd, 'v, 's) Accumulator"
where
  "acc_import_message message acc =
     (if msg_round_number message \<noteq> acc_round_number acc then (Inr (), acc)
      else case message of
        LocalizedMessage_Propose p \<Rightarrow> import_proposal p acc
      | LocalizedMessage_Vote v \<Rightarrow>
          (case lv_vote v of
             Prepare _ d \<Rightarrow> import_prepare d (lv_sender v) (lv_signature v) acc
           | Commit _ d \<Rightarrow> import_commit d (lv_sender v) (lv_signature v) acc
           | AdvanceRound _ \<Rightarrow> import_advance_round (lv_sender v) acc))"

text \<open>A run of the accumulator over the messages it is given, in order.\<close>

definition import_all ::
  "('c, 'd, 'v, 's) LocalizedMessage list \<Rightarrow> ('c, 'd, 'v, 's) Accumulator
   \<Rightarrow> ('c, 'd, 'v, 's) Accumulator"
where
  "import_all ms acc = fold (\<lambda>m a. snd (acc_import_message m a)) ms acc"


section \<open>Ballots: the contract shared by prepares and commits\<close>

text \<open>
  Prepares and commits are recorded the same way: the first vote of a voter is kept, its
  digest's counter goes up by one, and later votes of that voter change nothing.  A ballot
  is any pair of vote map and counter with a casting operation that obeys these laws.
\<close>

definition votes_for :: "'d \<Rightarrow> ('v, 'd \<times> 's) hmap \<Rightarrow> ('v, 'd \<times> 's) hmap" where
  "votes_for d m = filter (\<lambda>(v, d', s). d' = d) m"

definition tally_ok :: "('v, 'd \<times> 's) hmap \<Rightarrow> ('d \<Rightarrow> nat) \<Rightarrow> bool" where
  "tally_ok m c \<longleftrightarrow> keys_distinct m \<and> (\<forall>d. c d = length (votes_for d m))"

locale ballot =
  fixes votes :: "'st \<Rightarrow> ('v, 'd \<times> 's) hmap"
    and tally :: "'st \<Rightarrow> 'd \<Rightarrow> nat"
    and cast_vote :: "'d \<Rightarrow> 'v \<Rightarrow> 's \<Rightarrow> 'st \<Rightarrow> 'r \<times> 'st"
  assumes cast_fresh: "map_of (votes st) v = None \<Longrightarrow>
      votes (snd (cast_vote d v s st)) = votes st @ [(v, d, s)]"
    and tally_fresh: "map_of (votes st) v = None \<Longrightarrow>
      tally (snd (cast_vote d v s st)) e = tally st e + (if e = d then 1 else 0)"
    and cast_again: "map_of (votes st) v = Some x \<Longrightarrow>
      votes (snd (cast_vote d v s st)) = votes st"
    and tally_again: "map_of (votes st) v = Some x \<Longrightarrow>
      tally (snd (cast_vote d v s st)) = tally st"
begin

lemma cast_tally_ok:
  assumes "tally_ok (votes st) (tally st)"
  shows "tally_ok (votes (snd (cast_vote d v s st))) (tally (snd (cast_vote d v s st)))"
proof (cases "map_of (votes st) v")
  case None
  then have "v \<notin> fst ` set (votes st)" by (simp add: map_of_eq_None_iff)
  with None assms show ?thesis
    by (auto simp: tally_ok_def cast_fresh tally_fresh votes_for_def keys_distinct_def)
next
  case (Some x)
  with assms show ?thesis by (simp add: cast_again tally_again)
qed

lemma cast_votes_grow: "set (votes st) \<subseteq> set (votes (snd (cast_vote d v s st)))"
  by (cases "map_of (votes st) v") (auto simp: cast_fresh cast_again)

lemma cast_votes_new:
  "set (votes (snd (cast_vote d v s st))) \<subseteq> insert (v, d, s) (set (votes st))"
  by (cases "map_of (votes st) v") (auto simp: cast_fresh cast_again)

end

lemma vote_counts_of_update [simp]:
  "vote_counts_of (AList.update d c m) e = (if e = d then c else vote_counts_of m e)"
  by (simp add: vote_counts_of_def map_simps)

definition prepare_tally :: "('c, 'd, 'v, 's) Accumulator \<Rightarrow> 'd \<Rightarrow> nat" where
  "prepare_tally acc d = prepared (vote_counts_of (acc_vote_counts acc) d)"

definition commit_tally :: "('c, 'd, 'v, 's) Accumulator \<Rightarrow> 'd \<Rightarrow> nat" where
  "commit_tally acc d = committed (vote_counts_of (acc_vote_counts acc) d)"

named_theorems acc_defs \<open>the operations of the accumulator\<close>
lemmas import_defs [acc_defs] =
  import_prepare_def import_commit_def import_proposal_def import_advance_round_def Let_def

interpretation prep: ballot acc_prepares prepare_tally import_prepare
  by unfold_locales
     (auto simp: acc_defs prepare_tally_def update_fresh fun_eq_iff
           split: State.splits option.splits if_splits)

interpretation comm: ballot acc_commits commit_tally import_commit
  by unfold_locales
     (auto simp: acc_defs commit_tally_def update_fresh fun_eq_iff
           split: State.splits option.splits if_splits)

text \<open>What one kind of message leaves alone.\<close>

lemma import_prepare_frame [simp]:
  "acc_commits (snd (import_prepare d v s acc)) = acc_commits acc"
  "commit_tally (snd (import_prepare d v s acc)) = commit_tally acc"
  "acc_advance_round (snd (import_prepare d v s acc)) = acc_advance_round acc"
  "acc_round_number (snd (import_prepare d v s acc)) = acc_round_number acc"
  "acc_threshold (snd (import_prepare d v s acc)) = acc_threshold acc"
  "acc_round_proposer (snd (import_prepare d v s acc)) = acc_round_proposer acc"
  "acc_proposal (snd (import_prepare d v s acc)) = acc_proposal acc"
  by (auto simp: acc_defs commit_tally_def fun_eq_iff
           split: State.splits option.splits if_splits)

lemma import_commit_frame [simp]:
  "acc_prepares (snd (import_commit d v s acc)) = acc_prepares acc"
  "prepare_tally (snd (import_commit d v s acc)) = prepare_tally acc"
  "acc_advance_round (snd (import_commit d v s acc)) = acc_advance_round acc"
  "acc_round_number (snd (import_commit d v s acc)) = acc_round_number acc"
  "acc_threshold (snd (import_commit d v s acc)) = acc_threshold acc"
  "acc_round_proposer (snd (import_commit d v s acc)) = acc_round_proposer acc"
  "acc_proposal (snd (import_commit d v s acc)) = acc_proposal acc"
  by (auto simp: acc_defs prepare_tally_def fun_eq_iff
           split: State.splits option.splits if_splits)

lemma import_advance_frame [simp]:
  "acc_prepares (snd (import_advance_round v acc)) = acc_prepares acc"
  "acc_commits (snd (import_advance_round v acc)) = acc_commits acc"
  "prepare_tally (snd (import_advance_round v acc)) = prepare_tally acc"
  "commit_tally (snd (import_advance_round v acc)) = commit_tally acc"
  "acc_round_number (snd (import_advance_round v acc)) = acc_round_number acc"
  "acc_threshold (snd (import_advance_round v acc)) = acc_threshold acc"
  "acc_round_proposer (snd (import_advance_round v acc)) = acc_round_proposer acc"
  "acc_proposal (snd (import_advance_round v acc)) = acc_proposal acc"
  "acc_advance_round (snd (import_advance_round v acc)) = List.insert v (acc_advance_round acc)"
  by (auto simp: acc_defs prepare_tally_def commit_tally_def fun_eq_iff)

lemma import_proposal_frame [simp]:
  "acc_prepares (snd (import_proposal p acc)) = acc_prepares acc"
  "acc_commits (snd (import_proposal p acc)) = acc_commits acc"
  "prepare_tally (snd (import_proposal p acc)) = prepare_tally acc"
  "commit_tally (snd (import_proposal p acc)) = commit_tally acc"
  "acc_advance_round (snd (import_proposal p acc)) = acc_advance_round acc"
  "acc_round_number (snd (import_proposal p acc)) = acc_round_number acc"
  "acc_threshold (snd (import_proposal p acc)) = acc_threshold acc"
  "acc_round_proposer (snd (import_proposal p acc)) = acc_round_proposer acc"
  by (auto simp: acc_defs prepare_tally_def commit_tally_def fun_eq_iff
           split: State.splits option.splits)

lemma import_message_frame [simp]:
  "acc_round_number (snd (acc_import_message m acc)) = acc_round_number acc"
  "acc_threshold (snd (acc_import_message m acc)) = acc_threshold acc"
  "acc_round_proposer (snd (acc_import_message m acc)) = acc_round_proposer acc"
  by (auto simp: acc_import_message_def split: LocalizedMessage.splits Vote.splits)


section \<open>The phase of a round as a function of the recorded votes\<close>

primrec phase :: "('c, 'd, 's) State \<Rightarrow> nat" where
  "phase State_Begin = 0"
| "phase (State_Proposed c) = 1"
| "phase (State_Prepared j) = 2"
| "phase (State_Advanced j) = 3"
| "phase (State_Committed j) = 4"

definition has_quorum :: "nat \<Rightarrow> ('v, 'd \<times> 's) hmap \<Rightarrow> bool" where
  "has_quorum t m \<longleftrightarrow> (\<exists>x\<in>set m. t \<le> length (votes_for (fst (snd x)) m))"

text \<open>
  The abstract specification of a round: which phase the votes seen so far amount to, with
  no reference to the order in which they came.
\<close>

definition spec_phase :: "('c, 'd, 'v, 's) Accumulator \<Rightarrow> nat" where
  "spec_phase acc =
     (if has_quorum (acc_threshold acc) (acc_commits acc) then 4
      else if acc_advance_round acc \<noteq> [] \<and> acc_threshold acc \<le> length (acc_advance_round acc) then 3
      else if has_quorum (acc_threshold acc) (acc_prepares acc) then 2
      else if acc_proposal acc \<noteq> None then 1
      else 0)"

lemma has_quorum_Nil [simp]: "\<not> has_quorum t []"
  by (simp add: has_quorum_def)

lemma votes_for_append [simp]:
  "votes_for d (m @ [(v, e, s)]) = votes_for d m @ (if e = d then [(v, e, s)] else [])"
  by (simp add: votes_for_def)

lemma has_quorum_snoc:
  "has_quorum t (m @ [(v, d, s)]) \<longleftrightarrow> has_quorum t m \<or> t \<le> length (votes_for d m) + 1"
proof
  assume "has_quorum t (m @ [(v, d, s)])"
  then show "has_quorum t m \<or> t \<le> length (votes_for d m) + 1"
    by (auto simp: has_quorum_def split: if_splits)
next
  assume "has_quorum t m \<or> t \<le> length (votes_for d m) + 1"
  then show "has_quorum t (m @ [(v, d, s)])"
  proof
    assume "has_quorum t m"
    then obtain x where "x \<in> set m" "t \<le> length (votes_for (fst (snd x)) m)"
      by (auto simp: has_quorum_def)
    then show ?thesis
      by (auto simp: has_quorum_def intro!: bexI [of _ x])
  next
    assume "t \<le> length (votes_for d m) + 1"
    then show ?thesis by (auto simp: has_quorum_def)
  qed
qed

text \<open>The state after each kind of message, by cases of the source's branches.\<close>

lemma import_prepare_state:
  "acc_state (snd (import_prepare d v s acc)) =
     (if map_of (acc_prepares acc) v = None \<and> acc_threshold acc \<le> prepare_tally acc d + 1
         \<and> phase (acc_state acc) \<le> 1
      then State_Prepared (Justification
        \<lparr>uj_round_number = acc_round_number acc, uj_digest = d,
         uj_signatures = signatures_for d (acc_prepares acc @ [(v, d, s)])\<rparr>)
      else acc_state acc)"
  by (auto simp: acc_defs prepare_tally_def update_fresh split: State.splits option.splits)

lemma import_commit_state:
  "acc_state (snd (import_commit d v s acc)) =
     (if map_of (acc_commits acc) v = None \<and> acc_threshold acc \<le> commit_tally acc d + 1
      then State_Committed (Justification
        \<lparr>uj_round_number = acc_round_number acc, uj_digest = d,
         uj_signatures = signatures_for d (acc_commits acc @ [(v, d, s)])\<rparr>)
      else acc_state acc)"
  by (auto simp: acc_defs commit_tally_def update_fresh split: option.splits)

lemma import_advance_phase:
  "phase (acc_state (snd (import_advance_round v acc))) =
     (if acc_threshold acc \<le> length (List.insert v (acc_advance_round acc))
      then max 3 (phase (acc_state acc)) else phase (acc_state acc))"
  by (auto simp: acc_defs split: State.splits)

lemma import_proposal_phase:
  "phase (acc_state (snd (import_proposal p acc))) =
     (if acc_proposal (snd (import_proposal p acc)) \<noteq> None
      then max 1 (phase (acc_state acc)) else phase (acc_state acc))"
  if "acc_proposal acc \<noteq> None \<Longrightarrow> 1 \<le> phase (acc_state acc)"
  using that by (auto simp: acc_defs split: State.splits option.splits)

lemma import_proposal_keeps:
  "acc_proposal acc \<noteq> None \<Longrightarrow> acc_proposal (snd (import_proposal p acc)) \<noteq> None"
  by (auto simp: acc_defs split: State.splits option.splits)

definition tallies_ok :: "('c, 'd, 'v, 's) Accumulator \<Rightarrow> bool" where
  "tallies_ok acc \<longleftrightarrow>
     tally_ok (acc_prepares acc) (prepare_tally acc) \<and>
     tally_ok (acc_commits acc) (commit_tally acc) \<and>
     distinct (acc_advance_round acc)"

lemma tallies_ok_new: "tallies_ok (acc_new r t p)"
  by (simp add: tallies_ok_def acc_new_def tally_ok_def prepare_tally_def commit_tally_def
      vote_counts_of_def VoteCounts_default_def votes_for_def)

lemma tallies_ok_import:
  "tallies_ok acc \<Longrightarrow> tallies_ok (snd (acc_import_message m acc))"
  by (auto simp: tallies_ok_def acc_import_message_def prep.cast_tally_ok comm.cast_tally_ok
           split: LocalizedMessage.splits Vote.splits)

definition phase_ok :: "('c, 'd, 'v, 's) Accumulator \<Rightarrow> bool" where
  "phase_ok acc \<longleftrightarrow> phase (acc_state acc) = spec_phase acc"

lemma phase_ok_new: "phase_ok (acc_new r t p)"
  by (simp add: phase_ok_def acc_new_def spec_phase_def)

lemma phase_ok_prepare:
  assumes "tallies_ok acc" "phase_ok acc"
  shows "phase_ok (snd (import_prepare d v s acc))"
proof (cases "map_of (acc_prepares acc) v")
  case None
  have "prepare_tally acc d = length (votes_for d (acc_prepares acc))"
    using assms(1) by (simp add: tallies_ok_def tally_ok_def)
  with None assms(2) show ?thesis
    by (auto simp: phase_ok_def spec_phase_def import_prepare_state prep.cast_fresh has_quorum_snoc)
next
  case (Some x)
  with assms(2) show ?thesis
    by (simp add: phase_ok_def spec_phase_def import_prepare_state prep.cast_again)
qed

lemma phase_ok_commit:
  assumes "tallies_ok acc" "phase_ok acc"
  shows "phase_ok (snd (import_commit d v s acc))"
proof (cases "map_of (acc_commits acc) v")
  case None
  have "commit_tally acc d = length (votes_for d (acc_commits acc))"
    using assms(1) by (simp add: tallies_ok_def tally_ok_def)
  with None assms(2) show ?thesis
    by (auto simp: phase_ok_def spec_phase_def import_commit_state comm.cast_fresh has_quorum_snoc)
next
  case (Some x)
  with assms(2) show ?thesis
    by (simp add: phase_ok_def spec_phase_def import_commit_state comm.cast_again)
qed

lemma phase_ok_advance:
  assumes "phase_ok acc"
  shows "phase_ok (snd (import_advance_round v acc))"
  using assms
  by (auto simp: phase_ok_def spec_phase_def import_advance_phase List.insert_def
           split: if_splits)

lemma phase_ok_proposal:
  assumes "phase_ok acc"
  shows "phase_ok (snd (import_proposal p acc))"
proof -
  have "acc_proposal acc \<noteq> None \<Longrightarrow> 1 \<le> phase (acc_state acc)"
    using assms by (simp add: phase_ok_def spec_phase_def)
  from import_proposal_phase [OF this, of p] import_proposal_keeps [of acc p] assms
  show ?thesis by (auto simp: phase_ok_def spec_phase_def)
qed

lemma phase_ok_import:
  "tallies_ok acc \<Longrightarrow> phase_ok acc \<Longrightarrow> phase_ok (snd (acc_import_message m acc))"
  by (auto simp: acc_import_message_def phase_ok_prepare phase_ok_commit phase_ok_advance
        phase_ok_proposal split: LocalizedMessage.splits Vote.splits)


section \<open>Justifications are backed by recorded votes\<close>

definition justified_by :: "nat \<Rightarrow> usize \<Rightarrow> ('v, 'd \<times> 's) hmap \<Rightarrow> ('d, 's) Justification \<Rightarrow> bool" where
  "justified_by t r m j \<longleftrightarrow>
     uj_round_number (uncheck j) = r \<and>
     (\<exists>ps. keys_distinct ps \<and> set ps \<subseteq> set m \<and> t \<le> length ps \<and>
        (\<forall>x\<in>set ps. fst (snd x) = uj_digest (uncheck j)) \<and>
        uj_signatures (uncheck j) = map (snd \<circ> snd) ps)"

lemma justified_by_mono:
  "justified_by t r m j \<Longrightarrow> set m \<subseteq> set m' \<Longrightarrow> justified_by t r m' j"
  by (fastforce simp: justified_by_def)

lemma signatures_for_alt: "signatures_for d m = map (snd \<circ> snd) (votes_for d m)"
  by (auto simp: signatures_for_def votes_for_def)

lemma justified_by_quorum:
  assumes "keys_distinct m" "t \<le> length (votes_for d m)"
  shows "justified_by t r m (Justification
    \<lparr>uj_round_number = r, uj_digest = d, uj_signatures = signatures_for d m\<rparr>)"
proof -
  have "keys_distinct (votes_for d m)" "set (votes_for d m) \<subseteq> set m"
    "\<forall>x\<in>set (votes_for d m). fst (snd x) = d"
    using assms(1) by (auto simp: votes_for_def)
  with assms(2) show ?thesis
    by (auto simp: justified_by_def signatures_for_alt intro!: exI [of _ "votes_for d m"])
qed

definition state_justified :: "('c, 'd, 'v, 's) Accumulator \<Rightarrow> bool" where
  "state_justified acc \<longleftrightarrow>
     (case acc_state acc of
        State_Prepared j \<Rightarrow> justified_by (acc_threshold acc) (acc_round_number acc) (acc_prepares acc) j
      | State_Advanced (Some j) \<Rightarrow>
          justified_by (acc_threshold acc) (acc_round_number acc) (acc_prepares acc) j
      | State_Committed j \<Rightarrow> justified_by (acc_threshold acc) (acc_round_number acc) (acc_commits acc) j
      | _ \<Rightarrow> True)"

lemma justified_by_fresh:
  assumes "tally_ok m c" "map_of m v = None" "t \<le> Suc (c d)"
  shows "justified_by t r (m @ [(v, d, s)]) (Justification
    \<lparr>uj_round_number = r, uj_digest = d, uj_signatures = signatures_for d (m @ [(v, d, s)])\<rparr>)"
  using assms
  by (intro justified_by_quorum) (auto simp: tally_ok_def keys_distinct_def map_of_eq_None_iff)

lemma state_justified_prepare:
  assumes "tallies_ok acc" "state_justified acc"
  shows "state_justified (snd (import_prepare d v s acc))"
proof (cases "map_of (acc_prepares acc) v")
  case None
  from None assms show ?thesis
    unfolding state_justified_def import_prepare_state
    by (auto simp: prep.cast_fresh tallies_ok_def justified_by_fresh
        elim: justified_by_mono split: State.splits option.splits)
next
  case (Some x)
  with assms show ?thesis
    by (simp add: state_justified_def import_prepare_state prep.cast_again
        split: State.splits option.splits)
qed

lemma state_justified_commit:
  assumes "tallies_ok acc" "state_justified acc"
  shows "state_justified (snd (import_commit d v s acc))"
proof (cases "map_of (acc_commits acc) v")
  case None
  from None assms show ?thesis
    unfolding state_justified_def import_commit_state
    by (auto simp: comm.cast_fresh tallies_ok_def justified_by_fresh
        elim: justified_by_mono split: State.splits option.splits)
next
  case (Some x)
  with assms show ?thesis
    by (simp add: state_justified_def import_commit_state comm.cast_again
        split: State.splits option.splits)
qed

lemma state_justified_advance:
  "state_justified acc \<Longrightarrow> state_justified (snd (import_advance_round v acc))"
  by (auto simp: state_justified_def acc_defs split: State.splits option.splits)

lemma state_justified_proposal:
  "state_justified acc \<Longrightarrow> state_justified (snd (import_proposal p acc))"
  by (auto simp: state_justified_def acc_defs split: State.splits option.splits)

lemma state_justified_import:
  "tallies_ok acc \<Longrightarrow> state_justified acc \<Longrightarrow> state_justified (snd (acc_import_message m acc))"
  by (auto simp: acc_import_message_def state_justified_prepare state_justified_commit
        state_justified_advance state_justified_proposal
        split: LocalizedMessage.splits Vote.splits)


section \<open>Runs\<close>

lemma import_all_Nil [simp]: "import_all [] acc = acc"
  by (simp add: import_all_def)

lemma import_all_snoc [simp]:
  "import_all (ms @ [m]) acc = snd (acc_import_message m (import_all ms acc))"
  by (simp add: import_all_def)

lemma import_all_frame [simp]:
  "acc_round_number (import_all ms acc) = acc_round_number acc"
  "acc_threshold (import_all ms acc) = acc_threshold acc"
  "acc_round_proposer (import_all ms acc) = acc_round_proposer acc"
  by (induction ms rule: rev_induct) simp_all

lemma acc_new_fields [simp]:
  "acc_round_number (acc_new r t p) = r" "acc_threshold (acc_new r t p) = t"
  "acc_round_proposer (acc_new r t p) = p" "acc_proposal (acc_new r t p) = None"
  "acc_prepares (acc_new r t p) = []" "acc_commits (acc_new r t p) = []"
  "acc_advance_round (acc_new r t p) = []" "acc_state (acc_new r t p) = State_Begin"
  by (simp_all add: acc_new_def)

definition acc_inv :: "('c, 'd, 'v, 's) Accumulator \<Rightarrow> bool" where
  "acc_inv acc \<longleftrightarrow> tallies_ok acc \<and> phase_ok acc \<and> state_justified acc"

lemma acc_inv_new: "acc_inv (acc_new r t p)"
  by (simp add: acc_inv_def tallies_ok_new phase_ok_new state_justified_def)

lemma acc_inv_import: "acc_inv acc \<Longrightarrow> acc_inv (snd (acc_import_message m acc))"
  by (simp add: acc_inv_def tallies_ok_import phase_ok_import state_justified_import)

lemma acc_inv_run: "acc_inv (import_all ms (acc_new r t p))"
  by (induction ms rule: rev_induct) (simp_all add: acc_inv_new acc_inv_import)

text \<open>Every recorded vote was sent: it is one of the imported messages.\<close>

abbreviation prepare_msg :: "usize \<Rightarrow> 'd \<Rightarrow> 'v \<Rightarrow> 's \<Rightarrow> ('c, 'd, 'v, 's) LocalizedMessage" where
  "prepare_msg r d v s \<equiv>
     LocalizedMessage_Vote \<lparr>lv_vote = Prepare r d, lv_sender = v, lv_signature = s\<rparr>"

abbreviation commit_msg :: "usize \<Rightarrow> 'd \<Rightarrow> 'v \<Rightarrow> 's \<Rightarrow> ('c, 'd, 'v, 's) LocalizedMessage" where
  "commit_msg r d v s \<equiv>
     LocalizedMessage_Vote \<lparr>lv_vote = Commit r d, lv_sender = v, lv_signature = s\<rparr>"

lemma import_message_votes:
  "set (acc_prepares (snd (acc_import_message m acc))) \<subseteq>
     set (acc_prepares acc) \<union> {(v, d, s). m = prepare_msg (acc_round_number acc) d v s}"
  "set (acc_commits (snd (acc_import_message m acc))) \<subseteq>
     set (acc_commits acc) \<union> {(v, d, s). m = commit_msg (acc_round_number acc) d v s}"
  using prep.cast_votes_new comm.cast_votes_new
  by (fastforce simp: acc_import_message_def split: LocalizedMessage.splits Vote.splits if_splits)+

lemma run_votes_sent:
  "(v, d, s) \<in> set (acc_prepares (import_all ms (acc_new r t p))) \<Longrightarrow> prepare_msg r d v s \<in> set ms"
  "(v, d, s) \<in> set (acc_commits (import_all ms (acc_new r t p))) \<Longrightarrow> commit_msg r d v s \<in> set ms"
proof (induction ms rule: rev_induct)
  case (snoc m ms)
  let ?a = "import_all ms (acc_new r t p)"
  { case 1
    then show ?case using snoc.IH(1) import_message_votes(1) [of m ?a] by auto
  next
    case 2
    then show ?case using snoc.IH(2) import_message_votes(2) [of m ?a] by auto }
qed simp_all


lemma run_commit_voters_only:
  "fst ` set (acc_commits (import_all ms (acc_new r t p))) \<subseteq>
     {v. \<exists>d s. commit_msg r d v s \<in> set ms}"
  by (force dest: run_votes_sent(2))

text \<open>And every voter's first vote is recorded.\<close>

lemma import_message_records:
  "fst ` set (acc_prepares acc) \<subseteq> fst ` set (acc_prepares (snd (acc_import_message m acc)))"
  "fst ` set (acc_commits acc) \<subseteq> fst ` set (acc_commits (snd (acc_import_message m acc)))"
  by (auto simp: acc_import_message_def split: LocalizedMessage.splits Vote.splits
      intro!: image_eqI dest: prep.cast_votes_grow [THEN subsetD] comm.cast_votes_grow [THEN subsetD])

lemma import_vote_recorded:
  "v \<in> fst ` set (acc_prepares (snd (acc_import_message (prepare_msg (acc_round_number acc) d v s) acc)))"
  "v \<in> fst ` set (acc_commits (snd (acc_import_message (commit_msg (acc_round_number acc) d v s) acc)))"
proof -
  show "v \<in> fst ` set (acc_prepares (snd (acc_import_message (prepare_msg (acc_round_number acc) d v s) acc)))"
    by (cases "map_of (acc_prepares acc) v")
       (force simp: acc_import_message_def prep.cast_fresh prep.cast_again dest: map_of_SomeD)+
  show "v \<in> fst ` set (acc_commits (snd (acc_import_message (commit_msg (acc_round_number acc) d v s) acc)))"
    by (cases "map_of (acc_commits acc) v")
       (force simp: acc_import_message_def comm.cast_fresh comm.cast_again dest: map_of_SomeD)+
qed

lemma run_votes_recorded:
  "prepare_msg r d v s \<in> set ms \<Longrightarrow> v \<in> fst ` set (acc_prepares (import_all ms (acc_new r t p)))"
  "commit_msg r d v s \<in> set ms \<Longrightarrow> v \<in> fst ` set (acc_commits (import_all ms (acc_new r t p)))"
proof (induction ms rule: rev_induct)
  case (snoc m ms)
  let ?a = "import_all ms (acc_new r t p)"
  { case 1
    then show ?case
      using snoc.IH(1) import_message_records(1) [of ?a m] import_vote_recorded(1) [of v ?a d s]
      by auto
  next
    case 2
    then show ?case
      using snoc.IH(2) import_message_records(2) [of ?a m] import_vote_recorded(2) [of v ?a d s]
      by auto }
qed simp_all


section \<open>The phase as a function of the messages sent\<close>

definition preparers :: "usize \<Rightarrow> 'd \<Rightarrow> ('c, 'd, 'v, 's) LocalizedMessage set \<Rightarrow> 'v set" where
  "preparers r d M = {v. \<exists>s. prepare_msg r d v s \<in> M}"

definition committers :: "usize \<Rightarrow> 'd \<Rightarrow> ('c, 'd, 'v, 's) LocalizedMessage set \<Rightarrow> 'v set" where
  "committers r d M = {v. \<exists>s. commit_msg r d v s \<in> M}"

definition advancers :: "usize \<Rightarrow> ('c, 'd, 'v, 's) LocalizedMessage set \<Rightarrow> 'v set" where
  "advancers r M =
     {v. \<exists>s. LocalizedMessage_Vote \<lparr>lv_vote = AdvanceRound r, lv_sender = v, lv_signature = s\<rparr> \<in> M}"

definition quorum_of :: "nat \<Rightarrow> 'v set \<Rightarrow> bool" where
  "quorum_of t V \<longleftrightarrow> V \<noteq> {} \<and> t \<le> card V"

definition no_double_votes :: "usize \<Rightarrow> ('c, 'd, 'v, 's) LocalizedMessage set \<Rightarrow> bool" where
  "no_double_votes r M \<longleftrightarrow>
     (\<forall>d d'. d \<noteq> d' \<longrightarrow> preparers r d M \<inter> preparers r d' M = {} \<and>
                     committers r d M \<inter> committers r d' M = {})"

definition message_phase ::
  "usize \<Rightarrow> nat \<Rightarrow> 'v \<Rightarrow> ('c, 'd, 'v, 's) LocalizedMessage set \<Rightarrow> nat"
where
  "message_phase r t p M =
     (if \<exists>d. quorum_of t (committers r d M) then 4
      else if quorum_of t (advancers r M) then 3
      else if \<exists>d. quorum_of t (preparers r d M) then 2
      else if \<exists>pr. LocalizedMessage_Propose pr \<in> M \<and> lp_round_number pr = r \<and> lp_sender pr = p then 1
      else 0)"

lemma import_message_advancers:
  "set (acc_advance_round (snd (acc_import_message m a))) =
     set (acc_advance_round a) \<union> advancers (acc_round_number a) {m}"
proof (cases m)
  case (LocalizedMessage_Propose p)
  then show ?thesis by (simp add: acc_import_message_def advancers_def)
next
  case (LocalizedMessage_Vote v)
  then show ?thesis
    by (cases v; cases "lv_vote v") (auto simp: acc_import_message_def advancers_def)
qed

lemma advancers_insert: "advancers r (insert m M) = advancers r {m} \<union> advancers r M"
  by (simp add: advancers_def Collect_disj_eq [symmetric] ex_disj_distrib [symmetric])

lemma run_advancers:
  "set (acc_advance_round (import_all ms (acc_new r t p))) = advancers r (set ms)"
proof (induction ms rule: rev_induct)
  case Nil
  then show ?case by (simp add: advancers_def)
next
  case (snoc m ms)
  then show ?case
    by (simp add: import_message_advancers advancers_insert [of r m "set ms"] Un_commute)
qed

lemma run_proposal:
  "acc_proposal (import_all ms (acc_new r t p)) \<noteq> None \<longleftrightarrow>
     (\<exists>pr. LocalizedMessage_Propose pr \<in> set ms \<and> lp_round_number pr = r \<and> lp_sender pr = p)"
proof (induction ms rule: rev_induct)
  case Nil
  then show ?case by simp
next
  case (snoc m ms)
  let ?a = "import_all ms (acc_new r t p)"
  have "acc_proposal (snd (acc_import_message m ?a)) \<noteq> None \<longleftrightarrow>
     acc_proposal ?a \<noteq> None \<or>
     (\<exists>pr. m = LocalizedMessage_Propose pr \<and> lp_round_number pr = r \<and> lp_sender pr = p)"
    by (auto simp: acc_import_message_def import_proposal_def Let_def
        split: LocalizedMessage.splits Vote.splits State.splits option.splits)
  with snoc show ?case by auto
qed

lemma has_quorum_iff:
  assumes "keys_distinct m"
    and "\<And>d. fst ` set (votes_for d m) = V d"
  shows "has_quorum t m \<longleftrightarrow> (\<exists>d. quorum_of t (V d))"
proof -
  have len: "length (votes_for d m) = card (V d)" for d
    using card_keys_with [OF assms(1), of "\<lambda>(v, d', s). d' = d"] assms(2) [of d]
    by (simp add: keys_with_def votes_for_def)
  have ne: "V d \<noteq> {} \<longleftrightarrow> (\<exists>x\<in>set m. fst (snd x) = d)" for d
    using assms(2) [of d, symmetric] by (force simp: votes_for_def)
  show ?thesis by (auto simp: has_quorum_def quorum_of_def len ne)
qed

lemma voters_for_eq:
  assumes sent: "\<And>v d s. (v, d, s) \<in> set m \<Longrightarrow> v \<in> V d"
    and recorded: "\<And>v d. v \<in> V d \<Longrightarrow> v \<in> fst ` set m"
    and disjoint: "\<And>d d'. d \<noteq> d' \<Longrightarrow> V d \<inter> V d' = {}"
  shows "fst ` set (votes_for d m) = V d"
proof (intro equalityI subsetI)
  fix v assume "v \<in> fst ` set (votes_for d m)"
  then show "v \<in> V d" by (auto simp: votes_for_def intro: sent)
next
  fix v assume v: "v \<in> V d"
  then obtain d' s' where rec: "(v, d', s') \<in> set m" using recorded by fastforce
  then have "d' = d" using v sent disjoint by blast
  with rec show "v \<in> fst ` set (votes_for d m)" by (force simp: votes_for_def)
qed

lemma run_votes_for:
  assumes "no_double_votes r (set ms)"
  shows "fst ` set (votes_for d (acc_commits (import_all ms (acc_new r t p)))) = committers r d (set ms)"
    and "fst ` set (votes_for d (acc_prepares (import_all ms (acc_new r t p)))) = preparers r d (set ms)"
proof -
  show "fst ` set (votes_for d (acc_commits (import_all ms (acc_new r t p)))) = committers r d (set ms)"
    using assms run_votes_recorded(2) run_votes_sent(2)
    by (intro voters_for_eq) (fastforce simp: committers_def no_double_votes_def)+
  show "fst ` set (votes_for d (acc_prepares (import_all ms (acc_new r t p)))) = preparers r d (set ms)"
    using assms run_votes_recorded(1) run_votes_sent(1)
    by (intro voters_for_eq) (fastforce simp: preparers_def no_double_votes_def)+
qed

text \<open>
  C4. The accumulator implements the order-free specification of a round: when no authority
  signs two conflicting votes, the phase it reports after any sequence of messages is the
  phase those messages, as a set, amount to (committed over advanced over prepared over
  proposed), whatever order they arrived in.
\<close>

theorem acc_phase_of_messages:
  assumes "no_double_votes r (set ms)"
  shows "phase (acc_state (import_all ms (acc_new r t p))) = message_phase r t p (set ms)"
proof -
  let ?a = "import_all ms (acc_new r t p)"
  have inv: "tallies_ok ?a" "phase_ok ?a" using acc_inv_run [of ms r t p] by (simp_all add: acc_inv_def)
  then have dist: "keys_distinct (acc_prepares ?a)" "keys_distinct (acc_commits ?a)"
    "distinct (acc_advance_round ?a)"
    by (simp_all add: tallies_ok_def tally_ok_def)
  have "has_quorum t (acc_commits ?a) \<longleftrightarrow> (\<exists>d. quorum_of t (committers r d (set ms)))"
    by (rule has_quorum_iff [OF dist(2)]) (rule run_votes_for(1) [OF assms])
  moreover have "has_quorum t (acc_prepares ?a) \<longleftrightarrow> (\<exists>d. quorum_of t (preparers r d (set ms)))"
    by (rule has_quorum_iff [OF dist(1)]) (rule run_votes_for(2) [OF assms])
  moreover have "(acc_advance_round ?a \<noteq> [] \<and> t \<le> length (acc_advance_round ?a)) \<longleftrightarrow>
      quorum_of t (advancers r (set ms))"
    using distinct_card [OF dist(3)] run_advancers [of ms r t p]
    by (auto simp: quorum_of_def)
  ultimately show ?thesis
    using inv(2) run_proposal [of ms r t p]
    by (simp add: phase_ok_def spec_phase_def message_phase_def)
qed


lemma phase_le_4: "phase st \<le> 4"
  by (cases st) simp_all

lemma import_message_phase_mono:
  "phase (acc_state a) \<le> phase (acc_state (snd (acc_import_message m a)))"
proof (cases m)
  case (LocalizedMessage_Propose p)
  then show ?thesis
    by (auto simp: acc_import_message_def import_proposal_def Let_def
        split: option.splits State.splits)
next
  case (LocalizedMessage_Vote v)
  then show ?thesis
    by (cases "lv_vote v")
       (auto simp: acc_import_message_def import_prepare_state import_commit_state
        import_advance_phase phase_le_4)
qed

text \<open>The voters behind a committed state.\<close>

lemma committed_quorum:
  assumes "acc_state (import_all ms (acc_new r t p)) = State_Committed j"
  shows "t \<le> card (committers r (uj_digest (uncheck j)) (set ms))"
proof -
  from acc_inv_run [of ms r t p] assms obtain ps where ps:
    "keys_distinct ps" "t \<le> length ps"
    "set ps \<subseteq> set (acc_commits (import_all ms (acc_new r t p)))"
    "\<forall>x\<in>set ps. fst (snd x) = uj_digest (uncheck j)"
    by (auto simp: acc_inv_def state_justified_def justified_by_def)
  have fin: "finite (fst ` set (acc_commits (import_all ms (acc_new r t p))))" by simp
  have "fst ` set ps \<subseteq> committers r (uj_digest (uncheck j)) (set ms)"
    using ps(3,4) by (force simp: committers_def dest!: run_votes_sent(2) [of _ _ _ ms r t p])
  moreover have "finite (committers r (uj_digest (uncheck j)) (set ms))"
    by (rule finite_subset [of _ "msg_sender ` set ms"]) (force simp: committers_def)+
  ultimately have "card (fst ` set ps) \<le> card (committers r (uj_digest (uncheck j)) (set ms))"
    by (rule card_mono [rotated])
  moreover have "card (fst ` set ps) = length ps"
    using ps(1) card_keys_with [of ps "\<lambda>_. True"] by (simp add: keys_with_def)
  ultimately show ?thesis using ps(2) by simp
qed

lemma run_proposal_sent:
  "acc_proposal (import_all ms (acc_new r t p)) = Some q \<Longrightarrow>
     \<exists>pr. LocalizedMessage_Propose pr \<in> set ms \<and> lp_sender pr = p \<and> lp_round_number pr = r \<and>
       lp_digest pr = digest q \<and> lp_digest_signature pr = digest_signature q"
proof (induction ms rule: rev_induct)
  case Nil
  then show ?case by simp
next
  case (snoc m ms)
  let ?a = "import_all ms (acc_new r t p)"
  from snoc.prems have "acc_proposal ?a = Some q \<or>
     (\<exists>pr. m = LocalizedMessage_Propose pr \<and> lp_sender pr = p \<and> lp_round_number pr = r \<and>
       lp_digest pr = digest q \<and> lp_digest_signature pr = digest_signature q)"
    by (auto simp: acc_import_message_def import_proposal_def Let_def
        split: LocalizedMessage.splits Vote.splits State.splits option.splits if_splits)
  then show ?case using snoc.IH by auto
qed


definition double_committers :: "usize \<Rightarrow> ('c, 'd, 'v, 's) LocalizedMessage set \<Rightarrow> 'v set" where
  "double_committers r M = {v. \<exists>d d'. d \<noteq> d' \<and> v \<in> committers r d M \<and> v \<in> committers r d' M}"

lemma finite_committers [simp]: "finite (committers r d (set ms))"
  by (rule finite_subset [of _ "msg_sender ` set ms"]) (force simp: committers_def)+

lemma committers_Un [simp]: "committers r d (M \<union> N) = committers r d M \<union> committers r d N"
  by (auto simp: committers_def)

definition example_commits :: "nat list \<Rightarrow> (nat, nat, nat, nat) LocalizedMessage list" where
  "example_commits vs = map (\<lambda>v. commit_msg 0 7 v (100 + v)) vs"

lemma example_committed:
  "acc_state (import_all (example_commits [0, 1, 2]) (acc_new 0 (bft_threshold 4 1) 0)) =
     State_Committed (Justification \<lparr>uj_round_number = 0, uj_digest = 7, uj_signatures = [100, 101, 102]\<rparr>)"
  by (simp add: example_commits_def import_all_def acc_import_message_def import_commit_def acc_new_def
      bft_threshold_def vote_counts_of_def VoteCounts_default_def signatures_for_def Let_def)

theorem acc_phase_of_messages_witness:
  "phase (acc_state (import_all (example_commits [0, 1, 2]) (acc_new 0 3 0)))
   = message_phase 0 3 0 (set (example_commits [0, 1, 2]))"
  by (rule acc_phase_of_messages)
     (auto simp: no_double_votes_def committers_def preparers_def example_commits_def)


section \<open>Properties\<close>

text \<open>
  C1. Agreement within a round.  Two nodes accumulate votes of the same round from the same
  authorities, each with the threshold \<open>nodes - max_faulty\<close>, possibly from different
  messages in different orders.  If fewer than a third of the authorities may be faulty and
  at most \<open>max_faulty\<close> of them sign commits for two different digests, then two committed
  justifications of that round are for the same digest.
\<close>

theorem acc_commit_agreement:
  assumes auths: "finite U" "card U = nodes" "3 * max_faulty < nodes"
    and from_auths: "msg_sender ` (set msA \<union> set msB) \<subseteq> U"
    and few_faulty: "card (double_committers r (set msA \<union> set msB)) \<le> max_faulty"
    and c1: "acc_state (import_all msA (acc_new r (bft_threshold nodes max_faulty) p)) = State_Committed j1"
    and c2: "acc_state (import_all msB (acc_new r (bft_threshold nodes max_faulty) p)) = State_Committed j2"
  shows "uj_digest (uncheck j1) = uj_digest (uncheck j2)"
proof (rule ccontr)
  assume ne: "uj_digest (uncheck j1) \<noteq> uj_digest (uncheck j2)"
  let ?M = "set msA \<union> set msB"
  let ?C1 = "committers r (uj_digest (uncheck j1)) ?M" and ?C2 = "committers r (uj_digest (uncheck j2)) ?M"
  let ?D = "double_committers r ?M"
  have U: "?C1 \<subseteq> U" "?C2 \<subseteq> U" "?D \<subseteq> U"
    using from_auths by (force simp: committers_def double_committers_def)+
  have "nodes - max_faulty \<le> card ?C1"
    using committed_quorum [OF c1, unfolded bft_threshold_def]
    by (rule order_trans) (auto intro!: card_mono)
  moreover have "nodes - max_faulty \<le> card ?C2"
    using committed_quorum [OF c2, unfolded bft_threshold_def]
    by (rule order_trans) (auto intro!: card_mono)
  moreover have "card ?C1 + card ?C2 \<le> nodes + card (?C1 \<inter> ?C2)"
    using card_Int_lower_bound [OF auths(1) U(1,2)] auths(2) by simp
  moreover have "card (?C1 \<inter> ?C2) \<le> card ?D"
    using ne by (intro card_mono finite_subset [OF U(3) auths(1)]) (auto simp: double_committers_def)
  ultimately show False using few_faulty auths(3) by linarith
qed

theorem acc_commit_agreement_witness:
  "uj_digest (uncheck (Justification \<lparr>uj_round_number = 0, uj_digest = 7, uj_signatures = [100, 101, 102 :: nat]\<rparr>))
   = uj_digest (uncheck (Justification \<lparr>uj_round_number = 0, uj_digest = (7 :: nat), uj_signatures = [101, 103, 102 :: nat]\<rparr>))"
proof (rule acc_commit_agreement [where U = "{0, 1, 2, 3 :: nat}" and nodes = 4 and max_faulty = 1
      and p = "0 :: nat" and r = 0
      and msA = "example_commits [0, 1, 2]" and msB = "example_commits [1, 3, 2]"])
  show "msg_sender ` (set (example_commits [0, 1, 2]) \<union> set (example_commits [1, 3, 2])) \<subseteq> {0, 1, 2, 3}"
    by (auto simp: example_commits_def)
  have "double_committers 0 (set (example_commits [0, 1, 2]) \<union> set (example_commits [1, 3, 2])) = {}"
    by (auto simp: double_committers_def committers_def example_commits_def)
  then show "card (double_committers 0 (set (example_commits [0, 1, 2]) \<union> set (example_commits [1, 3, 2]))) \<le> 1"
    by (simp only: card.empty)
  show "acc_state (import_all (example_commits [1, 3, 2]) (acc_new 0 (bft_threshold 4 1) 0)) =
     State_Committed (Justification \<lparr>uj_round_number = 0, uj_digest = 7, uj_signatures = [101, 103, 102]\<rparr>)"
    by (simp add: example_commits_def import_all_def acc_import_message_def import_commit_def acc_new_def
      bft_threshold_def vote_counts_of_def VoteCounts_default_def signatures_for_def Let_def)
qed (simp_all add: example_committed [simplified])

text \<open>
  C9. Every justification an accumulator produces passes the justification check: if each
  imported commit carries a signature that the check attributes to its sender, a committed
  justification is accepted with the accumulator's own threshold.
\<close>

theorem acc_justification_checks:
  assumes valid: "\<And>d v s. commit_msg r d v s \<in> set ms \<Longrightarrow> check_message r d s = Some v"
    and comm: "acc_state (import_all ms (acc_new r t p)) = State_Committed j"
  shows "justification_check t check_message (uncheck j) = Inr j"
proof -
  from acc_inv_run [of ms r t p] comm obtain ps where ps:
    "uj_round_number (uncheck j) = r" "keys_distinct ps" "t \<le> length ps"
    "set ps \<subseteq> set (acc_commits (import_all ms (acc_new r t p)))"
    "\<forall>x\<in>set ps. fst (snd x) = uj_digest (uncheck j)"
    "uj_signatures (uncheck j) = map (snd \<circ> snd) ps"
    by (auto simp: acc_inv_def state_justified_def justified_by_def)
  have "check_message r (uj_digest (uncheck j)) (snd (snd x)) = Some (fst x)" if "x \<in> set ps" for x
  proof -
    obtain v d s where x: "x = (v, d, s)" by (cases x)
    with that ps(4) have "commit_msg r d v s \<in> set ms" by (blast intro: run_votes_sent(2))
    with that ps(5) show ?thesis using valid x by fastforce
  qed
  then have "map (check_message r (uj_digest (uncheck j))) (map (snd \<circ> snd) ps) = map Some (map fst ps)"
    by simp
  with ps show ?thesis
    unfolding justification_check_iff by (auto simp: keys_distinct_def intro!: exI [of _ "map fst ps"])
qed

theorem acc_justification_checks_witness:
  "justification_check (bft_threshold 4 1) (\<lambda>r d s. if r = 0 \<and> d = (7 :: nat) then Some (s - 100 :: nat) else None)
     (uncheck (Justification \<lparr>uj_round_number = 0, uj_digest = 7, uj_signatures = [100, 101, 102 :: nat]\<rparr>))
   = Inr (Justification \<lparr>uj_round_number = 0, uj_digest = 7, uj_signatures = [100, 101, 102]\<rparr>)"
  by (rule acc_justification_checks [OF _ example_committed]) (auto simp: example_commits_def)

text \<open>
  C10. Misbehavior reports are sound: a report against the sender of a message is only made
  when that message conflicts with what the sender may send or already sent in this round,
  and the evidence in the report is taken from messages the sender signed.
\<close>

theorem acc_misbehavior_sound:
  assumes "fst (acc_import_message m (import_all ms (acc_new r t p))) = Inl mb"
  shows "case mb of
      ProposeOutOfTurn r' d s \<Rightarrow> r' = r \<and> msg_sender m \<noteq> p \<and>
        (\<exists>pr. m = LocalizedMessage_Propose pr \<and> lp_digest pr = d \<and> lp_digest_signature pr = s)
    | DoublePropose r' (d1, s1) (d2, s2) \<Rightarrow> r' = r \<and> d1 \<noteq> d2 \<and> msg_sender m = p \<and>
        (\<exists>pr. m = LocalizedMessage_Propose pr \<and> lp_digest pr = d2 \<and> lp_digest_signature pr = s2) \<and>
        (\<exists>pr. LocalizedMessage_Propose pr \<in> set ms \<and> lp_sender pr = p \<and>
           lp_digest pr = d1 \<and> lp_digest_signature pr = s1 \<and> lp_round_number pr = r)
    | DoublePrepare r' (d1, s1) (d2, s2) \<Rightarrow> r' = r \<and> d1 \<noteq> d2 \<and>
        m = prepare_msg r d2 (msg_sender m) s2 \<and> prepare_msg r d1 (msg_sender m) s1 \<in> set ms
    | DoubleCommit r' (d1, s1) (d2, s2) \<Rightarrow> r' = r \<and> d1 \<noteq> d2 \<and>
        m = commit_msg r d2 (msg_sender m) s2 \<and> commit_msg r d1 (msg_sender m) s1 \<in> set ms"
proof -
  let ?a = "import_all ms (acc_new r t p)"
  have r: "msg_round_number m = r"
    using assms by (auto simp: acc_import_message_def split: if_splits)
  show ?thesis
  proof (cases m)
    case (LocalizedMessage_Propose pr)
    with assms r show ?thesis
      using run_proposal_sent [of ms r t p]
      by (auto simp: acc_import_message_def import_proposal_def Let_def split: if_splits option.splits)
  next
    case (LocalizedMessage_Vote v)
    with assms r show ?thesis
      by (cases v; cases "lv_vote v")
         (auto simp: acc_import_message_def import_defs split: if_splits option.splits State.splits
           dest!: map_of_SomeD run_votes_sent)
  qed
qed

theorem acc_misbehavior_sound_witness:
  "commit_msg 0 7 (1 :: nat) (101 :: nat) \<in> set (example_commits [0, 1])"
proof -
  have "fst (acc_import_message (commit_msg 0 8 1 201)
          (import_all (example_commits [0, 1]) (acc_new 0 3 0))) = Inl (DoubleCommit 0 (7, 101) (8, 201))"
    by (simp add: example_commits_def import_all_def acc_import_message_def import_commit_def acc_new_def
      vote_counts_of_def VoteCounts_default_def Let_def)
  from acc_misbehavior_sound [OF this] show ?thesis by simp
qed

text \<open>
  C15. Progress is never undone: importing a message never moves the round to an earlier
  phase; in particular a committed round stays committed.
\<close>

theorem acc_phase_monotone:
  "phase (acc_state (import_all ms (acc_new r t p)))
   \<le> phase (acc_state (import_all (ms @ ms') (acc_new r t p)))"
proof (induction ms' rule: rev_induct)
  case Nil
  then show ?case by simp
next
  case (snoc m ms')
  note snoc
  also have "phase (acc_state (import_all (ms @ ms') (acc_new r t p)))
      \<le> phase (acc_state (import_all ((ms @ ms') @ [m]) (acc_new r t p)))"
    by (simp only: import_all_snoc import_message_phase_mono)
  finally show ?case by simp
qed

end
