(* ===== verification/Bft_Strategy.thy ===== *)
theory Bft_Strategy
  imports Bft_Accumulator
begin

text \<open>
  The local view of BFT agreement (\<^verbatim>\<open>substrate/bft/src/generic/mod.rs\<close>): the outgoing queue
  \<^verbatim>\<open>Sending\<close>, the \<^verbatim>\<open>Strategy\<close> with one definition per method, its polling loop and the
  \<^verbatim>\<open>Agreement\<close> future that drives it.

  The \<^verbatim>\<open>Context\<close> trait is a record of functions and a parameter of every definition.  Its
  three kinds of future (proposal creation, proposal evaluation, round timeout) are run by
  the environment: \<open>'w\<close> is the state of that environment, starting a future and polling it
  are functions on \<open>'w\<close>, and the strategy only keeps whether a future is in flight.  A poll
  gives an error or an option (\<^const>\<open>None\<close> for \<^verbatim>\<open>Async::NotReady\<close>).  The assertion of
  \<^verbatim>\<open>advance_to_round\<close> is a branch of the model (\<open>Panic\<close>), and it is shown never to be taken.
\<close>

section \<open>Context and communication\<close>

record ('c, 'd, 'v, 's, 'e, 'w) Context =
  local_id :: 'v
  candidate_digest :: "'c \<Rightarrow> 'd"
  sign_local :: "('c, 'd) Message \<Rightarrow> ('c, 'd, 'v, 's) LocalizedMessage"
  round_proposer :: "usize \<Rightarrow> 'v"
  begin_proposal :: "'w \<Rightarrow> 'w"
  poll_proposal :: "'w \<Rightarrow> ('e + 'c option) \<times> 'w"
  begin_proposal_valid :: "'c \<Rightarrow> 'w \<Rightarrow> 'w"
  poll_proposal_valid :: "'w \<Rightarrow> ('e + bool option) \<times> 'w"
  begin_round_timeout :: "usize \<Rightarrow> 'w \<Rightarrow> 'w"
  poll_round_timeout :: "'w \<Rightarrow> ('e + unit option) \<times> 'w"

datatype ('c, 'd, 'v, 's) Communication =
    Consensus "('c, 'd, 'v, 's) LocalizedMessage"
  | Auxiliary "('d, 's) Justification"

datatype 'e failure = Panic | Err 'e


section \<open>The outgoing queue\<close>

record 't Sending =
  items :: "'t list"
  flushing :: bool

definition with_capacity :: "'t Sending" where
  "with_capacity = \<lparr>items = [], flushing = False\<rparr>"

definition push :: "'t \<Rightarrow> 't Sending \<Rightarrow> 't Sending" where
  "push item q = \<lparr>items = items q @ [item], flushing = False\<rparr>"

text \<open>
  \<^verbatim>\<open>process_all\<close> moves items into a sink, another piece of the environment: \<open>start_send\<close>
  returns whether the sink took the item, \<open>poll_complete\<close> whether it is flushed.
\<close>

record ('t, 'e, 'k) Sink =
  start_send :: "'t \<Rightarrow> 'k \<Rightarrow> ('e + bool) \<times> 'k"
  poll_complete :: "'k \<Rightarrow> ('e + bool) \<times> 'k"

fun send_items ::
  "('t, 'e, 'k) Sink \<Rightarrow> 't list \<Rightarrow> bool \<Rightarrow> 'k \<Rightarrow> ('e + bool) \<times> 't list \<times> bool \<times> 'k"
where
  "send_items sink [] fl k = (Inr True, [], fl, k)"
| "send_items sink (item # rest) fl k =
     (case start_send sink item k of
        (Inl e, k') \<Rightarrow> (Inl e, rest, fl, k')
      | (Inr False, k') \<Rightarrow> (Inr False, item # rest, fl, k')
      | (Inr True, k') \<Rightarrow> send_items sink rest True k')"

definition process_all ::
  "('t, 'e, 'k) Sink \<Rightarrow> 't Sending \<Rightarrow> 'k \<Rightarrow> ('e + bool) \<times> 't Sending \<times> 'k"
where
  "process_all sink q k =
     (case send_items sink (items q) (flushing q) k of
        (Inl e, is, fl, k') \<Rightarrow> (Inl e, \<lparr>items = is, flushing = fl\<rparr>, k')
      | (Inr False, is, fl, k') \<Rightarrow> (Inr False, \<lparr>items = is, flushing = fl\<rparr>, k')
      | (Inr True, is, fl, k') \<Rightarrow>
          if fl then
            (case poll_complete sink k' of
               (Inl e, k'') \<Rightarrow> (Inl e, \<lparr>items = is, flushing = fl\<rparr>, k'')
             | (Inr False, k'') \<Rightarrow> (Inr False, \<lparr>items = is, flushing = fl\<rparr>, k'')
             | (Inr True, k'') \<Rightarrow> (Inr True, \<lparr>items = is, flushing = False\<rparr>, k''))
          else (Inr True, \<lparr>items = is, flushing = fl\<rparr>, k'))"


section \<open>The strategy\<close>

datatype LocalState =
    LS_Start
  | LS_Proposed
  | LS_Prepared bool
  | LS_Committed
  | LS_VoteAdvance

record ('c, 'd, 's) Committed =
  com_candidate :: "'c option"
  com_justification :: "('d, 's) Justification"

record ('d, 's) Locked =
  justification :: "('d, 's) Justification"

definition locked_digest :: "('d, 's) Locked \<Rightarrow> 'd" where
  "locked_digest l = uj_digest (uncheck (justification l))"

record ('c, 'd, 'v, 's) Strategy =
  nodes :: usize
  max_faulty :: usize
  fetching_proposal :: bool
  evaluating_proposal :: bool
  local_state :: LocalState
  locked :: "('d, 's) Locked option"
  notable_candidates :: "('d, 'c) hmap"
  current_accumulator :: "('c, 'd, 'v, 's) Accumulator"
  future_accumulators :: "(usize, ('c, 'd, 'v, 's) Accumulator) btmap"
  str_local_id :: 'v
  misbehavior :: "('v, ('d, 's) Misbehavior) hmap"

type_synonym ('c, 'd, 'v, 's) sending = "('c, 'd, 'v, 's) Communication Sending"

definition strategy_create ::
  "('c, 'd, 'v, 's, 'e, 'w) Context \<Rightarrow> usize \<Rightarrow> usize \<Rightarrow> 'w \<Rightarrow> ('c, 'd, 'v, 's) Strategy \<times> 'w"
where
  "strategy_create ctx n f w =
     (let w' = begin_round_timeout ctx 0 w;
          threshold = bft_threshold n f
      in (\<lparr>nodes = n, max_faulty = f, fetching_proposal = False, evaluating_proposal = False,
           local_state = LS_Start, locked = None, notable_candidates = [],
           current_accumulator = acc_new 0 threshold (round_proposer ctx 0),
           future_accumulators = [], str_local_id = local_id ctx, misbehavior = []\<rparr>, w'))"

definition current_round :: "('c, 'd, 'v, 's) Strategy \<Rightarrow> usize" where
  "current_round st = acc_round_number (current_accumulator st)"

definition import_message ::
  "('c, 'd, 'v, 's, 'e, 'w) Context \<Rightarrow> ('c, 'd, 'v, 's) LocalizedMessage
   \<Rightarrow> ('c, 'd, 'v, 's) Strategy \<Rightarrow> ('c, 'd, 'v, 's) Strategy"
where
  "import_message ctx msg st =
     (let round_number = msg_round_number msg;
          sender = msg_sender msg;
          (res, st') =
            (if round_number = current_round st then
               (let (res, acc) = acc_import_message msg (current_accumulator st)
                in (res, st\<lparr>current_accumulator := acc\<rparr>))
             else if round_number > current_round st then
               (let threshold = bft_threshold (nodes st) (max_faulty st);
                    future_acc =
                      (case map_of (future_accumulators st) round_number of
                         Some a \<Rightarrow> a
                       | None \<Rightarrow> acc_new round_number threshold (round_proposer ctx round_number));
                    (res, acc) = acc_import_message msg future_acc
                in (res, st\<lparr>future_accumulators :=
                              AList.update round_number acc (future_accumulators st)\<rparr>))
             else (Inr (), st))
      in case res of
           Inl mb \<Rightarrow> st'\<lparr>misbehavior := AList.update sender mb (misbehavior st')\<rparr>
         | Inr _ \<Rightarrow> st')"

definition import_and_send_message ::
  "('c, 'd) Message \<Rightarrow> ('c, 'd, 'v, 's, 'e, 'w) Context \<Rightarrow> ('c, 'd, 'v, 's) Strategy
   \<Rightarrow> ('c, 'd, 'v, 's) sending \<Rightarrow> ('c, 'd, 'v, 's) Strategy \<times> ('c, 'd, 'v, 's) sending"
where
  "import_and_send_message message ctx st sending =
     (let signed_message = sign_local ctx message
      in (import_message ctx signed_message st, push (Consensus signed_message) sending))"

definition advance_to_round ::
  "('c, 'd, 'v, 's, 'e, 'w) Context \<Rightarrow> usize \<Rightarrow> ('c, 'd, 'v, 's) Strategy \<Rightarrow> 'w
   \<Rightarrow> ('e failure + ('c, 'd, 'v, 's) Strategy) \<times> 'w"
where
  "advance_to_round ctx round st w =
     (if \<not> round > current_round st then (Inl Panic, w)
      else
        (let w' = begin_round_timeout ctx round w;
             notable =
               (case acc_proposal_candidate (current_accumulator st) of
                  Some cand \<Rightarrow>
                    (let d = candidate_digest ctx cand
                     in case map_of (notable_candidates st) d of
                          Some _ \<Rightarrow> notable_candidates st
                        | None \<Rightarrow> AList.update d cand (notable_candidates st))
                | None \<Rightarrow> notable_candidates st);
             kept = fold AList.delete [current_round st + 1..<round] (future_accumulators st);
             acc =
               (case map_of kept round of
                  Some x \<Rightarrow> x
                | None \<Rightarrow> acc_new round (bft_threshold (nodes st) (max_faulty st)) (round_proposer ctx round))
         in (Inr (st\<lparr>fetching_proposal := False, evaluating_proposal := False,
                     local_state := LS_Start, notable_candidates := notable,
                     future_accumulators := AList.delete round kept,
                     current_accumulator := acc\<rparr>), w')))"

definition import_lock_proof ::
  "('c, 'd, 'v, 's, 'e, 'w) Context \<Rightarrow> ('d, 's) Justification \<Rightarrow> ('c, 'd, 'v, 's) Strategy \<Rightarrow> 'w
   \<Rightarrow> ('e failure + ('c, 'd, 'v, 's) Strategy) \<times> 'w"
where
  "import_lock_proof ctx j st w =
     (let (res, w') =
        (if uj_round_number (uncheck j) > current_round st
         then advance_to_round ctx (uj_round_number (uncheck j)) st w
         else (Inr st, w))
      in case res of
           Inl e \<Rightarrow> (Inl e, w')
         | Inr st' \<Rightarrow>
             (let lock_to_new =
                (case locked st' of
                   None \<Rightarrow> True
                 | Some l \<Rightarrow> uj_round_number (uncheck (justification l)) < uj_round_number (uncheck j))
              in (Inr (if lock_to_new then st'\<lparr>locked := Some \<lparr>justification = j\<rparr>\<rparr> else st'), w')))"


section \<open>Polling\<close>

text \<open>
  A polling step works on the strategy, the outgoing queue and the environment together;
  \<open>and_then\<close> is the \<^verbatim>\<open>?\<close> operator: it stops at the first error.
\<close>

type_synonym ('c, 'd, 'v, 's, 'w) view =
  "('c, 'd, 'v, 's) Strategy \<times> ('c, 'd, 'v, 's) sending \<times> 'w"

definition and_then :: "('x + 'a) \<times> 's \<Rightarrow> ('a \<Rightarrow> 's \<Rightarrow> ('x + 'b) \<times> 's) \<Rightarrow> ('x + 'b) \<times> 's" where
  "and_then r k = (case r of (Inl e, s) \<Rightarrow> (Inl e, s) | (Inr a, s) \<Rightarrow> k a s)"

definition send_proposal ::
  "('c, 'd, 'v, 's, 'e, 'w) Context \<Rightarrow> 'c option \<Rightarrow> ('c, 'd, 'v, 's, 'w) view
   \<Rightarrow> ('e failure + unit) \<times> ('c, 'd, 'v, 's, 'w) view"
where
  "send_proposal ctx cand = (\<lambda>(st, sending, w).
     case cand of
       None \<Rightarrow> (Inr (), st, sending, w)
     | Some c \<Rightarrow>
         (let st1 = st\<lparr>fetching_proposal := False\<rparr>;
              (st2, sending2) =
                import_and_send_message (Message_Propose (current_round st1) c) ctx st1 sending;
              sending3 =
                (case locked st2 of
                   Some l \<Rightarrow> push (Auxiliary (justification l)) sending2
                 | None \<Rightarrow> sending2)
          in (Inr (), st2\<lparr>local_state := LS_Proposed\<rparr>, sending3, w)))"

definition propose ::
  "('c, 'd, 'v, 's, 'e, 'w) Context \<Rightarrow> ('c, 'd, 'v, 's, 'w) view
   \<Rightarrow> ('e failure + unit) \<times> ('c, 'd, 'v, 's, 'w) view"
where
  "propose ctx = (\<lambda>(st, sending, w).
     if local_state st = LS_Start \<and> acc_state (current_accumulator st) = State_Begin
        \<and> str_local_id st = round_proposer ctx (current_round st)
     then
       (case locked st of
          Some l \<Rightarrow>
            send_proposal ctx (map_of (notable_candidates st) (locked_digest l)) (st, sending, w)
        | None \<Rightarrow>
            (let w1 = (if fetching_proposal st then w else begin_proposal ctx w);
                 st1 = st\<lparr>fetching_proposal := True\<rparr>
             in case poll_proposal ctx w1 of
                  (Inl e, w2) \<Rightarrow> (Inl (Err e), st1, sending, w2)
                | (Inr p, w2) \<Rightarrow> send_proposal ctx p (st1, sending, w2)))
     else (Inr (), st, sending, w))"

definition send_prepare ::
  "('c, 'd, 'v, 's, 'e, 'w) Context \<Rightarrow> 'd \<Rightarrow> ('c, 'd, 'v, 's, 'w) view
   \<Rightarrow> ('e failure + unit) \<times> ('c, 'd, 'v, 's, 'w) view"
where
  "send_prepare ctx d = (\<lambda>(st, sending, w).
     let (st', sending') =
       import_and_send_message (Message_Vote (Prepare (current_round st) d)) ctx st sending
     in (Inr (), st', sending', w))"

definition prepare ::
  "('c, 'd, 'v, 's, 'e, 'w) Context \<Rightarrow> ('c, 'd, 'v, 's, 'w) view
   \<Rightarrow> ('e failure + unit) \<times> ('c, 'd, 'v, 's, 'w) view"
where
  "prepare ctx = (\<lambda>(st, sending, w).
     if local_state st \<noteq> LS_Start \<and> local_state st \<noteq> LS_Proposed then (Inr (), st, sending, w)
     else
       (case acc_state (current_accumulator st) of
          State_Proposed cand \<Rightarrow>
            (let d = candidate_digest ctx cand
             in case locked st of
                  Some l \<Rightarrow>
                    if locked_digest l \<noteq> d then (Inr (), st, sending, w)
                    else send_prepare ctx d (st\<lparr>local_state := LS_Prepared True\<rparr>, sending, w)
                | None \<Rightarrow>
                    (let w1 = (if evaluating_proposal st then w else begin_proposal_valid ctx cand w);
                         st1 = st\<lparr>evaluating_proposal := True\<rparr>
                     in case poll_proposal_valid ctx w1 of
                          (Inl e, w2) \<Rightarrow> (Inl (Err e), st1, sending, w2)
                        | (Inr None, w2) \<Rightarrow> (Inr (), st1, sending, w2)
                        | (Inr (Some valid), w2) \<Rightarrow>
                            (let st2 = st1\<lparr>evaluating_proposal := False,
                                           local_state := LS_Prepared valid\<rparr>
                             in if valid then send_prepare ctx d (st2, sending, w2)
                                else (Inr (), st2, sending, w2))))
        | _ \<Rightarrow> (Inr (), st, sending, w)))"

definition commit ::
  "('c, 'd, 'v, 's, 'e, 'w) Context \<Rightarrow> ('c, 'd, 'v, 's, 'w) view
   \<Rightarrow> ('e failure + unit) \<times> ('c, 'd, 'v, 's, 'w) view"
where
  "commit ctx = (\<lambda>(st, sending, w).
     if local_state st = LS_Committed \<or> local_state st = LS_VoteAdvance then (Inr (), st, sending, w)
     else
       (case acc_state (current_accumulator st) of
          State_Prepared p_just \<Rightarrow>
            (let st1 = st\<lparr>locked := Some \<lparr>justification = p_just\<rparr>\<rparr>;
                 (st2, sending2) =
                   import_and_send_message
                     (Message_Vote (Commit (current_round st1) (uj_digest (uncheck p_just)))) ctx st1 sending
             in (Inr (), st2\<lparr>local_state := LS_Committed\<rparr>, sending2, w))
        | _ \<Rightarrow> (Inr (), st, sending, w)))"

definition vote_advance ::
  "('c, 'd, 'v, 's, 'e, 'w) Context \<Rightarrow> ('c, 'd, 'v, 's, 'w) view
   \<Rightarrow> ('e failure + unit) \<times> ('c, 'd, 'v, 's, 'w) view"
where
  "vote_advance ctx = (\<lambda>(st, sending, w).
     if local_state st = LS_VoteAdvance then (Inr (), st, sending, w)
     else
       (let attempt_advance =
              advance_votes (current_accumulator st) > max_faulty st \<or>
              local_state st = LS_Prepared False
        in case poll_round_timeout ctx w of
             (Inl e, w1) \<Rightarrow> (Inl (Err e), st, sending, w1)
           | (Inr fired, w1) \<Rightarrow>
               if attempt_advance \<or> fired \<noteq> None then
                 (let (st2, sending2) =
                    import_and_send_message
                      (Message_Vote (AdvanceRound (current_round st))) ctx st sending
                  in (Inr (), st2\<lparr>local_state := LS_VoteAdvance\<rparr>, sending2, w1))
               else (Inr (), st, sending, w1)))"

definition conclude ::
  "('c, 'd, 'v, 's, 'e, 'w) Context \<Rightarrow> ('c, 'd, 'v, 's, 'w) view
   \<Rightarrow> ('e failure + ('c, 'd, 's) Committed option) \<times> ('c, 'd, 'v, 's, 'w) view"
where
  "conclude ctx = (\<lambda>(st, sending, w).
     case acc_state (current_accumulator st) of
       State_Advanced p_just \<Rightarrow>
         (let st1 = (case p_just of
                       Some j \<Rightarrow> st\<lparr>locked := Some \<lparr>justification = j\<rparr>\<rparr>
                     | None \<Rightarrow> st)
          in case advance_to_round ctx (current_round st1 + 1) st1 w of
               (Inl e, w') \<Rightarrow> (Inl e, st1, sending, w')
             | (Inr st2, w') \<Rightarrow> (Inr None, st2, sending, w'))
     | State_Committed just \<Rightarrow>
         (let by_proposal =
                (case acc_proposal_candidate (current_accumulator st) of
                   Some c \<Rightarrow> if candidate_digest ctx c = uj_digest (uncheck just) then Some c else None
                 | None \<Rightarrow> None);
              cand = (case by_proposal of
                        Some c \<Rightarrow> Some c
                      | None \<Rightarrow> map_of (notable_candidates st) (uj_digest (uncheck just)))
          in (Inr (Some \<lparr>com_candidate = cand, com_justification = just\<rparr>), st, sending, w))
     | _ \<Rightarrow> (Inr None, st, sending, w))"

definition poll_once ::
  "('c, 'd, 'v, 's, 'e, 'w) Context \<Rightarrow> ('c, 'd, 'v, 's, 'w) view
   \<Rightarrow> ('e failure + ('c, 'd, 's) Committed option) \<times> ('c, 'd, 'v, 's, 'w) view"
where
  "poll_once ctx vw =
     and_then (propose ctx vw) (\<lambda>_ vw.
     and_then (prepare ctx vw) (\<lambda>_ vw.
     and_then (commit ctx vw) (\<lambda>_ vw.
     and_then (vote_advance ctx vw) (\<lambda>_ vw. conclude ctx vw))))"

definition watermark :: "('c, 'd, 'v, 's, 'w) view \<Rightarrow> usize \<times> LocalState" where
  "watermark vw = (current_round (fst vw), local_state (fst vw))"

text \<open>The polling loop: \<^const>\<open>None\<close> would mean that it never returns.\<close>

partial_function (option) poll ::
  "('c, 'd, 'v, 's, 'e, 'w) Context \<Rightarrow> ('c, 'd, 'v, 's, 'w) view
   \<Rightarrow> (('e failure + ('c, 'd, 's) Committed option) \<times> ('c, 'd, 'v, 's, 'w) view) option"
where
  "poll ctx vw =
     (let r = poll_once ctx vw
      in if fst r = Inr None \<and> watermark (snd r) \<noteq> watermark vw then poll ctx (snd r)
         else Some r)"


section \<open>The agreement future\<close>

text \<open>
  \<^verbatim>\<open>Agreement::poll\<close>: the input stream and the output sink are part of the environment; a poll
  of the input gives an error, \<^const>\<open>None\<close> (not ready), \<open>Some None\<close> (the stream ended) or a
  communication.
\<close>

record ('c, 'd, 'v, 's, 'e, 'w) Io =
  poll_input :: "'w \<Rightarrow> ('e + ('c, 'd, 'v, 's) Communication option option) \<times> 'w"
  io_output :: "(('c, 'd, 'v, 's) Communication, 'e, 'w) Sink"
  input_stream_concluded :: 'e

record ('c, 'd, 'v, 's) Agreement =
  concluded :: "('c, 'd, 's) Committed option"
  sending :: "('c, 'd, 'v, 's) sending"
  strategy :: "('c, 'd, 'v, 's) Strategy"

definition agree ::
  "('c, 'd, 'v, 's, 'e, 'w) Context \<Rightarrow> usize \<Rightarrow> usize \<Rightarrow> 'w \<Rightarrow> ('c, 'd, 'v, 's) Agreement \<times> 'w"
where
  "agree ctx n f w =
     (let (st, w') = strategy_create ctx n f w
      in (\<lparr>concluded = None, sending = with_capacity, strategy = st\<rparr>, w'))"

definition flush_concluded ::
  "('c, 'd, 'v, 's, 'e, 'w) Io \<Rightarrow> ('c, 'd, 's) Committed \<Rightarrow> ('c, 'd, 'v, 's) Agreement \<Rightarrow> 'w
   \<Rightarrow> ('e failure + ('c, 'd, 's) Committed option) \<times> ('c, 'd, 'v, 's) Agreement \<times> 'w"
where
  "flush_concluded io just ag w =
     (let ag1 = ag\<lparr>concluded := None\<rparr>
      in case process_all (io_output io) (sending ag1) w of
           (Inl e, q, w') \<Rightarrow> (Inl (Err e), ag1\<lparr>sending := q\<rparr>, w')
         | (Inr True, q, w') \<Rightarrow> (Inr (Some just), ag1\<lparr>sending := q\<rparr>, w')
         | (Inr False, q, w') \<Rightarrow> (Inr None, ag1\<lparr>sending := q, concluded := Some just\<rparr>, w'))"

definition handle_input ::
  "('c, 'd, 'v, 's, 'e, 'w) Context \<Rightarrow> ('c, 'd, 'v, 's, 'e, 'w) Io
   \<Rightarrow> ('c, 'd, 'v, 's) Agreement \<Rightarrow> 'w
   \<Rightarrow> ('e failure + bool) \<times> ('c, 'd, 'v, 's) Agreement \<times> 'w"
where
  "handle_input ctx io ag w =
     (case poll_input io w of
        (Inl e, w1) \<Rightarrow> (Inl (Err e), ag, w1)
      | (Inr None, w1) \<Rightarrow> (Inr False, ag, w1)
      | (Inr (Some None), w1) \<Rightarrow> (Inl (Err (input_stream_concluded io)), ag, w1)
      | (Inr (Some (Some (Consensus message))), w1) \<Rightarrow>
          (Inr True, ag\<lparr>strategy := import_message ctx message (strategy ag)\<rparr>, w1)
      | (Inr (Some (Some (Auxiliary lock_proof))), w1) \<Rightarrow>
          (case import_lock_proof ctx lock_proof (strategy ag) w1 of
             (Inl e, w2) \<Rightarrow> (Inl e, ag, w2)
           | (Inr st, w2) \<Rightarrow> (Inr True, ag\<lparr>strategy := st\<rparr>, w2)))"

definition poll_strategy ::
  "('c, 'd, 'v, 's, 'e, 'w) Context \<Rightarrow> ('c, 'd, 'v, 's) Agreement \<Rightarrow> 'w
   \<Rightarrow> (('e failure + ('c, 'd, 's) Committed option) \<times> ('c, 'd, 'v, 's) Agreement \<times> 'w) option"
where
  "poll_strategy ctx ag w =
     map_option (\<lambda>(r, st, q, w'). (r, ag\<lparr>strategy := st, sending := q\<rparr>, w'))
       (poll ctx (strategy ag, sending ag, w))"

definition flush_pending ::
  "('c, 'd, 'v, 's, 'e, 'w) Io \<Rightarrow> ('c, 'd, 'v, 's) Agreement \<Rightarrow> 'w
   \<Rightarrow> ('e failure + ('c, 'd, 's) Committed option) \<times> ('c, 'd, 'v, 's) Agreement \<times> 'w"
where
  "flush_pending io ag w =
     (case process_all (io_output io) (sending ag) w of
        (Inl e, q, w') \<Rightarrow> (Inl (Err e), ag\<lparr>sending := q\<rparr>, w')
      | (Inr _, q, w') \<Rightarrow> (Inr None, ag\<lparr>sending := q\<rparr>, w'))"

partial_function (option) drive ::
  "('c, 'd, 'v, 's, 'e, 'w) Context \<Rightarrow> ('c, 'd, 'v, 's, 'e, 'w) Io
   \<Rightarrow> ('c, 'd, 'v, 's) Agreement \<Rightarrow> 'w
   \<Rightarrow> (('e failure + ('c, 'd, 's) Committed option) \<times> ('c, 'd, 'v, 's) Agreement \<times> 'w) option"
where
  "drive ctx io ag w =
     (case handle_input ctx io ag w of
        (Inl e, ag1, w1) \<Rightarrow> Some (Inl e, ag1, w1)
      | (Inr driving, ag1, w1) \<Rightarrow>
          Option.bind (poll_strategy ctx ag1 w1) (\<lambda>(r, ag2, w2).
            case r of
              Inl e \<Rightarrow> Some (Inl e, ag2, w2)
            | Inr (Some just) \<Rightarrow> Some (flush_concluded io just ag2 w2)
            | Inr None \<Rightarrow> if driving then drive ctx io ag2 w2 else Some (flush_pending io ag2 w2)))"

definition agreement_poll ::
  "('c, 'd, 'v, 's, 'e, 'w) Context \<Rightarrow> ('c, 'd, 'v, 's, 'e, 'w) Io
   \<Rightarrow> ('c, 'd, 'v, 's) Agreement \<Rightarrow> 'w
   \<Rightarrow> (('e failure + ('c, 'd, 's) Committed option) \<times> ('c, 'd, 'v, 's) Agreement \<times> 'w) option"
where
  "agreement_poll ctx io ag w =
     (case concluded ag of
        Some just \<Rightarrow> Some (flush_concluded io just ag w)
      | None \<Rightarrow> drive ctx io ag w)"


section \<open>The queue is first-in first-out\<close>

text \<open>A sink that keeps what it takes: how the order of the items can be observed.\<close>

definition recording_sink :: "('t, 'e, 'k) Sink \<Rightarrow> ('k \<Rightarrow> 't list) \<Rightarrow> ('k \<Rightarrow> bool) \<Rightarrow> bool" where
  "recording_sink sink taken complete \<longleftrightarrow>
    (\<forall>item k r k'. start_send sink item k = (r, k') \<longrightarrow> taken k' = taken k @ (if r = Inr True then [item] else [])) \<and>
    (\<forall>k r k'. poll_complete sink k = (r, k') \<longrightarrow> taken k' = taken k \<and> (r = Inr True \<longrightarrow> complete k'))"

lemma recording_sinkD:
  assumes "recording_sink sink taken complete"
  shows "start_send sink item k = (r, k') \<Longrightarrow> taken k' = taken k @ (if r = Inr True then [item] else [])"
    "poll_complete sink k = (r, k') \<Longrightarrow> taken k' = taken k" "poll_complete sink k = (Inr True, k') \<Longrightarrow> complete k'"
  using assms unfolding recording_sink_def by blast+

lemma send_items_order:
  assumes sink: "recording_sink sink taken complete"
    and run: "send_items sink xs fl k = (r, xs', fl', k')"
  shows "\<exists>sent lost. taken k' = taken k @ sent \<and> xs = sent @ lost @ xs' \<and>
    (if isl r then length lost = 1 else lost = []) \<and>
    (r = Inr True \<longrightarrow> xs' = [] \<and> (fl' \<or> \<not> fl \<and> xs = [] \<and> k' = k)) \<and> (r = Inr False \<longrightarrow> xs' \<noteq> [])"
  using run
proof (induction xs arbitrary: fl k)
  case (Cons item rest)
  obtain q k1 where st: "start_send sink item k = (q, k1)" by fastforce
  note tk = recording_sinkD(1) [OF sink st]
  consider e where "q = Inl e" | "q = Inr False" | "q = Inr True" by (cases q) (auto simp: bool.split_sel)
  then show ?case
  proof cases
    case 3
    then have "send_items sink rest True k1 = (r, xs', fl', k')" using Cons.prems st by simp
    from Cons.IH [OF this] obtain sent lost where "taken k' = taken k1 @ sent" "rest = sent @ lost @ xs'"
      "if isl r then length lost = 1 else lost = []" "r = Inr True \<longrightarrow> xs' = [] \<and> fl'" "r = Inr False \<longrightarrow> xs' \<noteq> []"
      by auto
    then show ?thesis using tk 3 by (intro exI [of _ "item # sent"] exI [of _ lost]) auto
  qed (use Cons.prems st tk in auto)
qed auto

text \<open>
  The life of a queue: items are pushed and \<^verbatim>\<open>process_all\<close> is called in any order; an error ends it.  What has been pushed so far is
  the first argument.
\<close>

inductive sending_run :: "('t, 'e, 'k) Sink \<Rightarrow> 'k \<Rightarrow> 't list \<Rightarrow> 't Sending \<Rightarrow> 'k \<Rightarrow> bool" for sink k0 where
  run_new: "sending_run sink k0 [] with_capacity k0"
| run_push: "sending_run sink k0 pushed q k \<Longrightarrow> sending_run sink k0 (pushed @ [item]) (push item q) k"
| run_process: "sending_run sink k0 pushed q k \<Longrightarrow> process_all sink q k = (Inr b, q', k') \<Longrightarrow> sending_run sink k0 pushed q' k'"

text \<open>One call: the queue may only be taken for done with nothing pending in it or in the sink.\<close>

lemma process_all_step:
  assumes sink: "recording_sink sink taken complete"
    and pending: "flushing q \<or> items q \<noteq> [] \<or> complete k"
    and run: "process_all sink q k = (r, q', k')"
  shows "\<exists>sent lost. taken k' = taken k @ sent \<and> items q = sent @ lost @ items q' \<and>
      (case r of Inl e \<Rightarrow> length lost \<le> 1
       | Inr b \<Rightarrow> lost = [] \<and> (if b then items q' = [] \<and> complete k' else True) \<and> (flushing q' \<or> items q' \<noteq> [] \<or> complete k'))"
proof -
  obtain r1 xs fl k1 where si: "send_items sink (items q) (flushing q) k = (r1, xs, fl, k1)"
    by (rule prod.exhaust) (metis prod.exhaust)
  obtain sent lost where so: "taken k1 = taken k @ sent" "items q = sent @ lost @ xs"
    "if isl r1 then length lost = 1 else lost = []"
    "r1 = Inr True \<longrightarrow> xs = [] \<and> (fl \<or> \<not> flushing q \<and> items q = [] \<and> k1 = k)" "r1 = Inr False \<longrightarrow> xs \<noteq> []"
    using send_items_order [OF sink si] by auto
  obtain r2 k2 where pc: "poll_complete sink k1 = (r2, k2)" by fastforce
  note keep = recording_sinkD(2) [OF sink pc]
  note step = run [unfolded process_all_def si]
  consider e where "r1 = Inl e" | "r1 = Inr False" | "r1 = Inr True" by (cases r1) (auto simp: bool.split_sel)
  then show ?thesis
  proof cases
    case 3
    show ?thesis
    proof (cases fl)
      case True
      have "(\<exists>e. r2 = Inl e) \<or> r2 = Inr False \<or> r2 = Inr True" by (cases r2) (auto simp: bool.split_sel)
      then show ?thesis
        using step so 3 True keep recording_sinkD(3) [OF sink, of k1 k2] pc
        by (intro exI [of _ sent] exI [of _ lost]) auto
    next
      case False
      then show ?thesis using step so 3 pending by auto
    qed
  next
    case 2
    then show ?thesis using step so by (intro exI [of _ sent] exI [of _ lost]) auto
  next
    case 1
    then show ?thesis using step so by (intro exI [of _ sent] exI [of _ lost]) auto
  qed
qed

lemma sending_run_inv:
  assumes sink: "recording_sink sink taken complete"
    and "complete k0" "sending_run sink k0 pushed q k"
  shows "(\<exists>sent. taken k = taken k0 @ sent \<and> pushed = sent @ items q) \<and> (flushing q \<or> items q \<noteq> [] \<or> complete k)"
  using assms(3)
proof induction
  case (run_process pushed q k b q' k')
  then show ?case using process_all_step [OF sink _ run_process.hyps(2)] by auto
qed (use assms(2) in \<open>auto simp: with_capacity_def push_def\<close>)

text \<open>
  C16. The outgoing queue over its whole life, of pushes and calls of \<^verbatim>\<open>process_all\<close> in any order.  For a sink that records what it takes and
  of which \<open>complete\<close> holds once a flush has succeeded, the messages the sink has taken followed by those in the queue are exactly
  the messages pushed, in their order.  A call that reports completion leaves the queue empty and everything the sink has taken
  flushed.  A call that fails loses at most the one message it was offering; nothing else is lost, duplicated or reordered.
\<close>

theorem process_all_fifo:
  assumes sink: "recording_sink sink taken complete"
    and "complete k0" "sending_run sink k0 pushed q k"
    and run: "process_all sink q k = (r, q', k')"
  shows "\<exists>sent lost. taken k' = taken k0 @ sent \<and> pushed = sent @ lost @ items q' \<and>
    (case r of Inl e \<Rightarrow> length lost \<le> 1 | Inr True \<Rightarrow> lost = [] \<and> items q' = [] \<and> complete k' | Inr False \<Rightarrow> lost = [])"
proof -
  obtain sent where s: "taken k = taken k0 @ sent" "pushed = sent @ items q" "flushing q \<or> items q \<noteq> [] \<or> complete k"
    using sending_run_inv [OF sink assms(2,3)] by blast
  obtain sent' lost where "taken k' = taken k @ sent'" "items q = sent' @ lost @ items q'"
    "case r of Inl e \<Rightarrow> length lost \<le> 1
       | Inr b \<Rightarrow> lost = [] \<and> (if b then items q' = [] \<and> complete k' else True) \<and> (flushing q' \<or> items q' \<noteq> [] \<or> complete k')"
    using process_all_step [OF sink s(3) run] by blast
  then show ?thesis using s
    by (intro exI [of _ "sent @ sent'"] exI [of _ lost]) (auto split: sum.splits bool.splits)
qed

text \<open>A sink with room for two messages; its second component counts those that are flushed.\<close>

definition list_sink :: "(nat, unit, nat list \<times> nat) Sink" where
  "list_sink = \<lparr>start_send = (\<lambda>x (k, f). if length k < 2 then (Inr True, k @ [x], f) else (Inr False, k, f)),
     poll_complete = (\<lambda>(k, f). (Inr True, k, length k))\<rparr>"

theorem process_all_fifo_witness:
  "process_all list_sink (push 6 (push 5 with_capacity)) ([], 0) = (Inr True, with_capacity, [5, 6], 2) \<and>
   (\<exists>sent lost. [5, 6] = [] @ sent \<and> [5, 6] = sent @ lost @ items (with_capacity :: nat Sending) \<and> lost = [])"
proof -
  have run: "process_all list_sink (push 6 (push 5 with_capacity)) ([], 0) = (Inr True, with_capacity, [5, 6], 2)"
    by (simp add: process_all_def list_sink_def push_def with_capacity_def)
  have "sending_run list_sink ([], 0) (([] @ [5]) @ [6]) (push 6 (push 5 with_capacity)) ([], 0)"
    by (intro sending_run.intros)
  moreover have sink: "recording_sink list_sink fst (\<lambda>k. snd k = length (fst k))"
    by (auto simp: recording_sink_def list_sink_def split: if_splits)
  ultimately have "\<exists>sent lost. [5, 6] = [] @ sent \<and> [5, 6] = sent @ lost @ items (with_capacity :: nat Sending) \<and> lost = []"
    using process_all_fifo [OF sink _ _ run, of "([], 0)" "[5, 6]"] by simp
  with run show ?thesis by blast
qed

end
