(* ===== verification/Bft_Voting.thy ===== *)
theory Bft_Voting
  imports Bft_Strategy
begin

text \<open>
  What the strategy of \<^verbatim>\<open>substrate/bft/src/generic/mod.rs\<close> guarantees over a whole run: its
  invariant, that a node never issues two votes of the same kind in a round, that rounds and
  locks never go back, that the assertion in \<^verbatim>\<open>advance_to_round\<close> cannot fail, and that the
  polling loop returns.  The lemmas live in the locale \<open>signing_context\<close>, the contract between
  the strategy and the signer; \<open>Bft_Service\<close> interprets it on the signing code.
\<close>

section \<open>Ranks\<close>

text \<open>How far the local node got in its round, and which step each kind of vote belongs to.\<close>

primrec rank :: "LocalState \<Rightarrow> nat" where
  "rank LS_Start = 0"
| "rank LS_Proposed = 1"
| "rank (LS_Prepared b) = 2"
| "rank LS_Committed = 3"
| "rank LS_VoteAdvance = 4"

primrec vote_kind :: "'d Vote \<Rightarrow> nat" where
  "vote_kind (Prepare r d) = 2"
| "vote_kind (Commit r d) = 3"
| "vote_kind (AdvanceRound r) = 4"

lemma rank_le_4 [simp]: "rank ls \<le> 4"
  by (cases ls) simp_all

text \<open>The votes queued for sending, oldest first.\<close>

fun vote_of :: "('c, 'd, 'v, 's) Communication \<Rightarrow> 'd Vote option" where
  "vote_of (Consensus (LocalizedMessage_Vote v)) = Some (lv_vote v)"
| "vote_of _ = None"

definition own_votes :: "('c, 'd, 'v, 's) sending \<Rightarrow> 'd Vote list" where
  "own_votes q = List.map_filter vote_of (items q)"

lemma own_votes_push [simp]:
  "own_votes (push x q) = own_votes q @ (case vote_of x of Some v \<Rightarrow> [v] | None \<Rightarrow> [])"
  by (simp add: own_votes_def push_def List.map_filter_def split: option.splits)


section \<open>The interface to the signer\<close>

text \<open>
  What the strategy relies on of its context: a signed message carries the content it was
  given and the local identity.
\<close>

locale signing_context =
  fixes ctx :: "('c, 'd, 'v, 's, 'e, 'w) Context"
  assumes sign_propose: "\<exists>pr. sign_local ctx (Message_Propose r c) = LocalizedMessage_Propose pr \<and>
      lp_round_number pr = r \<and> lp_proposal pr = c \<and> lp_sender pr = local_id ctx \<and>
      lp_digest pr = candidate_digest ctx c"
    and sign_vote: "\<exists>s. sign_local ctx (Message_Vote v) =
      LocalizedMessage_Vote \<lparr>lv_vote = v, lv_sender = local_id ctx, lv_signature = s\<rparr>"
begin

lemma sign_round [simp]:
  "msg_round_number (sign_local ctx (Message_Propose r c)) = r"
  "msg_round_number (sign_local ctx (Message_Vote v)) = vote_round_number v"
  using sign_propose [of r c] sign_vote [of v] by auto

lemma sign_sender [simp]:
  "msg_sender (sign_local ctx (Message_Propose r c)) = local_id ctx"
  "msg_sender (sign_local ctx (Message_Vote v)) = local_id ctx"
  using sign_propose [of r c] sign_vote [of v] by auto

lemma vote_of_sign [simp]:
  "vote_of (Consensus (sign_local ctx (Message_Propose r c))) = None"
  "vote_of (Consensus (sign_local ctx (Message_Vote v))) = Some v"
  using sign_propose [of r c] sign_vote [of v] by auto

end


section \<open>The invariant of the strategy\<close>

definition lock_round :: "('c, 'd, 'v, 's) Strategy \<Rightarrow> usize option" where
  "lock_round st = map_option (\<lambda>l. uj_round_number (uncheck (justification l))) (locked st)"

definition future_ok :: "('c, 'd, 'v, 's) Strategy \<Rightarrow> bool" where
  "future_ok st \<longleftrightarrow> keys_distinct (future_accumulators st) \<and>
     (\<forall>(k, a)\<in>set (future_accumulators st). current_round st < k \<and> acc_round_number a = k \<and>
        acc_inv a \<and> acc_threshold a = bft_threshold (nodes st) (max_faulty st))"

definition strat_inv :: "('c, 'd, 'v, 's) Strategy \<Rightarrow> bool" where
  "strat_inv st \<longleftrightarrow>
     acc_inv (current_accumulator st) \<and>
     acc_threshold (current_accumulator st) = bft_threshold (nodes st) (max_faulty st) \<and>
     future_ok st \<and>
     (\<forall>r. lock_round st = Some r \<longrightarrow> r \<le> current_round st)"

lemma strat_inv_create: "strat_inv (fst (strategy_create ctx n f w))"
  by (simp add: strat_inv_def strategy_create_def Let_def acc_inv_new future_ok_def lock_round_def)

text \<open>Importing a message of the current round touches the current accumulator only.\<close>

lemma import_message_current [simp]:
  assumes "msg_round_number msg = current_round st"
  shows "current_accumulator (import_message ctx msg st) = snd (acc_import_message msg (current_accumulator st))"
    and "future_accumulators (import_message ctx msg st) = future_accumulators st"
  using assms by (simp_all add: import_message_def Let_def split: prod.split sum.split)

lemma strat_import_frame [simp]:
  "nodes (import_message ctx msg st) = nodes st"
  "max_faulty (import_message ctx msg st) = max_faulty st"
  "local_state (import_message ctx msg st) = local_state st"
  "locked (import_message ctx msg st) = locked st"
  "str_local_id (import_message ctx msg st) = str_local_id st"
  "current_round (import_message ctx msg st) = current_round st"
  "notable_candidates (import_message ctx msg st) = notable_candidates st"
  by (simp_all add: import_message_def Let_def current_round_def case_prod_beta split: sum.split)

lemma strat_inv_import_message:
  assumes "strat_inv st"
  shows "strat_inv (import_message ctx msg st)"
proof -
  consider "msg_round_number msg = current_round st" | "msg_round_number msg < current_round st"
    | "msg_round_number msg > current_round st" by linarith
  then show ?thesis
  proof cases
    case 1
    with assms show ?thesis
      by (auto simp: strat_inv_def acc_inv_import future_ok_def lock_round_def)
  next
    case 2
    with assms show ?thesis
      by (simp add: import_message_def Let_def)
  next
    case 3
    let ?r = "msg_round_number msg"
    let ?a = "case map_of (future_accumulators st) ?r of Some a \<Rightarrow> a
       | None \<Rightarrow> acc_new ?r (bft_threshold (nodes st) (max_faulty st)) (round_proposer ctx ?r)"
    have a: "acc_inv ?a" "acc_round_number ?a = ?r"
      "acc_threshold ?a = bft_threshold (nodes st) (max_faulty st)"
      using assms by (auto simp: strat_inv_def future_ok_def acc_inv_new split: option.splits dest!: map_of_SomeD)
    have fut: "future_accumulators (import_message ctx msg st) =
        AList.update ?r (snd (acc_import_message msg ?a)) (future_accumulators st)"
      and cur: "current_accumulator (import_message ctx msg st) = current_accumulator st"
      using 3 by (simp_all add: import_message_def Let_def split: prod.split sum.split)
    have "x \<in> set (AList.update k v m) \<Longrightarrow> x = (k, v) \<or> x \<in> set m" for x k v and m :: "(usize, ('a, 'b, 'c, 'd) Accumulator) btmap"
      by (induction m) (auto split: if_splits)
    with assms a 3 show ?thesis
      by (fastforce simp: strat_inv_def future_ok_def fut cur lock_round_def acc_inv_import)
  qed
qed


section \<open>Own votes\<close>

definition own_only :: "'v \<Rightarrow> ('c, 'd, 'v, 's) Accumulator \<Rightarrow> bool" where
  "own_only me a \<longleftrightarrow> fst ` set (acc_prepares a) \<subseteq> {me} \<and> fst ` set (acc_commits a) \<subseteq> {me} \<and>
     set (acc_advance_round a) \<subseteq> {me}"

lemma own_only_new [simp]: "own_only me (acc_new r t p)"
  by (simp add: own_only_def)

lemma own_only_import:
  assumes "own_only me a" "msg_sender m = me"
  shows "own_only me (snd (acc_import_message m a))"
proof -
  have "set (acc_prepares (snd (acc_import_message m a))) \<subseteq> set (acc_prepares a) \<union> {me} \<times> UNIV"
    "set (acc_commits (snd (acc_import_message m a))) \<subseteq> set (acc_commits a) \<union> {me} \<times> UNIV"
    using import_message_votes [of m a] assms(2) by auto
  moreover have "set (acc_advance_round (snd (acc_import_message m a))) \<subseteq> set (acc_advance_round a) \<union> {me}"
    using assms(2) by (auto simp: import_message_advancers advancers_def)
  ultimately show ?thesis using assms(1) by (fastforce simp: own_only_def)
qed

lemma length_le_1_if_keys:
  assumes "keys_distinct m" "fst ` set m \<subseteq> {me}"
  shows "length m \<le> 1"
proof -
  have "length m = card (fst ` set m)"
    using assms(1) distinct_card [of "map fst m"] by (simp add: keys_distinct_def)
  also have "\<dots> \<le> card {me}" using assms(2) by (intro card_mono) auto
  finally show ?thesis by simp
qed

lemma no_own_quorum:
  assumes "keys_distinct m" "fst ` set m \<subseteq> {me}" "2 \<le> t"
  shows "\<not> has_quorum t m"
proof
  assume "has_quorum t m"
  then obtain d where "t \<le> length (votes_for d m)" by (auto simp: has_quorum_def)
  also have "\<dots> \<le> length m" by (simp add: votes_for_def)
  also have "\<dots> \<le> 1" using assms(1,2) by (rule length_le_1_if_keys)
  finally show False using assms(3) by simp
qed

text \<open>With a threshold of two or more, a node's own votes alone decide nothing.\<close>

lemma own_only_phase:
  assumes "own_only me a" "acc_inv a" "2 \<le> acc_threshold a"
  shows "phase (acc_state a) \<le> 1"
proof -
  have d: "keys_distinct (acc_prepares a)" "keys_distinct (acc_commits a)" "distinct (acc_advance_round a)"
    using assms(2) by (auto simp: acc_inv_def tallies_ok_def tally_ok_def)
  have "\<not> has_quorum (acc_threshold a) (acc_prepares a)" "\<not> has_quorum (acc_threshold a) (acc_commits a)"
    using no_own_quorum [OF d(1)] no_own_quorum [OF d(2)] assms(1,3) by (auto simp: own_only_def)
  moreover have "length (acc_advance_round a) \<le> 1"
    using distinct_card [OF d(3)] assms(1) card_mono [of "{me}" "set (acc_advance_round a)"]
    by (simp add: own_only_def)
  ultimately show ?thesis
    using assms(2,3) by (simp add: acc_inv_def phase_ok_def spec_phase_def)
qed


section \<open>What one step of a poll does\<close>

text \<open>
  Within a round, a step keeps the invariant, only moves the local state forward, and queues
  votes of the current round whose kinds lie strictly above the old local state and not
  above the new one.
\<close>

definition new_votes_ok :: "usize \<Rightarrow> nat \<Rightarrow> nat \<Rightarrow> 'd Vote list \<Rightarrow> bool" where
  "new_votes_ok r lo hi vs \<longleftrightarrow> sorted_wrt (<) (map vote_kind vs) \<and>
     (\<forall>v\<in>set vs. vote_round_number v = r \<and> lo < vote_kind v \<and> vote_kind v \<le> hi)"

lemma new_votes_ok_Nil [simp]: "new_votes_ok r lo hi []"
  by (simp add: new_votes_ok_def)

lemma new_votes_ok_append:
  "new_votes_ok r lo mid vs \<Longrightarrow> new_votes_ok r mid hi ws \<Longrightarrow> lo \<le> mid \<Longrightarrow> mid \<le> hi \<Longrightarrow>
   new_votes_ok r lo hi (vs @ ws)"
  by (fastforce simp: new_votes_ok_def sorted_wrt_append)

definition lock_le :: "('c, 'd, 'v, 's) Strategy \<Rightarrow> ('c, 'd, 'v, 's) Strategy \<Rightarrow> bool" where
  "lock_le st st' \<longleftrightarrow> (\<forall>r. lock_round st = Some r \<longrightarrow> (\<exists>r'. lock_round st' = Some r' \<and> r \<le> r'))"

lemma lock_le_refl [simp]: "locked st' = locked st \<Longrightarrow> lock_le st st'"
  by (auto simp: lock_le_def lock_round_def)

lemma lock_le_trans: "lock_le st st' \<Longrightarrow> lock_le st' st'' \<Longrightarrow> lock_le st st''"
  unfolding lock_le_def by (meson order_trans)

definition progress :: "('c, 'd, 'v, 's, 'w) view \<Rightarrow> ('c, 'd, 'v, 's, 'w) view \<Rightarrow> bool" where
  "progress vw vw' \<longleftrightarrow> (case vw of (st, q, w) \<Rightarrow> case vw' of (st', q', w') \<Rightarrow>
     current_round st' = current_round st \<and>
     future_accumulators st' = future_accumulators st \<and>
     nodes st' = nodes st \<and> max_faulty st' = max_faulty st \<and> str_local_id st' = str_local_id st \<and>
     (strat_inv st \<longrightarrow> strat_inv st' \<and> lock_le st st') \<and>
     (own_only (str_local_id st) (current_accumulator st) \<longrightarrow>
        own_only (str_local_id st) (current_accumulator st')) \<and>
     (local_state st' = local_state st \<or> rank (local_state st) < rank (local_state st')) \<and>
     (\<exists>vs. own_votes q' = own_votes q @ vs \<and>
        new_votes_ok (current_round st) (rank (local_state st)) (rank (local_state st')) vs))"

lemma progress_refl [simp]: "progress vw vw"
  by (auto simp: progress_def intro!: exI [of _ "[]"] split: prod.splits)

lemma progress_trans:
  assumes "progress u v" "progress v w"
  shows "progress u w"
proof -
  obtain st q x where u: "u = (st, q, x)" by (cases u)
  obtain st1 q1 x1 where v: "v = (st1, q1, x1)" by (cases v)
  obtain st2 q2 x2 where w: "w = (st2, q2, x2)" by (cases w)
  from assms u v w obtain vs ws where
    vs: "own_votes q1 = own_votes q @ vs"
      "new_votes_ok (current_round st) (rank (local_state st)) (rank (local_state st1)) vs" and
    ws: "own_votes q2 = own_votes q1 @ ws"
      "new_votes_ok (current_round st1) (rank (local_state st1)) (rank (local_state st2)) ws"
    by (auto simp: progress_def)
  have r: "current_round st1 = current_round st" "rank (local_state st) \<le> rank (local_state st1)"
    "rank (local_state st1) \<le> rank (local_state st2)"
    using assms u v w by (auto simp: progress_def)
  have "new_votes_ok (current_round st) (rank (local_state st)) (rank (local_state st2)) (vs @ ws)"
    using vs(2) ws(2) r by (auto intro: new_votes_ok_append)
  with vs(1) ws(1) have votes: "\<exists>us. own_votes q2 = own_votes q @ us \<and>
      new_votes_ok (current_round st) (rank (local_state st)) (rank (local_state st2)) us"
    by (intro exI [of _ "vs @ ws"]) simp
  have ls: "local_state st2 = local_state st \<or> rank (local_state st) < rank (local_state st2)"
    using assms u v w by (auto simp: progress_def)
  have "strat_inv st \<longrightarrow> strat_inv st2 \<and> lock_le st st2"
    using assms u v w by (auto simp: progress_def intro: lock_le_trans)
  then show ?thesis
    using assms votes ls unfolding u v w by (simp add: progress_def)
qed

lemma prepared_round:
  "acc_inv a \<Longrightarrow> acc_state a = State_Prepared j \<Longrightarrow> uj_round_number (uncheck j) = acc_round_number a"
  "acc_inv a \<Longrightarrow> acc_state a = State_Advanced (Some j) \<Longrightarrow> uj_round_number (uncheck j) = acc_round_number a"
  by (auto simp: acc_inv_def state_justified_def justified_by_def)

lemma strat_inv_update_simps [simp]:
  "strat_inv (st\<lparr>local_state := ls\<rparr>) = strat_inv st"
  "strat_inv (st\<lparr>fetching_proposal := b\<rparr>) = strat_inv st"
  "strat_inv (st\<lparr>evaluating_proposal := b\<rparr>) = strat_inv st"
  "current_round (st\<lparr>local_state := ls\<rparr>) = current_round st"
  "current_round (st\<lparr>fetching_proposal := b\<rparr>) = current_round st"
  "current_round (st\<lparr>evaluating_proposal := b\<rparr>) = current_round st"
  "current_round (st\<lparr>locked := l\<rparr>) = current_round st"
  by (simp_all add: strat_inv_def future_ok_def current_round_def lock_round_def)

lemma strat_inv_lock:
  assumes "strat_inv st" "uj_round_number (uncheck j) \<le> current_round st"
  shows "strat_inv (st\<lparr>locked := Some \<lparr>justification = j\<rparr>\<rparr>)"
  using assms by (simp add: strat_inv_def future_ok_def lock_round_def current_round_def)

context signing_context
begin

lemma send_vote:
  assumes "str_local_id st = local_id ctx" "vote_round_number v = current_round st"
    and "rank (local_state st) < vote_kind v" "vote_kind v \<le> rank ls"
  shows "progress (st, q, w)
    ((fst (import_and_send_message (Message_Vote v) ctx st q))\<lparr>local_state := ls\<rparr>,
     snd (import_and_send_message (Message_Vote v) ctx st q), w)"
  using assms
  by (auto simp: progress_def import_and_send_message_def Let_def strat_inv_import_message
      own_only_import new_votes_ok_def intro!: exI [of _ "[v]"])

lemma progress_send_proposal:
  assumes "str_local_id st = local_id ctx" "local_state st = LS_Start"
  shows "progress (st, q, w) (snd (send_proposal ctx c (st, q, w)))"
  using assms
  by (auto simp: progress_def send_proposal_def import_and_send_message_def Let_def
      strat_inv_import_message own_only_import split: option.split)

lemma progress_propose:
  assumes "str_local_id (fst vw) = local_id ctx"
  shows "progress vw (snd (propose ctx vw))"
proof -
  obtain st q w where vw: "vw = (st, q, w)" by (cases vw)
  have pre: "progress (st, q, w) (st\<lparr>fetching_proposal := True\<rparr>, q, w')" for w'
    by (auto simp: progress_def intro!: exI [of _ "[]"])
  have send: "progress (st, q, w) (snd (send_proposal ctx c (st', q, w')))"
    if "local_state st = LS_Start" "st' = st\<lparr>fetching_proposal := True\<rparr>" for c st' w'
    using assms that vw by (auto intro: progress_trans [OF pre progress_send_proposal])
  show ?thesis
    using assms pre send progress_send_proposal unfolding vw
    by (auto simp: propose_def Let_def split: option.split prod.split sum.split)
qed

lemma progress_prepare:
  assumes "str_local_id (fst vw) = local_id ctx"
  shows "progress vw (snd (prepare ctx vw))"
proof -
  obtain st q w where vw: "vw = (st, q, w)" by (cases vw)
  have eval: "progress (st, q, w) (st\<lparr>evaluating_proposal := b\<rparr>, q, w')" for b w'
    by (auto simp: progress_def intro!: exI [of _ "[]"])
  have fin: "progress (st, q, w) (st\<lparr>evaluating_proposal := b, local_state := LS_Prepared c\<rparr>, q, w')"
    if "rank (local_state st) < 2" for b c w'
    using that by (auto simp: progress_def intro!: exI [of _ "[]"])
  have vote: "progress (st, q, w) (snd (send_prepare ctx d (st'\<lparr>local_state := LS_Prepared True\<rparr>, q, w')))"
    if "rank (local_state st) < 2" "st' = st \<or> st' = st\<lparr>evaluating_proposal := False\<rparr>" for d st' w'
    using that assms vw
    by (auto simp: progress_def send_prepare_def import_and_send_message_def Let_def
        strat_inv_import_message own_only_import new_votes_ok_def
        intro!: exI [of _ "[Prepare (current_round st) d]"])
  show ?thesis
  proof (cases "local_state st = LS_Start \<or> local_state st = LS_Proposed")
    case False
    then show ?thesis by (simp add: vw prepare_def)
  next
    case True
    then have "rank (local_state st) < 2" by auto
    with True eval fin vote show ?thesis
      unfolding vw
      by (auto simp: prepare_def Let_def split: option.split prod.split sum.split State.split)
  qed
qed

lemma progress_commit:
  assumes "str_local_id (fst vw) = local_id ctx"
  shows "progress vw (snd (commit ctx vw))"
proof -
  obtain st q w where vw: "vw = (st, q, w)" by (cases vw)
  show ?thesis
  proof (cases "\<exists>j. acc_state (current_accumulator st) = State_Prepared j \<and>
      local_state st \<noteq> LS_Committed \<and> local_state st \<noteq> LS_VoteAdvance")
    case False
    then show ?thesis by (auto simp: vw commit_def split: State.split)
  next
    case True
    then obtain j where j: "acc_state (current_accumulator st) = State_Prepared j"
      and ls: "local_state st \<noteq> LS_Committed" "local_state st \<noteq> LS_VoteAdvance" by blast
    let ?st1 = "st\<lparr>locked := Some \<lparr>justification = j\<rparr>\<rparr>"
    have rk: "rank (local_state st) < 3" using ls by (cases "local_state st") auto
    have "progress (st, q, w) (?st1, q, w)"
      using j by (auto simp: progress_def intro!: exI [of _ "[]"] strat_inv_lock)
        (auto simp: strat_inv_def current_round_def prepared_round(1) lock_le_def lock_round_def)
    moreover have "progress (?st1, q, w) (snd (commit ctx vw))"
      using send_vote [of ?st1 "Commit (current_round ?st1) (uj_digest (uncheck j))" LS_Committed q w]
        assms j ls rk
      by (simp add: vw commit_def Let_def case_prod_beta)
    ultimately show ?thesis unfolding vw by (rule progress_trans)
  qed
qed

lemma progress_vote_advance:
  assumes "str_local_id (fst vw) = local_id ctx"
  shows "progress vw (snd (vote_advance ctx vw))"
proof -
  obtain st q w where vw: "vw = (st, q, w)" by (cases vw)
  have env: "progress (st, q, w) (st, q, w')" for w'
    by (auto simp: progress_def intro!: exI [of _ "[]"])
  have rk: "local_state st \<noteq> LS_VoteAdvance \<Longrightarrow> rank (local_state st) < 4"
    by (cases "local_state st") auto
  have send: "local_state st \<noteq> LS_VoteAdvance \<Longrightarrow> progress (st, q, w)
     ((fst (import_and_send_message (Message_Vote (AdvanceRound (current_round st))) ctx st q))\<lparr>local_state := LS_VoteAdvance\<rparr>,
      snd (import_and_send_message (Message_Vote (AdvanceRound (current_round st))) ctx st q), w')" for w'
    using send_vote [of st "AdvanceRound (current_round st)" LS_VoteAdvance q w'] assms rk env [of w']
    by (auto simp: vw intro: progress_trans)
  show ?thesis
    using env send unfolding vw
    by (auto simp: vote_advance_def Let_def case_prod_beta split: sum.split prod.split)
qed


lemma progress_local_id: "progress vw vw' \<Longrightarrow> str_local_id (fst vw') = str_local_id (fst vw)"
  by (auto simp: progress_def split: prod.splits)

lemma step_errors:
  "propose ctx v = (Inl e, v') \<Longrightarrow> \<exists>x. e = Err x"
  "prepare ctx v = (Inl e, v') \<Longrightarrow> \<exists>x. e = Err x"
  "commit ctx v \<noteq> (Inl e, v')"
  "vote_advance ctx v = (Inl e, v') \<Longrightarrow> \<exists>x. e = Err x"
  by (auto simp: propose_def prepare_def commit_def vote_advance_def send_proposal_def
      send_prepare_def Let_def case_prod_beta
      split: option.splits sum.splits State.splits if_splits prod.splits)

text \<open>A poll works within the round up to its last step, which may conclude the round.\<close>

lemma poll_once_split:
  assumes "str_local_id (fst vw) = local_id ctx"
  obtains vw1 e where "progress vw vw1" "poll_once ctx vw = (Inl (Err e), vw1)"
  | vw1 where "progress vw vw1" "poll_once ctx vw = conclude ctx vw1"
proof -
  note id = progress_local_id
  obtain rp vp where p: "propose ctx vw = (rp, vp)" by (rule prod.exhaust)
  obtain rb vb where pb: "prepare ctx vp = (rb, vb)" by (rule prod.exhaust)
  obtain rc vc where pc: "commit ctx vb = (rc, vc)" by (rule prod.exhaust)
  obtain rd vd where pd: "vote_advance ctx vc = (rd, vd)" by (rule prod.exhaust)
  have a: "progress vw vp" using progress_propose [OF assms] p by simp
  have "progress vp vb" using progress_prepare [of vp] id [OF a] assms pb by simp
  with a have b: "progress vw vb" by (rule progress_trans)
  have "progress vb vc" using progress_commit [of vb] id [OF b] assms pc by simp
  with b have c: "progress vw vc" by (rule progress_trans)
  have "progress vc vd" using progress_vote_advance [of vc] id [OF c] assms pd by simp
  with c have d: "progress vw vd" by (rule progress_trans)
  show ?thesis
  proof (cases rp)
    case (Inl e)
    with step_errors(1) p obtain x where "e = Err x" by blast
    with Inl p a show ?thesis by (intro that(1) [of vp x]) (simp_all add: poll_once_def and_then_def)
  next
    case rp: (Inr _)
    show ?thesis
    proof (cases rb)
      case (Inl e)
      with step_errors(2) pb obtain x where "e = Err x" by blast
      with Inl p rp pb b show ?thesis
        by (intro that(1) [of vb x]) (simp_all add: poll_once_def and_then_def)
    next
      case rb: (Inr _)
      from step_errors(3) pc obtain u where rc: "rc = Inr u" by (cases rc) auto
      show ?thesis
      proof (cases rd)
        case (Inl e)
        with step_errors(4) pd obtain x where "e = Err x" by blast
        with Inl p rp pb rb pc rc pd c d show ?thesis
          by (intro that(1) [of vd x]) (simp_all add: poll_once_def and_then_def)
      next
        case (Inr _)
        with p rp pb rb pc rc pd d show ?thesis
          by (intro that(2) [of vd]) (simp_all add: poll_once_def and_then_def)
      qed
    qed
  qed
qed

end


section \<open>Advancing\<close>

lemma fold_delete_subset: "set (fold AList.delete ks m) \<subseteq> set m"
proof (induction ks arbitrary: m)
  case (Cons k ks)
  have "set (AList.delete k m) \<subseteq> set m" by (auto simp: AList.delete_eq)
  with Cons [of "AList.delete k m"] show ?case by simp
qed simp

lemma fold_delete_keys: "x \<in> set (fold AList.delete ks m) \<Longrightarrow> fst x \<notin> set ks"
proof (induction ks arbitrary: m)
  case (Cons k ks)
  then have "x \<in> set (AList.delete k m)" using fold_delete_subset by fastforce
  with Cons show ?case by (auto simp: AList.delete_eq)
qed simp

lemma fold_delete_distinct: "keys_distinct m \<Longrightarrow> keys_distinct (fold AList.delete ks m)"
  by (induction ks arbitrary: m) auto

lemma fold_delete_length: "length (fold AList.delete ks m) \<le> length m"
  by (induction ks arbitrary: m) (auto intro: order_trans length_delete_le)

lemma advance_to_round_inv:
  assumes "strat_inv st" "current_round st < round"
  obtains st' where "advance_to_round ctx round st w = (Inr st', begin_round_timeout ctx round w)"
    "strat_inv st'" "current_round st' = round" "local_state st' = LS_Start" "locked st' = locked st"
    "nodes st' = nodes st" "max_faulty st' = max_faulty st" "str_local_id st' = str_local_id st"
    "length (future_accumulators st') + (if own_only me (current_accumulator st') then 0 else 1)
       \<le> length (future_accumulators st)"
proof -
  define kept where "kept = fold AList.delete [current_round st + 1..<round] (future_accumulators st)"
  define acc where "acc = (case map_of kept round of Some x \<Rightarrow> x
      | None \<Rightarrow> acc_new round (bft_threshold (nodes st) (max_faulty st)) (round_proposer ctx round))"
  obtain st' where st': "advance_to_round ctx round st w = (Inr st', begin_round_timeout ctx round w)"
    and f: "current_accumulator st' = acc" "future_accumulators st' = AList.delete round kept"
      "local_state st' = LS_Start" "locked st' = locked st"
      "nodes st' = nodes st" "max_faulty st' = max_faulty st" "str_local_id st' = str_local_id st"
    using assms(2) by (auto simp: advance_to_round_def Let_def kept_def acc_def)
  have dist: "keys_distinct kept"
    using assms(1) by (simp add: kept_def fold_delete_distinct strat_inv_def future_ok_def)
  have kept: "k > current_round st \<and> k \<notin> {current_round st + 1..<round} \<and> acc_round_number a = k \<and>
      acc_inv a \<and> acc_threshold a = bft_threshold (nodes st) (max_faulty st)" if "(k, a) \<in> set kept" for k a
    using that assms(1) fold_delete_subset fold_delete_keys
    unfolding kept_def strat_inv_def future_ok_def by fastforce
  have acc: "acc_inv acc" "acc_round_number acc = round"
    "acc_threshold acc = bft_threshold (nodes st) (max_faulty st)"
    using kept by (auto simp: acc_def acc_inv_new split: option.splits dest!: map_of_SomeD)
  then have round: "current_round st' = round" by (simp add: current_round_def f)
  have "future_ok st'"
    using dist kept round by (fastforce simp: future_ok_def f AList.delete_eq)
  then have inv: "strat_inv st'"
    using acc assms by (auto simp: strat_inv_def f round lock_round_def)
  have "length kept \<le> length (future_accumulators st)"
    unfolding kept_def by (rule fold_delete_length)
  moreover have "length (AList.delete round kept) + (if own_only me acc then 0 else 1) \<le> length kept"
  proof (cases "map_of kept round")
    case None
    then show ?thesis by (simp add: acc_def length_delete_le)
  next
    case (Some x)
    then have "(round, x) \<in> set kept" by (rule map_of_SomeD)
    then have "length (AList.delete round kept) < length kept"
      by (auto simp: AList.delete_eq intro: length_filter_less)
    then show ?thesis by simp
  qed
  ultimately have len: "length (future_accumulators st') + (if own_only me (current_accumulator st') then 0 else 1)
       \<le> length (future_accumulators st)"
    by (simp add: f)
  show ?thesis by (rule that [OF st' inv round f(3-7) len])
qed


lemma conclude_cases:
  assumes "strat_inv st"
  obtains (same) r where "conclude ctx (st, q, w) = (Inr r, st, q, w)"
      "phase (acc_state (current_accumulator st)) \<noteq> 3"
  | (advanced) st' w' where "conclude ctx (st, q, w) = (Inr None, st', q, w')"
      "phase (acc_state (current_accumulator st)) = 3"
      "strat_inv st'" "current_round st' = current_round st + 1" "local_state st' = LS_Start"
      "nodes st' = nodes st" "max_faulty st' = max_faulty st" "str_local_id st' = str_local_id st"
      "lock_le st st'"
      "length (future_accumulators st') + (if own_only me (current_accumulator st') then 0 else 1)
         \<le> length (future_accumulators st)"
proof (cases "\<exists>j. acc_state (current_accumulator st) = State_Advanced j")
  case False
  then have "phase (acc_state (current_accumulator st)) \<noteq> 3"
    by (cases "acc_state (current_accumulator st)") auto
  moreover from False obtain r where "conclude ctx (st, q, w) = (Inr r, st, q, w)"
    by (cases "acc_state (current_accumulator st)") (auto simp: conclude_def Let_def)
  ultimately show ?thesis by (intro same)
next
  case True
  then obtain j where j: "acc_state (current_accumulator st) = State_Advanced j" by blast
  define st1 where "st1 = (case j of Some j \<Rightarrow> st\<lparr>locked := Some \<lparr>justification = j\<rparr>\<rparr> | None \<Rightarrow> st)"
  have rj: "uj_round_number (uncheck j') = current_round st" if "j = Some j'" for j'
    using that j assms by (simp add: prepared_round(2) strat_inv_def current_round_def)
  then have inv1: "strat_inv st1"
    using assms by (auto simp: st1_def strat_inv_lock split: option.splits)
  have st1: "current_round st1 = current_round st" "nodes st1 = nodes st" "max_faulty st1 = max_faulty st"
    "str_local_id st1 = str_local_id st" "future_accumulators st1 = future_accumulators st"
    by (simp_all add: st1_def split: option.splits)
  have lock: "lock_le st st1"
    using assms rj by (auto simp: lock_le_def st1_def strat_inv_def lock_round_def split: option.splits)
  from inv1 have "current_round st1 < current_round st + 1" by (simp add: st1)
  from advance_to_round_inv [OF inv1 this, of ctx w me] obtain st' where st':
    "advance_to_round ctx (current_round st + 1) st1 w = (Inr st', begin_round_timeout ctx (current_round st + 1) w)"
    "strat_inv st'" "current_round st' = current_round st + 1" "local_state st' = LS_Start" "locked st' = locked st1"
    "nodes st' = nodes st1" "max_faulty st' = max_faulty st1" "str_local_id st' = str_local_id st1"
    "length (future_accumulators st') + (if own_only me (current_accumulator st') then 0 else 1)
       \<le> length (future_accumulators st1)" by blast
  have "conclude ctx (st, q, w) = (Inr None, st', q, begin_round_timeout ctx (current_round st + 1) w)"
    using j st'(1) by (simp add: conclude_def st1_def [symmetric] st1 Let_def)
  moreover have "lock_le st st'"
    using lock st'(5) by (auto intro: lock_le_trans)
  ultimately show ?thesis
    using st' j by (intro advanced) (simp_all add: st1)
qed


section \<open>Reachable views\<close>

text \<open>
  Everything that can happen to the local view: messages and lock proofs arrive, the
  strategy is polled, the environment changes.  The queue keeps every message pushed, so
  that the votes of the whole run can be read from it.
\<close>

inductive reachable_view ::
  "('c, 'd, 'v, 's, 'e, 'w) Context \<Rightarrow> usize \<Rightarrow> usize \<Rightarrow> ('c, 'd, 'v, 's, 'w) view \<Rightarrow> bool"
  for ctx n f
where
  created: "strategy_create ctx n f w = (st, w') \<Longrightarrow> reachable_view ctx n f (st, with_capacity, w')"
| message: "reachable_view ctx n f (st, q, w) \<Longrightarrow> reachable_view ctx n f (import_message ctx m st, q, w)"
| lock_proof: "reachable_view ctx n f (st, q, w) \<Longrightarrow> import_lock_proof ctx j st w = (Inr st', w') \<Longrightarrow>
     reachable_view ctx n f (st', q, w')"
| polled: "reachable_view ctx n f vw \<Longrightarrow> reachable_view ctx n f (snd (poll_once ctx vw))"
| environment: "reachable_view ctx n f (st, q, w) \<Longrightarrow> reachable_view ctx n f (st, q, w')"

definition votes_ok :: "usize \<Rightarrow> nat \<Rightarrow> 'd Vote list \<Rightarrow> bool" where
  "votes_ok r k vs \<longleftrightarrow> distinct (map (\<lambda>v. (vote_round_number v, vote_kind v)) vs) \<and>
     (\<forall>v\<in>set vs. vote_round_number v < r \<or> vote_round_number v = r \<and> vote_kind v \<le> k)"

lemma votes_ok_extend:
  assumes "votes_ok r lo vs" "new_votes_ok r lo hi ws" "lo \<le> hi"
  shows "votes_ok r hi (vs @ ws)"
proof -
  have "distinct (map vote_kind ws)"
    using assms(2) by (auto simp: new_votes_ok_def strict_sorted_iff)
  then have "distinct (map (\<lambda>v. (vote_round_number v, vote_kind v)) ws)"
    by (auto simp: distinct_map inj_on_def)
  with assms show ?thesis
    by (fastforce simp: votes_ok_def new_votes_ok_def)
qed

lemma votes_ok_mono: "votes_ok r k vs \<Longrightarrow> r < r' \<Longrightarrow> votes_ok r' k' vs"
  by (fastforce simp: votes_ok_def)

definition view_inv :: "'v \<Rightarrow> usize \<Rightarrow> usize \<Rightarrow> ('c, 'd, 'v, 's, 'w) view \<Rightarrow> bool" where
  "view_inv me n f vw \<longleftrightarrow> (case vw of (st, q, w) \<Rightarrow>
     strat_inv st \<and> nodes st = n \<and> max_faulty st = f \<and> str_local_id st = me \<and>
     votes_ok (current_round st) (rank (local_state st)) (own_votes q))"

lemma view_inv_progress:
  assumes "view_inv me n f vw" "progress vw vw'"
  shows "view_inv me n f vw'"
proof -
  obtain st q w where vw: "vw = (st, q, w)" by (cases vw)
  obtain st' q' w' where vw': "vw' = (st', q', w')" by (cases vw')
  from assms(2) obtain vs where "own_votes q' = own_votes q @ vs"
    "new_votes_ok (current_round st) (rank (local_state st)) (rank (local_state st')) vs"
    "rank (local_state st) \<le> rank (local_state st')"
    unfolding vw vw' by (auto simp: progress_def)
  with assms show ?thesis
    unfolding vw vw' by (auto simp: view_inv_def progress_def intro: votes_ok_extend)
qed

lemma import_lock_proof_cases:
  assumes "strat_inv st"
  obtains st' w' where "import_lock_proof ctx j st w = (Inr st', w')" "strat_inv st'"
    "nodes st' = nodes st" "max_faulty st' = max_faulty st" "str_local_id st' = str_local_id st"
    "current_round st' = current_round st \<and> local_state st' = local_state st \<or>
     current_round st < current_round st'"
    "lock_le st st'"
proof -
  let ?r = "uj_round_number (uncheck j)"
  obtain st1 w1 where st1: "(if ?r > current_round st then advance_to_round ctx ?r st w else (Inr st, w)) = (Inr st1, w1)"
    "strat_inv st1" "nodes st1 = nodes st" "max_faulty st1 = max_faulty st" "str_local_id st1 = str_local_id st"
    "locked st1 = locked st" "?r \<le> current_round st1"
    "current_round st1 = current_round st \<and> local_state st1 = local_state st \<or> current_round st < current_round st1"
  proof (cases "?r > current_round st")
    case True
    from advance_to_round_inv [OF assms True, of ctx w undefined] that True show ?thesis by fastforce
  next
    case False
    with assms that show ?thesis by fastforce
  qed
  define new where "new = (case locked st1 of None \<Rightarrow> True
     | Some l \<Rightarrow> uj_round_number (uncheck (justification l)) < ?r)"
  define st' where "st' = (if new then st1\<lparr>locked := Some \<lparr>justification = j\<rparr>\<rparr> else st1)"
  have "import_lock_proof ctx j st w = (Inr st', w1)"
    using st1(1) by (simp add: import_lock_proof_def st'_def new_def Let_def split: if_splits)
  moreover have "strat_inv st'"
    using st1(2,7) by (simp add: st'_def strat_inv_lock)
  moreover have "lock_le st st'"
    using st1(6) by (auto simp: lock_le_def st'_def new_def lock_round_def)
  ultimately show ?thesis
    using st1 by (intro that) (auto simp: st'_def)
qed

text \<open>
  Each further iteration of the polling loop either moves the local state forward or uses up
  an accumulator of a later round.
\<close>

definition poll_measure :: "'v \<Rightarrow> ('c, 'd, 'v, 's, 'w) view \<Rightarrow> nat" where
  "poll_measure me vw = (case vw of (st, q, w) \<Rightarrow>
     5 * (length (future_accumulators st) +
          (if own_only me (current_accumulator st) then 0 else 1)) +
     (4 - rank (local_state st)))"

context signing_context
begin

lemma view_inv_poll_once:
  assumes "view_inv (local_id ctx) n f vw"
  shows "view_inv (local_id ctx) n f (snd (poll_once ctx vw))"
proof -
  have "str_local_id (fst vw) = local_id ctx" using assms by (auto simp: view_inv_def split: prod.splits)
  then show ?thesis
  proof (cases rule: poll_once_split)
    case (1 vw1 e)
    with assms view_inv_progress show ?thesis by fastforce
  next
    case (2 vw1)
    then have v1: "view_inv (local_id ctx) n f vw1" using view_inv_progress [OF assms] by simp
    obtain st q w where vw1: "vw1 = (st, q, w)" by (cases vw1)
    with v1 have "strat_inv st" by (simp add: view_inv_def)
    then show ?thesis
    proof (cases rule: conclude_cases [where ctx = ctx and q = q and w = w and me = "local_id ctx"])
      case (same r)
      with 2 v1 vw1 show ?thesis by simp
    next
      case (advanced st' w')
      with 2 v1 vw1 show ?thesis by (auto simp: view_inv_def intro: votes_ok_mono)
    qed
  qed
qed

lemma reachable_view_inv:
  "reachable_view ctx n f vw \<Longrightarrow> view_inv (local_id ctx) n f vw"
proof (induction rule: reachable_view.induct)
  case (created w st w')
  then show ?case
    using strat_inv_create [of ctx n f w]
    by (auto simp: view_inv_def strategy_create_def Let_def votes_ok_def own_votes_def with_capacity_def
        List.map_filter_def)
next
  case (message st q w m)
  then show ?case by (auto simp: view_inv_def strat_inv_import_message)
next
  case (lock_proof st q w j st' w')
  then have "strat_inv st" by (simp add: view_inv_def)
  then show ?case
    using lock_proof by (cases rule: import_lock_proof_cases [where ctx = ctx and j = j and w = w])
       (auto simp: view_inv_def intro: votes_ok_mono)
next
  case (polled vw)
  then show ?case by (simp add: view_inv_poll_once)
next
  case (environment st q w w')
  then show ?case by (simp add: view_inv_def)
qed


text \<open>The assertion in \<^verbatim>\<open>advance_to_round\<close> never fails.\<close>

lemma poll_once_no_panic:
  assumes "view_inv (local_id ctx) n f vw"
  shows "fst (poll_once ctx vw) \<noteq> Inl Panic"
proof -
  have "str_local_id (fst vw) = local_id ctx" using assms by (auto simp: view_inv_def split: prod.splits)
  then show ?thesis
  proof (cases rule: poll_once_split)
    case (2 vw1)
    then have v1: "view_inv (local_id ctx) n f vw1" using view_inv_progress [OF assms] by simp
    obtain st q w where vw1: "vw1 = (st, q, w)" by (cases vw1)
    with v1 have "strat_inv st" by (simp add: view_inv_def)
    then show ?thesis
      by (cases rule: conclude_cases [where ctx = ctx and q = q and w = w and me = "local_id ctx"])
         (use 2 vw1 in auto)
  qed simp
qed

text \<open>Rounds and locks never go back.\<close>

lemma poll_once_monotone:
  assumes "view_inv (local_id ctx) n f vw"
  shows "current_round (fst vw) \<le> current_round (fst (snd (poll_once ctx vw)))"
    and "lock_le (fst vw) (fst (snd (poll_once ctx vw)))"
proof -
  obtain st0 q0 w0 where vw: "vw = (st0, q0, w0)" by (cases vw)
  with assms have "str_local_id (fst vw) = local_id ctx" "strat_inv st0" by (auto simp: view_inv_def)
  have "current_round (fst vw) \<le> current_round (fst (snd (poll_once ctx vw))) \<and>
    lock_le (fst vw) (fst (snd (poll_once ctx vw)))"
    using \<open>str_local_id (fst vw) = local_id ctx\<close>
  proof (cases rule: poll_once_split)
    case (1 vw1 e)
    with \<open>strat_inv st0\<close> show ?thesis by (auto simp: vw progress_def split: prod.splits)
  next
    case (2 vw1)
    obtain st q w where vw1: "vw1 = (st, q, w)" by (cases vw1)
    with 2(1) \<open>strat_inv st0\<close> have st: "strat_inv st" "current_round st0 = current_round st" "lock_le st0 st"
      by (auto simp: vw progress_def)
    from st(1) show ?thesis
      by (cases rule: conclude_cases [where ctx = ctx and q = q and w = w and me = "local_id ctx"])
         (use 2 vw1 vw st in \<open>auto intro: lock_le_trans\<close>)
  qed
  then show "current_round (fst vw) \<le> current_round (fst (snd (poll_once ctx vw)))"
    and "lock_le (fst vw) (fst (snd (poll_once ctx vw)))" by auto
qed

lemma poll_measure_progress:
  assumes "progress vw vw'" "str_local_id (fst vw) = local_id ctx"
  shows "poll_measure (local_id ctx) vw' \<le> poll_measure (local_id ctx) vw"
    and "watermark vw' \<noteq> watermark vw \<Longrightarrow> poll_measure (local_id ctx) vw' < poll_measure (local_id ctx) vw"
proof -
  obtain st q w where vw: "vw = (st, q, w)" by (cases vw)
  obtain st' q' w' where vw': "vw' = (st', q', w')" by (cases vw')
  have r4: "rank (local_state st') \<le> 4" by simp
  have own: "own_only (local_id ctx) (current_accumulator st) \<longrightarrow> own_only (local_id ctx) (current_accumulator st')"
    and fut: "future_accumulators st' = future_accumulators st"
    and ls: "local_state st' = local_state st \<or> rank (local_state st) < rank (local_state st')"
    using assms unfolding vw vw' by (auto simp: progress_def)
  have rank_le: "rank (local_state st) \<le> rank (local_state st')" using ls by auto
  define a where "a = (if own_only (local_id ctx) (current_accumulator st) then 0 else 1 :: nat)"
  define a' where "a' = (if own_only (local_id ctx) (current_accumulator st') then 0 else 1 :: nat)"
  have a: "a' \<le> a" using own by (simp add: a_def a'_def)
  show "poll_measure (local_id ctx) vw' \<le> poll_measure (local_id ctx) vw"
    unfolding vw vw' poll_measure_def prod.case fut a_def [symmetric] a'_def [symmetric]
    using a rank_le r4 by arith
  assume "watermark vw' \<noteq> watermark vw"
  then have "rank (local_state st) < rank (local_state st')"
    using assms unfolding vw vw' by (auto simp: progress_def watermark_def)
  then show "poll_measure (local_id ctx) vw' < poll_measure (local_id ctx) vw"
    unfolding vw vw' poll_measure_def prod.case fut a_def [symmetric] a'_def [symmetric]
    using a r4 by arith
qed

lemma poll_once_decreases:
  assumes inv: "view_inv (local_id ctx) n f vw" and t: "2 \<le> bft_threshold n f"
    and r: "fst (poll_once ctx vw) = Inr None" "watermark (snd (poll_once ctx vw)) \<noteq> watermark vw"
  shows "poll_measure (local_id ctx) (snd (poll_once ctx vw)) < poll_measure (local_id ctx) vw"
proof -
  have id: "str_local_id (fst vw) = local_id ctx" using inv by (auto simp: view_inv_def split: prod.splits)
  then show ?thesis
  proof (cases rule: poll_once_split)
    case (1 vw1 e)
    with r show ?thesis by simp
  next
    case (2 vw1)
    then have v1: "view_inv (local_id ctx) n f vw1" using view_inv_progress [OF inv] by simp
    obtain st q w where vw1: "vw1 = (st, q, w)" by (cases vw1)
    with v1 have st: "strat_inv st" "nodes st = n" "max_faulty st = f" by (auto simp: view_inv_def)
    have le: "poll_measure (local_id ctx) vw1 \<le> poll_measure (local_id ctx) vw" using 2(1) id by (rule poll_measure_progress)
    from st(1) show ?thesis
    proof (cases rule: conclude_cases [where ctx = ctx and q = q and w = w and me = "local_id ctx"])
      case (same r)
      with 2 vw1 r poll_measure_progress(2) [OF 2(1) id] show ?thesis by simp
    next
      case (advanced st' w')
      have "\<not> own_only (local_id ctx) (current_accumulator st)"
        using own_only_phase [of "local_id ctx" "current_accumulator st"] st t advanced(2)
        by (auto simp: strat_inv_def)
      then have a: "(if own_only (local_id ctx) (current_accumulator st) then 0 else 1) = (1 :: nat)" by simp
      define b where "b = (if own_only (local_id ctx) (current_accumulator st') then 0 else 1 :: nat)"
      have "length (future_accumulators st') + b \<le> length (future_accumulators st)"
        using advanced(10) by (simp add: b_def)
      then have "poll_measure (local_id ctx) (st', q, w') < poll_measure (local_id ctx) vw1"
        unfolding vw1 poll_measure_def prod.case a advanced(5) rank.simps b_def [symmetric]
        using rank_le_4 [of "local_state st"] by arith
      with le 2 vw1 advanced(1) show ?thesis by simp
    qed
  qed
qed

lemma poll_returns:
  assumes "view_inv (local_id ctx) n f vw" "2 \<le> bft_threshold n f"
  shows "\<exists>r. poll ctx vw = Some r"
  using assms(1)
proof (induction "poll_measure (local_id ctx) vw" arbitrary: vw rule: less_induct)
  case less
  show ?case
  proof (cases "fst (poll_once ctx vw) = Inr None \<and> watermark (snd (poll_once ctx vw)) \<noteq> watermark vw")
    case True
    then have "poll_measure (local_id ctx) (snd (poll_once ctx vw)) < poll_measure (local_id ctx) vw"
      using poll_once_decreases [OF less.prems assms(2)] by blast
    then have "\<exists>r. poll ctx (snd (poll_once ctx vw)) = Some r"
      by (rule less.hyps) (rule view_inv_poll_once [OF less.prems])
    with True show ?thesis by (subst poll.simps) (simp add: Let_def)
  next
    case False
    then have "poll ctx vw = Some (poll_once ctx vw)"
      by (subst poll.simps) (simp only: Let_def if_False)
    then show ?thesis by (rule exI)
  qed
qed


text \<open>A node locked on a digest prepares nothing else.\<close>

lemma prepare_lock:
  assumes "locked st = Some l"
  shows "own_votes (fst (snd (snd (prepare ctx (st, q, w))))) = own_votes q \<or>
    own_votes (fst (snd (snd (prepare ctx (st, q, w))))) = own_votes q @ [Prepare (current_round st) (locked_digest l)]"
  using assms
  by (auto simp: prepare_def send_prepare_def import_and_send_message_def Let_def case_prod_beta
      split: State.split option.split)

text \<open>A commit vote is for the digest of a prepare justification of the round, which becomes the lock.\<close>

lemma commit_locks:
  assumes "strat_inv st" "own_votes (fst (snd (snd (commit ctx (st, q, w))))) = own_votes q @ [v]"
  shows "\<exists>j. locked (fst (snd (commit ctx (st, q, w)))) = Some \<lparr>justification = j\<rparr> \<and>
    v = Commit (current_round st) (uj_digest (uncheck j)) \<and>
    justified_by (bft_threshold (nodes st) (max_faulty st)) (current_round st)
      (acc_prepares (current_accumulator st)) j"
  using assms
  by (auto simp: commit_def import_and_send_message_def Let_def case_prod_beta strat_inv_def acc_inv_def
      state_justified_def current_round_def split: State.splits if_splits)

end


section \<open>The candidate of a conclusion\<close>

definition notable_ok :: "('c, 'd, 'v, 's, 'e, 'w) Context \<Rightarrow> ('c, 'd, 'v, 's) Strategy \<Rightarrow> bool" where
  "notable_ok ctx st \<longleftrightarrow>
     (\<forall>d c. map_of (notable_candidates st) d = Some c \<longrightarrow> candidate_digest ctx c = d)"

lemma notable_ok_cong:
  "notable_candidates st' = notable_candidates st \<Longrightarrow> notable_ok ctx st' = notable_ok ctx st"
  by (simp add: notable_ok_def)

lemma notable_ok_locked [simp]: "notable_ok ctx (st\<lparr>locked := l\<rparr>) = notable_ok ctx st"
  by (rule notable_ok_cong) simp

lemma notable_ok_advance:
  assumes "notable_ok ctx st" "advance_to_round ctx round st w = (Inr st', w')"
  shows "notable_ok ctx st'"
proof -
  have "notable_candidates st' =
      (case acc_proposal_candidate (current_accumulator st) of
         Some c \<Rightarrow> (case map_of (notable_candidates st) (candidate_digest ctx c) of
                      Some _ \<Rightarrow> notable_candidates st
                    | None \<Rightarrow> AList.update (candidate_digest ctx c) c (notable_candidates st))
       | None \<Rightarrow> notable_candidates st)"
    using assms(2) by (auto simp: advance_to_round_def Let_def split: if_splits option.split)
  with assms(1) show ?thesis
    by (auto simp: notable_ok_def map_simps split: option.splits if_splits)
qed

lemma notable_ok_step:
  "notable_candidates (fst (snd (propose ctx vw))) = notable_candidates (fst vw)"
  "notable_candidates (fst (snd (prepare ctx vw))) = notable_candidates (fst vw)"
  "notable_candidates (fst (snd (commit ctx vw))) = notable_candidates (fst vw)"
  "notable_candidates (fst (snd (vote_advance ctx vw))) = notable_candidates (fst vw)"
  by (auto simp: propose_def prepare_def commit_def vote_advance_def send_proposal_def send_prepare_def
      import_and_send_message_def Let_def case_prod_beta
      split: option.splits sum.splits State.splits if_splits prod.splits)

lemma notable_ok_conclude:
  "notable_ok ctx (fst vw) \<Longrightarrow> notable_ok ctx (fst (snd (conclude ctx vw)))"
  by (auto simp: conclude_def Let_def split: prod.splits State.splits option.splits sum.splits
      elim!: notable_ok_advance [rotated])

lemma and_then_invariant:
  assumes "P (snd r)" "\<And>a s. P s \<Longrightarrow> P (snd (k a s))"
  shows "P (snd (and_then r k))"
  using assms by (auto simp: and_then_def split: prod.splits sum.splits)

lemma notable_ok_poll_once:
  assumes "notable_ok ctx (fst vw)"
  shows "notable_ok ctx (fst (snd (poll_once ctx vw)))"
  unfolding poll_once_def
  by (intro and_then_invariant [where P = "\<lambda>v. notable_ok ctx (fst v)"])
     (use assms in \<open>simp_all add: notable_ok_cong [OF notable_ok_step(1)] notable_ok_cong [OF notable_ok_step(2)]
        notable_ok_cong [OF notable_ok_step(3)] notable_ok_cong [OF notable_ok_step(4)] notable_ok_conclude\<close>)

lemma reachable_notable_ok: "reachable_view ctx n f vw \<Longrightarrow> notable_ok ctx (fst vw)"
proof (induction rule: reachable_view.induct)
  case (created w st w')
  then show ?case by (auto simp: notable_ok_def strategy_create_def Let_def)
next
  case (message st q w m)
  then show ?case by (simp add: notable_ok_def)
next
  case (lock_proof st q w j st' w')
  then show ?case
    by (auto simp: import_lock_proof_def Let_def split: prod.splits sum.splits if_splits
        elim!: notable_ok_advance [rotated])
next
  case (polled vw)
  then show ?case by (simp add: notable_ok_poll_once)
next
  case (environment st q w w')
  then show ?case by simp
qed

lemma conclude_result:
  assumes "notable_ok ctx st" "conclude ctx (st, q, w) = (Inr (Some c), vw')"
  shows "acc_state (current_accumulator st) = State_Committed (com_justification c)"
    and "com_candidate c = Some cand \<Longrightarrow> candidate_digest ctx cand = uj_digest (uncheck (com_justification c))"
  using assms
  by (auto simp: conclude_def Let_def notable_ok_def split: State.splits option.splits if_splits prod.splits sum.splits)

end
