(* ===== verification/Codec.thy ===== *)
theory Codec
  imports Prelude "HOL-Library.Word"
begin

text \<open>
  The binary codec (\<^verbatim>\<open>substrate/codec/src/slicable.rs\<close>, \<^verbatim>\<open>joiner.rs\<close>, \<^verbatim>\<open>keyedvec.rs\<close>) and its use
  for the BFT messages (\<^verbatim>\<open>substrate/runtime/primitives/src/bft.rs\<close>).

  An encoder gives the bytes of a value, or \<^const>\<open>None\<close> where the source's assertion on the
  number of elements panics; a decoder takes the input and gives the value with the input
  that is left, or \<^const>\<open>None\<close>.  The trait \<^verbatim>\<open>Slicable\<close> is the locale \<open>slicable\<close>: decoding an encoding
  gives the value back and leaves the rest, and whatever decodes is the encoding of its
  value (encodings are canonical).
\<close>

type_synonym byte = "8 word"
type_synonym 'a encoder = "'a \<Rightarrow> byte list option"
type_synonym 'a decoder = "byte list \<Rightarrow> ('a \<times> byte list) option"


section \<open>Input\<close>

definition read_exact :: "nat \<Rightarrow> byte list decoder" where
  "read_exact n = (\<lambda>input. if length input < n then None else Some (take n input, drop n input))"

definition read_byte :: "byte decoder" where
  "read_byte input = (case input of [] \<Rightarrow> None | b # rest \<Rightarrow> Some (b, rest))"



section \<open>Integers, little endian\<close>

fun le_encode :: "nat \<Rightarrow> nat \<Rightarrow> byte list" where
  "le_encode 0 x = []"
| "le_encode (Suc k) x = word_of_nat (x mod 256) # le_encode k (x div 256)"

fun le_decode :: "byte list \<Rightarrow> nat" where
  "le_decode [] = 0"
| "le_decode (b # bs) = unat b + 256 * le_decode bs"

definition int_encode :: "nat \<Rightarrow> 'a::len word encoder" where
  "int_encode k x = Some (le_encode k (unat x))"

definition int_decode :: "nat \<Rightarrow> 'a::len word decoder" where
  "int_decode k input = map_option (\<lambda>(raw, rest). (word_of_nat (le_decode raw), rest)) (read_exact k input)"

definition u16_encode :: "16 word encoder" where "u16_encode = int_encode 2"
definition u16_decode :: "16 word decoder" where "u16_decode = int_decode 2"
definition u32_encode :: "32 word encoder" where "u32_encode = int_encode 4"
definition u32_decode :: "32 word decoder" where "u32_decode = int_decode 4"
definition u64_encode :: "64 word encoder" where "u64_encode = int_encode 8"
definition u64_decode :: "64 word decoder" where "u64_decode = int_decode 8"
definition u128_encode :: "128 word encoder" where "u128_encode = int_encode 16"
definition u128_decode :: "128 word decoder" where "u128_decode = int_decode 16"
definition i8_encode :: "8 word encoder" where "i8_encode = int_encode 1"
definition i8_decode :: "8 word decoder" where "i8_decode = int_decode 1"

text \<open>Fixed-size byte arrays \<^verbatim>\<open>[u8; n]\<close>: a list of that length.\<close>

definition bytes_n_encode :: "nat \<Rightarrow> byte list encoder" where
  "bytes_n_encode n bs = (if length bs = n then Some bs else None)"

definition bytes_n_decode :: "nat \<Rightarrow> byte list decoder" where
  "bytes_n_decode n = read_exact n"


section \<open>Sums, options, sequences\<close>

definition result_encode :: "'t encoder \<Rightarrow> 'e encoder \<Rightarrow> ('e + 't) encoder" where
  "result_encode enc_t enc_e r =
     (case r of
        Inr t \<Rightarrow> map_option (\<lambda>s. 0 # s) (enc_t t)
      | Inl e \<Rightarrow> map_option (\<lambda>s. 1 # s) (enc_e e))"

definition result_decode :: "'t decoder \<Rightarrow> 'e decoder \<Rightarrow> ('e + 't) decoder" where
  "result_decode dec_t dec_e input =
     (case read_byte input of
        None \<Rightarrow> None
      | Some (b, rest) \<Rightarrow>
          if b = 0 then map_option (\<lambda>(t, rest). (Inr t, rest)) (dec_t rest)
          else if b = 1 then map_option (\<lambda>(e, rest). (Inl e, rest)) (dec_e rest)
          else None)"

definition option_bool_encode :: "bool option encoder" where
  "option_bool_encode ob = Some [case ob of None \<Rightarrow> 0 | Some True \<Rightarrow> 1 | Some False \<Rightarrow> 2]"

definition option_bool_decode :: "bool option decoder" where
  "option_bool_decode input =
     (case read_byte input of
        None \<Rightarrow> None
      | Some (b, rest) \<Rightarrow>
          if b = 0 then Some (None, rest)
          else if b = 1 then Some (Some True, rest)
          else if b = 2 then Some (Some False, rest)
          else None)"

definition option_encode :: "'t encoder \<Rightarrow> 't option encoder" where
  "option_encode enc_t opt =
     (case opt of
        Some t \<Rightarrow> map_option (\<lambda>s. 1 # s) (enc_t t)
      | None \<Rightarrow> Some [0])"

definition option_decode :: "'t decoder \<Rightarrow> 't option decoder" where
  "option_decode dec_t input =
     (case read_byte input of
        None \<Rightarrow> None
      | Some (b, rest) \<Rightarrow>
          if b = 0 then Some (None, rest)
          else if b = 1 then map_option (\<lambda>(t, rest). (Some t, rest)) (dec_t rest)
          else None)"

fun items_encode :: "'t encoder \<Rightarrow> 't list encoder" where
  "items_encode enc_t [] = Some []"
| "items_encode enc_t (x # xs) =
     (case enc_t x of
        None \<Rightarrow> None
      | Some s \<Rightarrow> map_option (\<lambda>r. s @ r) (items_encode enc_t xs))"

fun items_decode :: "'t decoder \<Rightarrow> nat \<Rightarrow> 't list decoder" where
  "items_decode dec_t 0 input = Some ([], input)"
| "items_decode dec_t (Suc n) input =
     (case dec_t input of
        None \<Rightarrow> None
      | Some (x, rest) \<Rightarrow> map_option (\<lambda>(xs, rest). (x # xs, rest)) (items_decode dec_t n rest))"

text \<open>Arrays \<^verbatim>\<open>[T; n]\<close> carry no length; vectors start with a 32-bit length.\<close>

definition array_encode :: "nat \<Rightarrow> 't encoder \<Rightarrow> 't list encoder" where
  "array_encode n enc_t xs = (if length xs = n then items_encode enc_t xs else None)"

definition array_decode :: "nat \<Rightarrow> 't decoder \<Rightarrow> 't list decoder" where
  "array_decode n dec_t = items_decode dec_t n"

definition encode_slice :: "byte list encoder" where
  "encode_slice bytes =
     (if \<not> length bytes \<le> 2 ^ 32 - 1 then None
      else map_option (\<lambda>r. r @ bytes) (u32_encode (word_of_nat (length bytes))))"

definition bytes_decode :: "byte list decoder" where
  "bytes_decode input =
     (case u32_decode input of
        None \<Rightarrow> None
      | Some (len, rest) \<Rightarrow> read_exact (unat len) rest)"

definition vec_encode :: "'t encoder \<Rightarrow> 't list encoder" where
  "vec_encode enc_t xs =
     (if \<not> length xs \<le> 2 ^ 32 - 1 then None
      else
        (case u32_encode (word_of_nat (length xs)) of
           None \<Rightarrow> None
         | Some r \<Rightarrow> map_option (\<lambda>es. r @ es) (items_encode enc_t xs)))"

definition vec_decode :: "'t decoder \<Rightarrow> 't list decoder" where
  "vec_decode dec_t input =
     (case u32_decode input of
        None \<Rightarrow> None
      | Some (len, rest) \<Rightarrow> items_decode dec_t (unat len) rest)"

definition unit_encode :: "unit encoder" where
  "unit_encode _ = Some []"

definition unit_decode :: "unit decoder" where
  "unit_decode input = Some ((), input)"

text \<open>A tuple is the concatenation of its components; longer tuples are nested pairs.\<close>

definition tuple_encode :: "'a encoder \<Rightarrow> 'b encoder \<Rightarrow> ('a \<times> 'b) encoder" where
  "tuple_encode enc_a enc_b p =
     (case enc_a (fst p) of
        None \<Rightarrow> None
      | Some s \<Rightarrow> map_option (\<lambda>t. s @ t) (enc_b (snd p)))"

definition tuple_decode :: "'a decoder \<Rightarrow> 'b decoder \<Rightarrow> ('a \<times> 'b) decoder" where
  "tuple_decode dec_a dec_b input =
     (case dec_a input of
        None \<Rightarrow> None
      | Some (a, rest) \<Rightarrow> map_option (\<lambda>(b, rest). ((a, b), rest)) (dec_b rest))"

text \<open>\<^verbatim>\<open>Joiner::and\<close> and \<^verbatim>\<open>KeyedVec::to_keyed_vec\<close> append an encoding to bytes.\<close>

definition joiner_and :: "byte list \<Rightarrow> 'v encoder \<Rightarrow> 'v \<Rightarrow> byte list option" where
  "joiner_and bytes enc v = map_option (\<lambda>s. bytes @ s) (enc v)"

definition to_keyed_vec :: "'t encoder \<Rightarrow> 't \<Rightarrow> byte list \<Rightarrow> byte list option" where
  "to_keyed_vec enc x prepend_key = map_option (\<lambda>s. prepend_key @ s) (enc x)"


section \<open>The contract of Slicable\<close>

locale slicable =
  fixes enc :: "'a encoder" and dec :: "'a decoder"
  assumes decode_encode: "enc x = Some bs \<Longrightarrow> dec (bs @ rest) = Some (x, rest)"
    and encode_decode: "dec input = Some (x, rest) \<Longrightarrow> \<exists>bs. enc x = Some bs \<and> input = bs @ rest"
begin

text \<open>An encoding determines its value, even when more bytes follow.\<close>

lemma encode_prefix_inj:
  assumes "enc x = Some bs" "enc y = Some bs'" "bs @ rest = bs' @ rest'"
  shows "x = y \<and> rest = rest'"
  using decode_encode [OF assms(1), of rest] decode_encode [OF assms(2), of rest'] assms(3) by simp

lemma encode_inj: "enc x = Some bs \<Longrightarrow> enc y = Some bs \<Longrightarrow> x = y"
  using encode_prefix_inj [of x bs y bs "[]" "[]"] by simp

end

named_theorems slicable_intros \<open>codecs that obey the contract\<close>

lemma read_exact_append [simp]: "length bs = n \<Longrightarrow> read_exact n (bs @ rest) = Some (bs, rest)"
  by (simp add: read_exact_def)

lemma read_exact_Some:
  "read_exact n input = Some (bs, rest) \<longleftrightarrow> length bs = n \<and> input = bs @ rest"
  by (auto simp: read_exact_def min_def)

lemma read_byte_Some [simp]: "read_byte input = Some (b, rest) \<longleftrightarrow> input = b # rest"
  by (auto simp: read_byte_def split: list.splits)

lemma length_le_encode [simp]: "length (le_encode k x) = k"
  by (induction k arbitrary: x) auto

lemma le_decode_encode: "x < 256 ^ k \<Longrightarrow> le_decode (le_encode k x) = x"
proof (induction k arbitrary: x)
  case (Suc k)
  have "x div 256 < 256 ^ k" using Suc.prems by (simp add: less_mult_imp_div_less mult.commute)
  moreover have "unat (word_of_nat (x mod 256) :: byte) = x mod 256"
    by (simp add: unat_of_nat)
  ultimately show ?case using Suc.IH by simp
qed simp

lemma le_encode_decode: "le_encode (length bs) (le_decode bs) = bs"
proof (induction bs)
  case (Cons b bs)
  have "unat b < 256" using unsigned_less [of b] by simp
  then have "(unat b + 256 * le_decode bs) mod 256 = unat b"
    "(unat b + 256 * le_decode bs) div 256 = le_decode bs" by simp_all
  with Cons show ?case by simp
qed simp

lemma le_decode_bound: "le_decode bs < 256 ^ length bs"
proof (induction bs)
  case (Cons b bs)
  have "unat b < 256" using unsigned_less [of b] by simp
  with Cons show ?case by simp
qed simp

lemma slicable_int:
  assumes "LENGTH('a::len) = 8 * k"
  shows "slicable (int_encode k :: 'a word encoder) (int_decode k)"
proof
  have pow: "(256 :: nat) ^ k = 2 ^ LENGTH('a)" by (simp add: assms power_mult)
  fix x :: "'a word" and bs rest
  assume "int_encode k x = Some bs"
  then have bs: "bs = le_encode k (unat x)" by (simp add: int_encode_def)
  have "le_decode bs = unat x"
    using bs pow unsigned_less [of x] by (simp add: le_decode_encode)
  then show "int_decode k (bs @ rest) = Some (x, rest)"
    by (simp add: int_decode_def bs)
next
  have pow: "(256 :: nat) ^ k = 2 ^ LENGTH('a)" by (simp add: assms power_mult)
  fix x :: "'a word" and input rest
  assume "int_decode k input = Some (x, rest)"
  then obtain raw where raw: "length raw = k" "input = raw @ rest" "x = word_of_nat (le_decode raw)"
    by (auto simp: int_decode_def read_exact_Some)
  have "unat x = le_decode raw"
    using le_decode_bound [of raw] raw(1,3) pow by (simp add: unat_of_nat)
  then have "le_encode k (unat x) = raw" using raw(1) le_encode_decode [of raw] by simp
  with raw show "\<exists>bs. int_encode k x = Some bs \<and> input = bs @ rest" by (simp add: int_encode_def)
qed

interpretation u16: slicable u16_encode u16_decode
  unfolding u16_encode_def u16_decode_def by (rule slicable_int) simp
interpretation u32: slicable u32_encode u32_decode
  unfolding u32_encode_def u32_decode_def by (rule slicable_int) simp
interpretation u64: slicable u64_encode u64_decode
  unfolding u64_encode_def u64_decode_def by (rule slicable_int) simp
interpretation u128: slicable u128_encode u128_decode
  unfolding u128_encode_def u128_decode_def by (rule slicable_int) simp
interpretation i8: slicable i8_encode i8_decode
  unfolding i8_encode_def i8_decode_def by (rule slicable_int) simp

lemma slicable_bytes_n [slicable_intros]: "slicable (bytes_n_encode n) (bytes_n_decode n)"
  by standard (auto simp: bytes_n_encode_def bytes_n_decode_def read_exact_Some split: if_splits)

lemma slicable_unit [slicable_intros]: "slicable unit_encode unit_decode"
  by standard (auto simp: unit_encode_def unit_decode_def)

lemma slicable_option_bool [slicable_intros]: "slicable option_bool_encode option_bool_decode"
  by standard
     (auto simp: option_bool_encode_def option_bool_decode_def read_byte_def
      split: option.splits bool.splits list.splits if_splits)

lemma slicable_result [slicable_intros]:
  assumes "slicable enc_t dec_t" "slicable enc_e dec_e"
  shows "slicable (result_encode enc_t enc_e) (result_decode dec_t dec_e)"
proof -
  note laws = slicable.decode_encode [OF assms(1)] slicable.encode_decode [OF assms(1)]
    slicable.decode_encode [OF assms(2)] slicable.encode_decode [OF assms(2)]
  show ?thesis
    by standard
       (auto simp: result_encode_def result_decode_def read_byte_def laws(1,3)
        split: sum.splits list.splits if_splits dest!: laws(2,4))
qed

lemma slicable_option [slicable_intros]:
  assumes "slicable enc_t dec_t"
  shows "slicable (option_encode enc_t) (option_decode dec_t)"
proof -
  note laws = slicable.decode_encode [OF assms] slicable.encode_decode [OF assms]
  show ?thesis
    by standard
       (auto simp: option_encode_def option_decode_def read_byte_def laws(1)
        split: option.splits list.splits if_splits dest!: laws(2))
qed

lemma slicable_tuple [slicable_intros]:
  assumes "slicable enc_a dec_a" "slicable enc_b dec_b"
  shows "slicable (tuple_encode enc_a enc_b) (tuple_decode dec_a dec_b)"
proof
  fix p bs rest
  assume "tuple_encode enc_a enc_b p = Some bs"
  then obtain s t where "enc_a (fst p) = Some s" "enc_b (snd p) = Some t" "bs = s @ t"
    by (auto simp: tuple_encode_def split: option.splits)
  then show "tuple_decode dec_a dec_b (bs @ rest) = Some (p, rest)"
    using slicable.decode_encode [OF assms(1)] slicable.decode_encode [OF assms(2)]
    by (simp add: tuple_decode_def)
next
  fix p input rest
  assume "tuple_decode dec_a dec_b input = Some (p, rest)"
  then obtain r where "dec_a input = Some (fst p, r)" "dec_b r = Some (snd p, rest)"
    by (auto simp: tuple_decode_def split: option.splits)
  then obtain s t where "enc_a (fst p) = Some s" "input = s @ r" "enc_b (snd p) = Some t" "r = t @ rest"
    using slicable.encode_decode [OF assms(1)] slicable.encode_decode [OF assms(2)] by blast
  then show "\<exists>bs. tuple_encode enc_a enc_b p = Some bs \<and> input = bs @ rest"
    by (simp add: tuple_encode_def)
qed

lemma items_decode_encode:
  assumes "slicable enc_t dec_t" "items_encode enc_t xs = Some bs"
  shows "items_decode dec_t (length xs) (bs @ rest) = Some (xs, rest)"
  using assms(2)
proof (induction xs arbitrary: bs)
  case (Cons x xs)
  then obtain s r where "enc_t x = Some s" "items_encode enc_t xs = Some r" "bs = s @ r"
    by (auto split: option.splits)
  with Cons.IH slicable.decode_encode [OF assms(1)] show ?case by simp
qed simp

lemma items_encode_decode:
  assumes "slicable enc_t dec_t" "items_decode dec_t n input = Some (xs, rest)"
  shows "length xs = n \<and> (\<exists>bs. items_encode enc_t xs = Some bs \<and> input = bs @ rest)"
  using assms(2)
proof (induction n arbitrary: input xs)
  case (Suc n)
  from Suc.prems obtain x r1 ys where "dec_t input = Some (x, r1)"
    "items_decode dec_t n r1 = Some (ys, rest)" "xs = x # ys"
    by (auto split: option.splits)
  with Suc.IH slicable.encode_decode [OF assms(1)] show ?case by fastforce
qed simp

lemma slicable_array [slicable_intros]:
  assumes "slicable enc_t dec_t"
  shows "slicable (array_encode n enc_t) (array_decode n dec_t)"
proof
  fix xs bs rest
  assume "array_encode n enc_t xs = Some bs"
  then show "array_decode n dec_t (bs @ rest) = Some (xs, rest)"
    using items_decode_encode [OF assms] by (auto simp: array_encode_def array_decode_def split: if_splits)
next
  fix xs input rest
  assume "array_decode n dec_t input = Some (xs, rest)"
  then show "\<exists>bs. array_encode n enc_t xs = Some bs \<and> input = bs @ rest"
    using items_encode_decode [OF assms] by (auto simp: array_encode_def array_decode_def)
qed

lemma u32_length [simp]: "n \<le> 2 ^ 32 - 1 \<Longrightarrow> unat (word_of_nat n :: 32 word) = n"
  by (simp add: unat_of_nat)

lemma slicable_vec [slicable_intros]:
  assumes "slicable enc_t dec_t"
  shows "slicable (vec_encode enc_t) (vec_decode dec_t)"
proof
  fix xs bs rest
  assume "vec_encode enc_t xs = Some bs"
  then obtain r es where "length xs \<le> 2 ^ 32 - 1" "u32_encode (word_of_nat (length xs)) = Some r"
    "items_encode enc_t xs = Some es" "bs = r @ es"
    by (auto simp: vec_encode_def split: if_splits option.splits)
  then show "vec_decode dec_t (bs @ rest) = Some (xs, rest)"
    using items_decode_encode [OF assms] by (simp add: vec_decode_def u32.decode_encode)
next
  fix xs input rest
  assume "vec_decode dec_t input = Some (xs, rest)"
  then obtain len r1 where len: "u32_decode input = Some (len, r1)"
    and its: "items_decode dec_t (unat len) r1 = Some (xs, rest)"
    by (auto simp: vec_decode_def split: option.splits)
  from items_encode_decode [OF assms its] obtain es where
    es: "length xs = unat len" "items_encode enc_t xs = Some es" "r1 = es @ rest" by blast
  from u32.encode_decode [OF len] obtain r where r: "u32_encode len = Some r" "input = r @ r1" by blast
  have "unat len < 2 ^ 32" using unsigned_less [of len] by simp
  with es r show "\<exists>bs. vec_encode enc_t xs = Some bs \<and> input = bs @ rest"
    by (simp add: vec_encode_def)
qed

lemma slicable_bytes [slicable_intros]: "slicable encode_slice bytes_decode"
proof
  fix xs bs rest
  assume "encode_slice xs = Some bs"
  then show "bytes_decode (bs @ rest) = Some (xs, rest)"
    by (auto simp: encode_slice_def bytes_decode_def u32.decode_encode split: if_splits)
next
  fix xs input rest
  assume "bytes_decode input = Some (xs, rest)"
  then obtain len r1 where len: "u32_decode input = Some (len, r1)"
    and xs: "length xs = unat len" "r1 = xs @ rest"
    by (auto simp: bytes_decode_def read_exact_Some split: option.splits)
  from u32.encode_decode [OF len] obtain r where r: "u32_encode len = Some r" "input = r @ r1" by blast
  have "unat len < 2 ^ 32" using unsigned_less [of len] by simp
  with xs r show "\<exists>bs. encode_slice xs = Some bs \<and> input = bs @ rest"
    by (simp add: encode_slice_def)
qed

lemmas [slicable_intros] = u16.slicable_axioms u32.slicable_axioms u64.slicable_axioms
  u128.slicable_axioms i8.slicable_axioms

text \<open>A record is coded as the tuple of its fields.\<close>

lemma slicable_iso:
  assumes "slicable e d" "\<And>x. g (f x) = x" "\<And>y. f (g y) = y"
  shows "slicable (\<lambda>x. e (f x)) (\<lambda>input. map_option (\<lambda>(y, rest). (g y, rest)) (d input))"
proof
  fix x bs rest
  assume "e (f x) = Some bs"
  then show "map_option (\<lambda>(y, rest). (g y, rest)) (d (bs @ rest)) = Some (x, rest)"
    using slicable.decode_encode [OF assms(1)] assms(2) by simp
next
  fix input x rest
  assume "map_option (\<lambda>(y, rest). (g y, rest)) (d input) = Some (x, rest)"
  then obtain y where "d input = Some (y, rest)" "x = g y" by auto
  then show "\<exists>bs. e (f x) = Some bs \<and> input = bs @ rest"
    using slicable.encode_decode [OF assms(1)] assms(3) by simp
qed

end
