(* ===== verification/Bft_Codec.thy ===== *)
theory Bft_Codec
  imports Codec
begin

text \<open>
  The wire format of the BFT layer (\<^verbatim>\<open>substrate/runtime/primitives/src/bft.rs\<close>): actions,
  messages, justifications and misbehavior reports, each with its encoder and decoder, and
  that all of them obey the contract of \<open>slicable\<close>.  Blocks, hashes and block numbers keep
  the type parameters they have there, with their codecs as arguments.
\<close>

section \<open>Actions and messages\<close>

datatype ('b, 'h) Action =
    Action_Propose "32 word" 'b
  | Action_ProposeHeader "32 word" 'h
  | Action_Prepare "32 word" 'h
  | Action_Commit "32 word" 'h
  | Action_AdvanceRound "32 word"

definition action_encode :: "'b encoder \<Rightarrow> 'h encoder \<Rightarrow> ('b, 'h) Action encoder" where
  "action_encode enc_b enc_h a =
     (case a of
        Action_Propose round block \<Rightarrow> map_option (\<lambda>s. 1 # s) (tuple_encode u32_encode enc_b (round, block))
      | Action_ProposeHeader round hash \<Rightarrow> map_option (\<lambda>s. 2 # s) (tuple_encode u32_encode enc_h (round, hash))
      | Action_Prepare round hash \<Rightarrow> map_option (\<lambda>s. 3 # s) (tuple_encode u32_encode enc_h (round, hash))
      | Action_Commit round hash \<Rightarrow> map_option (\<lambda>s. 4 # s) (tuple_encode u32_encode enc_h (round, hash))
      | Action_AdvanceRound round \<Rightarrow> map_option (\<lambda>s. 5 # s) (u32_encode round))"

definition action_decode :: "'b decoder \<Rightarrow> 'h decoder \<Rightarrow> ('b, 'h) Action decoder" where
  "action_decode dec_b dec_h input =
     (case i8_decode input of
        None \<Rightarrow> None
      | Some (x, rest) \<Rightarrow>
          if x = 1 then map_option (\<lambda>((round, block), rest). (Action_Propose round block, rest))
                          (tuple_decode u32_decode dec_b rest)
          else if x = 2 then map_option (\<lambda>((round, hash), rest). (Action_ProposeHeader round hash, rest))
                          (tuple_decode u32_decode dec_h rest)
          else if x = 3 then map_option (\<lambda>((round, hash), rest). (Action_Prepare round hash, rest))
                          (tuple_decode u32_decode dec_h rest)
          else if x = 4 then map_option (\<lambda>((round, hash), rest). (Action_Commit round hash, rest))
                          (tuple_decode u32_decode dec_h rest)
          else if x = 5 then map_option (\<lambda>(round, rest). (Action_AdvanceRound round, rest))
                          (u32_decode rest)
          else None)"

record ('b, 'h) PrimitiveMessage =
  pm_parent :: 'h
  pm_action :: "('b, 'h) Action"

definition message_encode :: "'b encoder \<Rightarrow> 'h encoder \<Rightarrow> ('b, 'h) PrimitiveMessage encoder" where
  "message_encode enc_b enc_h m =
     tuple_encode enc_h (action_encode enc_b enc_h) (pm_parent m, pm_action m)"

definition message_decode :: "'b decoder \<Rightarrow> 'h decoder \<Rightarrow> ('b, 'h) PrimitiveMessage decoder" where
  "message_decode dec_b dec_h input =
     map_option (\<lambda>((p, a), rest). (\<lparr>pm_parent = p, pm_action = a\<rparr>, rest))
       (tuple_decode dec_h (action_decode dec_b dec_h) input)"


section \<open>Justifications and misbehavior reports\<close>

type_synonym authority_id = "byte list"
type_synonym signature = "byte list"

definition authority_id_encode :: "authority_id encoder" where "authority_id_encode = bytes_n_encode 32"
definition authority_id_decode :: "authority_id decoder" where "authority_id_decode = bytes_n_decode 32"
definition signature_encode :: "signature encoder" where "signature_encode = bytes_n_encode 64"
definition signature_decode :: "signature decoder" where "signature_decode = bytes_n_decode 64"

record 'h PrimitiveJustification =
  pj_round_number :: "32 word"
  pj_hash :: 'h
  pj_signatures :: "(authority_id \<times> signature) list"

definition primitive_justification_encode :: "'h encoder \<Rightarrow> 'h PrimitiveJustification encoder" where
  "primitive_justification_encode enc_h j =
     tuple_encode u32_encode
       (tuple_encode enc_h (vec_encode (tuple_encode authority_id_encode signature_encode)))
       (pj_round_number j, pj_hash j, pj_signatures j)"

definition primitive_justification_decode :: "'h decoder \<Rightarrow> 'h PrimitiveJustification decoder" where
  "primitive_justification_decode dec_h input =
     map_option (\<lambda>((r, h, ss), rest). (\<lparr>pj_round_number = r, pj_hash = h, pj_signatures = ss\<rparr>, rest))
       (tuple_decode u32_decode
         (tuple_decode dec_h (vec_decode (tuple_decode authority_id_decode signature_decode))) input)"

datatype 'h MisbehaviorKind =
    BftDoublePrepare "32 word" "'h \<times> signature" "'h \<times> signature"
  | BftDoubleCommit "32 word" "'h \<times> signature" "'h \<times> signature"

definition misbehavior_kind_encode :: "'h encoder \<Rightarrow> 'h MisbehaviorKind encoder" where
  "misbehavior_kind_encode enc_h k =
     (let pair = tuple_encode enc_h signature_encode;
          body = tuple_encode u32_encode (tuple_encode pair pair)
      in case k of
           BftDoublePrepare round a b \<Rightarrow> tuple_encode i8_encode body (0x11, round, a, b)
         | BftDoubleCommit round a b \<Rightarrow> tuple_encode i8_encode body (0x12, round, a, b))"

definition misbehavior_kind_decode :: "'h decoder \<Rightarrow> 'h MisbehaviorKind decoder" where
  "misbehavior_kind_decode dec_h input =
     (let pair = tuple_decode dec_h signature_decode;
          body = tuple_decode u32_decode (tuple_decode pair pair)
      in case i8_decode input of
           None \<Rightarrow> None
         | Some (x, rest) \<Rightarrow>
             if x = 0x11 then map_option (\<lambda>((round, a, b), rest). (BftDoublePrepare round a b, rest)) (body rest)
             else if x = 0x12 then map_option (\<lambda>((round, a, b), rest). (BftDoubleCommit round a b, rest)) (body rest)
             else None)"

record ('h, 'n) MisbehaviorReport =
  mr_parent_hash :: 'h
  mr_parent_number :: 'n
  mr_target :: authority_id
  mr_misbehavior :: "'h MisbehaviorKind"

definition report_encode :: "'h encoder \<Rightarrow> 'n encoder \<Rightarrow> ('h, 'n) MisbehaviorReport encoder" where
  "report_encode enc_h enc_n r =
     tuple_encode enc_h (tuple_encode enc_n (tuple_encode authority_id_encode (misbehavior_kind_encode enc_h)))
       (mr_parent_hash r, mr_parent_number r, mr_target r, mr_misbehavior r)"

definition report_decode :: "'h decoder \<Rightarrow> 'n decoder \<Rightarrow> ('h, 'n) MisbehaviorReport decoder" where
  "report_decode dec_h dec_n input =
     map_option (\<lambda>((h, n, t, m), rest).
         (\<lparr>mr_parent_hash = h, mr_parent_number = n, mr_target = t, mr_misbehavior = m\<rparr>, rest))
       (tuple_decode dec_h
         (tuple_decode dec_n (tuple_decode authority_id_decode (misbehavior_kind_decode dec_h))) input)"


section \<open>All of them obey the contract\<close>

lemma i8_encode_byte: "i8_encode x = Some [x]"
proof -
  have "unat x < 256" using unsigned_less [of x] by simp
  then show ?thesis by (simp add: i8_encode_def int_encode_def)
qed

lemma i8_tag: "i8_encode x = Some bs \<longleftrightarrow> bs = [x]"
  by (auto simp: i8_encode_byte)

lemma i8_decode_iff: "i8_decode input = Some (x, rest) \<longleftrightarrow> input = x # rest"
  using i8.decode_encode [of x "[x]" rest] i8.encode_decode [of input x rest] by (auto simp: i8_tag)

lemma i8_decode_Cons [simp]: "i8_decode (x # rest) = Some (x, rest)"
  by (simp add: i8_decode_iff)

lemma slicable_action [slicable_intros]:
  assumes "slicable enc_b dec_b" "slicable enc_h dec_h"
  shows "slicable (action_encode enc_b enc_h) (action_decode dec_b dec_h)"
proof -
  note tb = slicable_tuple [OF u32.slicable_axioms assms(1)]
  note th = slicable_tuple [OF u32.slicable_axioms assms(2)]
  show ?thesis
  proof
    fix a bs rest
    assume "action_encode enc_b enc_h a = Some bs"
    then show "action_decode dec_b dec_h (bs @ rest) = Some (a, rest)"
      by (auto simp: action_encode_def action_decode_def slicable.decode_encode [OF tb]
          slicable.decode_encode [OF th] u32.decode_encode split: Action.splits)
  next
    fix a input rest
    assume "action_decode dec_b dec_h input = Some (a, rest)"
    then show "\<exists>bs. action_encode enc_b enc_h a = Some bs \<and> input = bs @ rest"
      by (auto simp: action_decode_def action_encode_def i8_decode_iff split: option.splits if_splits
          dest!: slicable.encode_decode [OF tb] slicable.encode_decode [OF th] u32.encode_decode)
  qed
qed

lemma slicable_message [slicable_intros]:
  assumes "slicable enc_b dec_b" "slicable enc_h dec_h"
  shows "slicable (message_encode enc_b enc_h) (message_decode dec_b dec_h)"
proof -
  have "slicable (\<lambda>m. tuple_encode enc_h (action_encode enc_b enc_h) (pm_parent m, pm_action m))
     (\<lambda>input. map_option (\<lambda>(y, rest). ((\<lambda>(p, a). \<lparr>pm_parent = p, pm_action = a\<rparr>) y, rest))
        (tuple_decode dec_h (action_decode dec_b dec_h) input))"
    by (rule slicable_iso) (auto intro: slicable_intros assms)
  then show ?thesis
    by (simp add: message_encode_def [abs_def] message_decode_def [abs_def] case_prod_unfold)
qed

lemma slicable_authority_id [slicable_intros]: "slicable authority_id_encode authority_id_decode"
  unfolding authority_id_encode_def authority_id_decode_def by (rule slicable_bytes_n)

lemma slicable_signature [slicable_intros]: "slicable signature_encode signature_decode"
  unfolding signature_encode_def signature_decode_def by (rule slicable_bytes_n)

lemma slicable_primitive_justification [slicable_intros]:
  assumes "slicable enc_h dec_h"
  shows "slicable (primitive_justification_encode enc_h) (primitive_justification_decode dec_h)"
proof -
  have "slicable (\<lambda>j. tuple_encode u32_encode
       (tuple_encode enc_h (vec_encode (tuple_encode authority_id_encode signature_encode)))
       (pj_round_number j, pj_hash j, pj_signatures j))
     (\<lambda>input. map_option (\<lambda>(y, rest). ((\<lambda>(r, h, ss). \<lparr>pj_round_number = r, pj_hash = h, pj_signatures = ss\<rparr>) y, rest))
       (tuple_decode u32_decode
         (tuple_decode dec_h (vec_decode (tuple_decode authority_id_decode signature_decode))) input))"
    by (rule slicable_iso) (auto intro!: slicable_intros assms)
  then show ?thesis
    by (simp add: primitive_justification_encode_def [abs_def] primitive_justification_decode_def [abs_def] case_prod_unfold)
qed

lemma slicable_misbehavior_kind [slicable_intros]:
  assumes "slicable enc_h dec_h"
  shows "slicable (misbehavior_kind_encode enc_h) (misbehavior_kind_decode dec_h)"
proof -
  have body: "slicable (tuple_encode u32_encode (tuple_encode (tuple_encode enc_h signature_encode) (tuple_encode enc_h signature_encode)))
    (tuple_decode u32_decode (tuple_decode (tuple_decode dec_h signature_decode) (tuple_decode dec_h signature_decode)))"
    by (intro slicable_intros assms)
  have tag: "tuple_encode i8_encode e (x, y) = map_option (\<lambda>s. x # s) (e y)" for e :: "'z encoder" and x y
    by (cases "e y") (simp_all add: tuple_encode_def i8_encode_byte)
  show ?thesis
  proof
    fix k bs rest
    assume "misbehavior_kind_encode enc_h k = Some bs"
    then show "misbehavior_kind_decode dec_h (bs @ rest) = Some (k, rest)"
      by (auto simp: misbehavior_kind_encode_def misbehavior_kind_decode_def Let_def tag
          slicable.decode_encode [OF body] split: MisbehaviorKind.splits)
  next
    fix k input rest
    assume "misbehavior_kind_decode dec_h input = Some (k, rest)"
    then show "\<exists>bs. misbehavior_kind_encode enc_h k = Some bs \<and> input = bs @ rest"
      by (auto simp: misbehavior_kind_encode_def misbehavior_kind_decode_def Let_def tag i8_decode_iff
          split: option.splits if_splits dest!: slicable.encode_decode [OF body])
  qed
qed

lemma slicable_report [slicable_intros]:
  assumes "slicable enc_h dec_h" "slicable enc_n dec_n"
  shows "slicable (report_encode enc_h enc_n) (report_decode dec_h dec_n)"
proof -
  have "slicable (\<lambda>r. tuple_encode enc_h
       (tuple_encode enc_n (tuple_encode authority_id_encode (misbehavior_kind_encode enc_h)))
       (mr_parent_hash r, mr_parent_number r, mr_target r, mr_misbehavior r))
     (\<lambda>input. map_option (\<lambda>(y, rest). ((\<lambda>(h, n, t, m).
         \<lparr>mr_parent_hash = h, mr_parent_number = n, mr_target = t, mr_misbehavior = m\<rparr>) y, rest))
       (tuple_decode dec_h
         (tuple_decode dec_n (tuple_decode authority_id_decode (misbehavior_kind_decode dec_h))) input))"
    by (rule slicable_iso) (auto intro!: slicable_intros assms)
  then show ?thesis
    by (simp add: report_encode_def [abs_def] report_decode_def [abs_def] case_prod_unfold)
qed

section \<open>Properties\<close>

text \<open>
  C13. What is signed is unambiguous: whenever the encodings of blocks and hashes are, no two
  different messages (another parent, another kind of vote, another round, another digest) have
  the same bytes, not even as prefixes of longer inputs.
\<close>

theorem signing_bytes_unambiguous:
  assumes "slicable enc_b dec_b" "slicable enc_h dec_h"
    and "message_encode enc_b enc_h m = Some bs" "message_encode enc_b enc_h m' = Some bs'"
    and "bs @ rest = bs' @ rest'"
  shows "m = m' \<and> rest = rest'"
proof -
  from assms(1,2) have "slicable (message_encode enc_b enc_h) (message_decode dec_b dec_h)"
    by (rule slicable_message)
  from slicable.encode_prefix_inj [OF this assms(3,4,5)] show ?thesis .
qed

theorem signing_bytes_unambiguous_witness:
  "message_encode u32_encode u32_encode \<lparr>pm_parent = 1, pm_action = Action_Commit 2 3\<rparr> \<noteq>
   message_encode u32_encode u32_encode \<lparr>pm_parent = 1, pm_action = Action_Prepare 2 3\<rparr>"
proof
  assume eq: "message_encode u32_encode u32_encode \<lparr>pm_parent = 1, pm_action = Action_Commit 2 3\<rparr> =
   message_encode u32_encode u32_encode \<lparr>pm_parent = 1, pm_action = Action_Prepare 2 3\<rparr>"
  obtain bs where bs: "message_encode u32_encode u32_encode \<lparr>pm_parent = 1, pm_action = Action_Prepare 2 3\<rparr> = Some bs"
    by (simp add: message_encode_def tuple_encode_def action_encode_def u32_encode_def int_encode_def)
  from signing_bytes_unambiguous [OF u32.slicable_axioms u32.slicable_axioms trans [OF eq bs] bs refl]
  show False by simp
qed

text \<open>
  C14. Misbehaviour reports survive the wire: over 32-byte hashes and 64-bit block numbers, the
  decoder accepts exactly the encodings of reports, returns the encoded report and leaves the
  bytes that follow.
\<close>

theorem report_roundtrip:
  "report_decode (bytes_n_decode 32) u64_decode input = Some (r, rest) \<longleftrightarrow>
     (\<exists>bs. report_encode (bytes_n_encode 32) u64_encode r = Some bs \<and> input = bs @ rest)"
proof -
  have "slicable (report_encode (bytes_n_encode 32) u64_encode) (report_decode (bytes_n_decode 32) u64_decode)"
    by (intro slicable_report slicable_bytes_n u64.slicable_axioms)
  from slicable.decode_encode [OF this] slicable.encode_decode [OF this] show ?thesis by blast
qed

end
