(* ===== verification/Bft_Service.thy ===== *)
theory Bft_Service
  imports Bft_Voting Bft_Codec
begin

text \<open>
  The BFT service (\<^verbatim>\<open>substrate/bft/src/lib.rs\<close>) and the authentication of network messages
  (\<^verbatim>\<open>polkadot/consensus/src/service.rs\<close>): fault thresholds, signing, the checks of votes,
  proposals and justifications, the agreement context built from them, and the bookkeeping of
  the live agreement.

  The ed25519 primitives and the hash of a block are parameters (record \<open>Crypto\<close>), as are the
  codecs of blocks and hashes, through \<open>cr_encode\<close>, the bytes of \<^verbatim>\<open>Slicable::encode\<close> on a message.
  Here the strategy's contract \<open>signing_context\<close> is interpreted on \<open>sign_message\<close>, which turns the
  lemmas of \<open>Bft_Voting\<close> into theorems about an authority running this code.
\<close>

section \<open>Thresholds\<close>

definition max_faulty_of :: "usize \<Rightarrow> usize" where
  "max_faulty_of n = (n - 1) div 3"

definition bft_threshold_of :: "usize \<Rightarrow> usize" where
  "bft_threshold_of n = n - max_faulty_of n"


section \<open>Signing and checking\<close>

record LocalizedSignature =
  ls_signer :: authority_id
  ls_signature :: signature

record ('b, 'h, 'k) Crypto =
  cr_encode :: "('b, 'h) PrimitiveMessage \<Rightarrow> byte list"
  cr_hash :: "'b \<Rightarrow> 'h"
  cr_public :: "'k \<Rightarrow> authority_id"
  cr_sign :: "'k \<Rightarrow> byte list \<Rightarrow> signature"
  cr_verify_strong :: "signature \<Rightarrow> byte list \<Rightarrow> authority_id \<Rightarrow> bool"

datatype bft_error =
    StateUnavailable string
  | IoTerminated
  | FaultyTimer
  | CannotPropose
  | InvalidSignature signature authority_id
  | InvalidAuthority authority_id
  | InvalidRuntime
  | InvalidJustification
  | Other string

text \<open>\<^verbatim>\<open>r as u32\<close>: a round number is truncated to 32 bits before it is signed.\<close>

definition round_u32 :: "usize \<Rightarrow> 32 word" where
  "round_u32 r = word_of_nat r"

primrec vote_action :: "'h Vote \<Rightarrow> ('b, 'h) Action" where
  "vote_action (Prepare r h) = Action_Prepare (round_u32 r) h"
| "vote_action (Commit r h) = Action_Commit (round_u32 r) h"
| "vote_action (AdvanceRound r) = Action_AdvanceRound (round_u32 r)"

definition sign_action ::
  "('b, 'h, 'k) Crypto \<Rightarrow> 'k \<Rightarrow> 'h \<Rightarrow> ('b, 'h) Action \<Rightarrow> LocalizedSignature"
where
  "sign_action cr key parent_hash action =
     (let to_sign = cr_encode cr \<lparr>pm_parent = parent_hash, pm_action = action\<rparr>
      in \<lparr>ls_signer = cr_public cr key, ls_signature = cr_sign cr key to_sign\<rparr>)"

definition sign_message ::
  "('b, 'h, 'k) Crypto \<Rightarrow> ('b, 'h) Message \<Rightarrow> 'k \<Rightarrow> 'h
   \<Rightarrow> ('b, 'h, authority_id, LocalizedSignature) LocalizedMessage"
where
  "sign_message cr message key parent_hash =
     (case message of
        Message_Propose r block \<Rightarrow>
          (let header_hash = cr_hash cr block
           in LocalizedMessage_Propose
             \<lparr>lp_round_number = r, lp_proposal = block, lp_digest = header_hash,
              lp_sender = cr_public cr key,
              lp_digest_signature =
                sign_action cr key parent_hash (Action_ProposeHeader (round_u32 r) header_hash),
              lp_full_signature =
                sign_action cr key parent_hash (Action_Propose (round_u32 r) block)\<rparr>)
      | Message_Vote vote \<Rightarrow>
          LocalizedMessage_Vote
            \<lparr>lv_vote = vote, lv_sender = cr_public cr key,
             lv_signature = sign_action cr key parent_hash (vote_action vote)\<rparr>)"

definition check_action ::
  "('b, 'h, 'k) Crypto \<Rightarrow> ('b, 'h) Action \<Rightarrow> 'h \<Rightarrow> LocalizedSignature \<Rightarrow> bft_error + unit"
where
  "check_action cr action parent_hash sig =
     (let message = cr_encode cr \<lparr>pm_parent = parent_hash, pm_action = action\<rparr>
      in if cr_verify_strong cr (ls_signature sig) message (ls_signer sig) then Inr ()
         else Inl (InvalidSignature (ls_signature sig) (ls_signer sig)))"

definition check_vote ::
  "('b, 'h, 'k) Crypto \<Rightarrow> authority_id list \<Rightarrow> 'h
   \<Rightarrow> ('h, authority_id, LocalizedSignature) LocalizedVote \<Rightarrow> bft_error + unit"
where
  "check_vote cr authorities parent_hash vote =
     (if lv_sender vote \<notin> set authorities then Inl (InvalidAuthority (lv_sender vote))
      else check_action cr (vote_action (lv_vote vote)) parent_hash (lv_signature vote))"

definition check_proposal ::
  "('b, 'h, 'k) Crypto \<Rightarrow> authority_id list \<Rightarrow> 'h
   \<Rightarrow> ('b, 'h, authority_id, LocalizedSignature) LocalizedProposal \<Rightarrow> bft_error + unit"
where
  "check_proposal cr authorities parent_hash prop =
     (if lp_sender prop \<notin> set authorities then Inl (InvalidAuthority (lp_sender prop))
      else
        (let action_header = Action_ProposeHeader (round_u32 (lp_round_number prop)) (lp_digest prop);
             action_propose = Action_Propose (round_u32 (lp_round_number prop)) (lp_proposal prop)
         in case check_action cr action_header parent_hash (lp_digest_signature prop) of
              Inl e \<Rightarrow> Inl e
            | Inr _ \<Rightarrow> check_action cr action_propose parent_hash (lp_full_signature prop)))"

definition check_justification_signed_message ::
  "('b, 'h, 'k) Crypto \<Rightarrow> authority_id list \<Rightarrow> byte list
   \<Rightarrow> ('h, LocalizedSignature) UncheckedJustification
   \<Rightarrow> ('h, LocalizedSignature) UncheckedJustification + ('h, LocalizedSignature) Justification"
where
  "check_justification_signed_message cr authorities message just =
     justification_check (length authorities - max_faulty_of (length authorities))
       (\<lambda>_ _ sig.
          if ls_signer sig \<notin> set authorities then None
          else if cr_verify_strong cr (ls_signature sig) message (ls_signer sig)
          then Some (ls_signer sig) else None)
       just"

definition check_justification ::
  "('b, 'h, 'k) Crypto \<Rightarrow> authority_id list \<Rightarrow> 'h
   \<Rightarrow> ('h, LocalizedSignature) UncheckedJustification
   \<Rightarrow> ('h, LocalizedSignature) UncheckedJustification + ('h, LocalizedSignature) Justification"
where
  "check_justification cr authorities parent just =
     check_justification_signed_message cr authorities
       (cr_encode cr \<lparr>pm_parent = parent,
          pm_action = Action_Commit (round_u32 (uj_round_number just)) (uj_digest just)\<rparr>) just"

definition check_prepare_justification ::
  "('b, 'h, 'k) Crypto \<Rightarrow> authority_id list \<Rightarrow> 'h
   \<Rightarrow> ('h, LocalizedSignature) UncheckedJustification
   \<Rightarrow> ('h, LocalizedSignature) UncheckedJustification + ('h, LocalizedSignature) Justification"
where
  "check_prepare_justification cr authorities parent just =
     check_justification_signed_message cr authorities
       (cr_encode cr \<lparr>pm_parent = parent,
          pm_action = Action_Prepare (round_u32 (uj_round_number just)) (uj_digest just)\<rparr>) just"

definition from_primitive_justification ::
  "'h PrimitiveJustification \<Rightarrow> ('h, LocalizedSignature) UncheckedJustification"
where
  "from_primitive_justification just =
     \<lparr>uj_round_number = unat (pj_round_number just), uj_digest = pj_hash just,
      uj_signatures = map (\<lambda>(from, sig). \<lparr>ls_signer = from, ls_signature = sig\<rparr>) (pj_signatures just)\<rparr>"

definition into_primitive_justification ::
  "('h, LocalizedSignature) UncheckedJustification \<Rightarrow> 'h PrimitiveJustification"
where
  "into_primitive_justification uj =
     \<lparr>pj_round_number = round_u32 (uj_round_number uj), pj_hash = uj_digest uj,
      pj_signatures = map (\<lambda>s. (ls_signer s, ls_signature s)) (uj_signatures uj)\<rparr>"


section \<open>Messages from the network\<close>

datatype 'h ConsensusVote =
    Net_Prepare "32 word" 'h
  | Net_Commit "32 word" 'h
  | Net_AdvanceRound "32 word"

record ('b, 'h) SignedConsensusProposal =
  scp_round_number :: "32 word"
  scp_proposal :: 'b
  scp_digest :: 'h
  scp_sender :: authority_id
  scp_digest_signature :: signature
  scp_full_signature :: signature

record 'h SignedConsensusVote =
  scv_vote :: "'h ConsensusVote"
  scv_sender :: authority_id
  scv_signature :: signature

datatype ('b, 'h) BftMessage =
    Net_Propose "('b, 'h) SignedConsensusProposal"
  | Net_Vote "'h SignedConsensusVote"
  | Net_Auxiliary "'h PrimitiveJustification"

record ('b, 'h) LocalizedBftMessage =
  lbm_message :: "('b, 'h) BftMessage"
  lbm_parent_hash :: 'h

primrec vote_from_net :: "'h ConsensusVote \<Rightarrow> 'h Vote" where
  "vote_from_net (Net_Prepare r h) = Prepare (unat r) h"
| "vote_from_net (Net_Commit r h) = Commit (unat r) h"
| "vote_from_net (Net_AdvanceRound r) = AdvanceRound (unat r)"

primrec vote_to_net :: "'h Vote \<Rightarrow> 'h ConsensusVote" where
  "vote_to_net (Prepare r h) = Net_Prepare (round_u32 r) h"
| "vote_to_net (Commit r h) = Net_Commit (round_u32 r) h"
| "vote_to_net (AdvanceRound r) = Net_AdvanceRound (round_u32 r)"

definition process_message ::
  "('b, 'h, 'k) Crypto \<Rightarrow> ('b, 'h) LocalizedBftMessage \<Rightarrow> authority_id \<Rightarrow> authority_id list
   \<Rightarrow> bft_error + ('b, 'h, authority_id, LocalizedSignature) Communication option"
where
  "process_message cr msg my_id authorities =
     (case lbm_message msg of
        Net_Propose p \<Rightarrow>
          if scp_sender p = my_id then Inr None
          else
            (let prop =
               \<lparr>lp_round_number = unat (scp_round_number p), lp_proposal = scp_proposal p,
                lp_digest = scp_digest p, lp_sender = scp_sender p,
                lp_digest_signature = \<lparr>ls_signer = scp_sender p, ls_signature = scp_digest_signature p\<rparr>,
                lp_full_signature = \<lparr>ls_signer = scp_sender p, ls_signature = scp_full_signature p\<rparr>\<rparr>
             in case check_proposal cr authorities (lbm_parent_hash msg) prop of
                  Inl e \<Rightarrow> Inl e
                | Inr _ \<Rightarrow> Inr (Some (Consensus (LocalizedMessage_Propose prop))))
      | Net_Vote v \<Rightarrow>
          if scv_sender v = my_id then Inr None
          else
            (let vote =
               \<lparr>lv_vote = vote_from_net (scv_vote v), lv_sender = scv_sender v,
                lv_signature = \<lparr>ls_signer = scv_sender v, ls_signature = scv_signature v\<rparr>\<rparr>
             in case check_vote cr authorities (lbm_parent_hash msg) vote of
                  Inl e \<Rightarrow> Inl e
                | Inr _ \<Rightarrow> Inr (Some (Consensus (LocalizedMessage_Vote vote))))
      | Net_Auxiliary a \<Rightarrow>
          (case check_prepare_justification cr authorities (lbm_parent_hash msg)
                  (from_primitive_justification a) of
             Inl _ \<Rightarrow> Inl InvalidJustification
           | Inr j \<Rightarrow> Inr (Some (Auxiliary j))))"

definition to_network ::
  "'h \<Rightarrow> ('b, 'h, authority_id, LocalizedSignature) Communication \<Rightarrow> ('b, 'h) LocalizedBftMessage"
where
  "to_network parent_hash message =
     \<lparr>lbm_message =
        (case message of
           Consensus (LocalizedMessage_Propose p) \<Rightarrow>
             Net_Propose
               \<lparr>scp_round_number = round_u32 (lp_round_number p), scp_proposal = lp_proposal p,
                scp_digest = lp_digest p, scp_sender = lp_sender p,
                scp_digest_signature = ls_signature (lp_digest_signature p),
                scp_full_signature = ls_signature (lp_full_signature p)\<rparr>
         | Consensus (LocalizedMessage_Vote v) \<Rightarrow>
             Net_Vote \<lparr>scv_vote = vote_to_net (lv_vote v), scv_sender = lv_sender v,
                       scv_signature = ls_signature (lv_signature v)\<rparr>
         | Auxiliary j \<Rightarrow> Net_Auxiliary (into_primitive_justification (uncheck j))),
      lbm_parent_hash = parent_hash\<rparr>"


text \<open>
  The loop of the \<^verbatim>\<open>Messages\<close> stream over what the network has queued: messages that are our own
  or fail their checks are skipped.  Each element is a queued message; when the queue is
  exhausted the network reports that nothing is ready.
\<close>

fun messages_poll ::
  "('b, 'h, 'k) Crypto \<Rightarrow> authority_id \<Rightarrow> authority_id list \<Rightarrow> ('b, 'h) LocalizedBftMessage list
   \<Rightarrow> ('b, 'h, authority_id, LocalizedSignature) Communication option \<times> ('b, 'h) LocalizedBftMessage list"
where
  "messages_poll cr my_id authorities [] = (None, [])"
| "messages_poll cr my_id authorities (msg # rest) =
     (case process_message cr msg my_id authorities of
        Inr (Some c) \<Rightarrow> (Some c, rest)
      | _ \<Rightarrow> messages_poll cr my_id authorities rest)"


section \<open>The agreement context\<close>

text \<open>
  \<^verbatim>\<open>Proposer\<close> and \<^verbatim>\<open>Timer\<close> are parameters: what a \<^verbatim>\<open>BftInstance\<close> asks of them, over the state \<open>'w\<close>
  of the environment.  \<open>from_error\<close> is the conversion into the proposer's error type.
\<close>

record ('b, 'e, 'w) ProposerEnv =
  pe_round_proposer :: "usize \<Rightarrow> authority_id list \<Rightarrow> authority_id"
  pe_begin_propose :: "'w \<Rightarrow> 'w"
  pe_poll_propose :: "'w \<Rightarrow> ('e + 'b option) \<times> 'w"
  pe_begin_evaluate :: "'b \<Rightarrow> 'w \<Rightarrow> 'w"
  pe_poll_evaluate :: "'w \<Rightarrow> ('e + bool option) \<times> 'w"
  pe_sleep :: "64 word \<Rightarrow> 'w \<Rightarrow> 'w"
  pe_poll_sleep :: "'w \<Rightarrow> (unit + unit option) \<times> 'w"
  pe_from_error :: "bft_error \<Rightarrow> 'e"

record ('b, 'h, 'k, 'e, 'w) BftInstance =
  bi_key :: 'k
  bi_authorities :: "authority_id list"
  bi_parent_hash :: 'h
  bi_round_timeout_multiplier :: "64 word"
  bi_proposer :: "('b, 'e, 'w) ProposerEnv"

text \<open>
  \<^verbatim>\<open>1u64.checked_shl(round).unwrap_or_else(u64::max_value)\<close> and \<^verbatim>\<open>saturating_mul\<close>, on 64-bit words:
  the shift amount is at most 63, and a product that does not fit is the largest value.
\<close>

definition checked_shl_one :: "nat \<Rightarrow> 64 word option" where
  "checked_shl_one n = (if n < 64 then Some (push_bit n 1) else None)"

definition saturating_mul_u64 :: "64 word \<Rightarrow> 64 word \<Rightarrow> 64 word" where
  "saturating_mul_u64 a b = (if unat a * unat b < 2 ^ 64 then a * b else - 1)"

definition round_timeout :: "64 word \<Rightarrow> usize \<Rightarrow> 64 word" where
  "round_timeout multiplier round =
     (let r = min 63 round;
          base = (case checked_shl_one r of Some x \<Rightarrow> x | None \<Rightarrow> - 1)
      in saturating_mul_u64 base multiplier)"

definition instance_context ::
  "('b, 'h, 'k) Crypto \<Rightarrow> ('b, 'h, 'k, 'e, 'w) BftInstance
   \<Rightarrow> ('b, 'h, authority_id, LocalizedSignature, 'e, 'w) Context"
where
  "instance_context cr bi =
     \<lparr>local_id = cr_public cr (bi_key bi),
      candidate_digest = cr_hash cr,
      sign_local = (\<lambda>message. sign_message cr message (bi_key bi) (bi_parent_hash bi)),
      round_proposer = (\<lambda>round. pe_round_proposer (bi_proposer bi) round (bi_authorities bi)),
      begin_proposal = pe_begin_propose (bi_proposer bi),
      poll_proposal = pe_poll_propose (bi_proposer bi),
      begin_proposal_valid = pe_begin_evaluate (bi_proposer bi),
      poll_proposal_valid = pe_poll_evaluate (bi_proposer bi),
      begin_round_timeout =
        (\<lambda>round. pe_sleep (bi_proposer bi) (round_timeout (bi_round_timeout_multiplier bi) round)),
      poll_round_timeout =
        (\<lambda>w. case pe_poll_sleep (bi_proposer bi) w of
               (Inl _, w') \<Rightarrow> (Inl (pe_from_error (bi_proposer bi) FaultyTimer), w')
             | (Inr t, w') \<Rightarrow> (Inr t, w'))\<rparr>"


section \<open>The service\<close>

text \<open>
  The service shares with each agreement it starts a cancellation flag and a one-shot channel
  that carries the agreement's task once it has been polled.  Both live in \<open>cells\<close>, an explicit
  store addressed by the number of the agreement, since the handle and the future alias them.
  Dropping a handle waits for the channel: on a channel that nothing has been sent on it blocks,
  which is the result \<^const>\<open>None\<close>.
\<close>

datatype oneshot = Pending | Sent | SenderDropped

record AgreementCell =
  cell_cancel :: bool
  cell_task :: oneshot

record ('h, 'k) BftService =
  live_agreement :: "('h \<times> nat) option"
  cells :: "(nat, AgreementCell) hmap"
  next_cell :: nat
  round_timeout_multiplier :: "64 word"
  svc_key :: 'k

record ('b, 'h, 'k, 'e, 'w) BftFuture =
  inner :: "('b, 'h, authority_id, LocalizedSignature) Agreement"
  bf_instance :: "('b, 'h, 'k, 'e, 'w) BftInstance"
  cancel :: nat
  send_task :: bool

definition service_new :: "'k \<Rightarrow> ('h, 'k) BftService" where
  "service_new key =
     \<lparr>live_agreement = None, cells = [], next_cell = 0, round_timeout_multiplier = 4, svc_key = key\<rparr>"

definition drop_handle :: "nat \<Rightarrow> ('h, 'k) BftService \<Rightarrow> ('h, 'k) BftService option" where
  "drop_handle i svc =
     (case map_of (cells svc) i of
        None \<Rightarrow> Some svc
      | Some c \<Rightarrow>
          (case cell_task c of
             Pending \<Rightarrow> None
           | SenderDropped \<Rightarrow> Some svc
           | Sent \<Rightarrow> Some (svc\<lparr>cells := AList.update i (c\<lparr>cell_cancel := True\<rparr>) (cells svc)\<rparr>)))"

definition drop_live :: "('h \<times> nat) option \<Rightarrow> ('h, 'k) BftService \<Rightarrow> ('h, 'k) BftService option" where
  "drop_live live svc = (case live of None \<Rightarrow> Some svc | Some (_, i) \<Rightarrow> drop_handle i svc)"

definition cancel_agreement :: "('h, 'k) BftService \<Rightarrow> ('h, 'k) BftService option" where
  "cancel_agreement svc = drop_live (live_agreement svc) (svc\<lparr>live_agreement := None\<rparr>)"

definition live_agreement_hash :: "('h, 'k) BftService \<Rightarrow> 'h option" where
  "live_agreement_hash svc = map_option fst (live_agreement svc)"

text \<open>
  \<open>authorities\<close> and \<open>init\<close> are the results of \<^verbatim>\<open>client.authorities\<close> and \<^verbatim>\<open>factory.init\<close>, the
  parameters of the call; \<open>hash\<close> is the hash of the header.
\<close>

definition build_upon ::
  "('b, 'h, 'k) Crypto \<Rightarrow> (bft_error \<Rightarrow> 'e) \<Rightarrow> 'h \<Rightarrow> 'e + authority_id list
   \<Rightarrow> (authority_id list \<Rightarrow> 'e + ('b, 'e, 'w) ProposerEnv)
   \<Rightarrow> ('h, 'k) BftService \<Rightarrow> 'w
   \<Rightarrow> (('e + ('b, 'h, 'k, 'e, 'w) BftFuture option) \<times> ('h, 'k) BftService \<times> 'w) option"
where
  "build_upon cr from_error hash authorities init svc w =
     (if live_agreement_hash svc = Some hash then Some (Inr None, svc, w)
      else case authorities of
        Inl e \<Rightarrow> Some (Inl e, svc, w)
      | Inr auths \<Rightarrow>
          (let my_id = cr_public cr (svc_key svc)
           in if my_id \<notin> set auths then
                map_option (\<lambda>svc'. (Inl (from_error (InvalidAuthority my_id)), svc', w))
                  (cancel_agreement svc)
              else case init auths of
                Inl e \<Rightarrow> Some (Inl e, svc, w)
              | Inr proposer \<Rightarrow>
                  (let n = length auths;
                       bi = \<lparr>bi_key = svc_key svc, bi_authorities = auths, bi_parent_hash = hash,
                             bi_round_timeout_multiplier = round_timeout_multiplier svc,
                             bi_proposer = proposer\<rparr>;
                       (agreement, w') = agree (instance_context cr bi) n (max_faulty_of n) w;
                       i = next_cell svc;
                       svc' = svc\<lparr>live_agreement := Some (hash, i), next_cell := i + 1,
                                  cells := AList.update i \<lparr>cell_cancel = False, cell_task = Pending\<rparr> (cells svc)\<rparr>
                   in map_option (\<lambda>svc''.
                        (Inr (Some \<lparr>inner = agreement, bf_instance = bi, cancel = i, send_task = True\<rparr>), svc'', w'))
                        (drop_live (live_agreement svc) svc'))))"

text \<open>
  A poll of the future.  The result is \<open>None\<close> when not ready, \<open>Some imported\<close> when done, where
  \<open>imported\<close> is the block handed to \<^verbatim>\<open>BlockImport::import_block\<close> with its justification, if any.
\<close>

definition future_poll ::
  "('b, 'h, 'k) Crypto \<Rightarrow> ('b, 'h, authority_id, LocalizedSignature, 'e, 'w) Io
   \<Rightarrow> ('b, 'h, 'k, 'e, 'w) BftFuture \<Rightarrow> ('h, 'k) BftService \<Rightarrow> 'w
   \<Rightarrow> ((unit + ('b \<times> ('h, LocalizedSignature) Justification) option option) \<times>
       ('b, 'h, 'k, 'e, 'w) BftFuture \<times> ('h, 'k) BftService \<times> 'w) option"
where
  "future_poll cr io fut svc w =
     (case map_of (cells svc) (cancel fut) of
        None \<Rightarrow> None
      | Some c \<Rightarrow>
          (let c1 = (if send_task fut then c\<lparr>cell_task := Sent\<rparr> else c);
               svc1 = svc\<lparr>cells := AList.update (cancel fut) c1 (cells svc)\<rparr>;
               fut1 = fut\<lparr>send_task := False\<rparr>
           in if cell_cancel c1 then Some (Inr (Some None), fut1, svc1, w)
              else map_option (\<lambda>(r, ag, w').
                (case r of
                   Inl _ \<Rightarrow> Inl ()
                 | Inr None \<Rightarrow> Inr None
                 | Inr (Some cm) \<Rightarrow>
                     Inr (Some (map_option (\<lambda>b. (b, com_justification cm)) (com_candidate cm))),
                 fut1\<lparr>inner := ag\<rparr>, svc1, w'))
                (agreement_poll (instance_context cr (bf_instance fut)) io (inner fut1) w)))"


text \<open>Dropping the future closes the channel if nothing was sent on it.\<close>

definition future_drop ::
  "('b, 'h, 'k, 'e, 'w) BftFuture \<Rightarrow> ('h, 'k) BftService \<Rightarrow>
   (authority_id, ('h, LocalizedSignature) Misbehavior) hmap \<times> ('h, 'k) BftService"
where
  "future_drop fut svc =
     (misbehavior (strategy (inner fut)),
      (if send_task fut then
         (case map_of (cells svc) (cancel fut) of
            Some c \<Rightarrow> svc\<lparr>cells := AList.update (cancel fut) (c\<lparr>cell_task := SenderDropped\<rparr>) (cells svc)\<rparr>
          | None \<Rightarrow> svc)
       else svc))"


section \<open>The signer meets the strategy's contract\<close>

interpretation inst: signing_context "instance_context cr bi"
  for cr :: "('b, 'h, 'k) Crypto" and bi :: "('b, 'h, 'k, 'e, 'w) BftInstance"
  by unfold_locales (auto simp: instance_context_def sign_message_def Let_def)

lemma instance_context_simps [simp]:
  "local_id (instance_context cr bi) = cr_public cr (bi_key bi)"
  "candidate_digest (instance_context cr bi) = cr_hash cr"
  "sign_local (instance_context cr bi) m = sign_message cr m (bi_key bi) (bi_parent_hash bi)"
  by (simp_all add: instance_context_def)

text \<open>
  The views an authority goes through when the service runs an agreement: it starts with one
  node per authority, imports what the \<^verbatim>\<open>Messages\<close> stream lets through for the parent block, and
  is polled.  The queue keeps everything that was ever queued for sending.
\<close>

inductive node_view ::
  "('b, 'h, 'k) Crypto \<Rightarrow> ('b, 'h, 'k, 'e, 'w) BftInstance
   \<Rightarrow> ('b, 'h, authority_id, LocalizedSignature, 'w) view \<Rightarrow> bool"
  for cr bi
where
  started: "strategy_create (instance_context cr bi) (length (bi_authorities bi))
      (max_faulty_of (length (bi_authorities bi))) w = (st, w') \<Longrightarrow>
    node_view cr bi (st, with_capacity, w')"
| received: "node_view cr bi (st, q, w) \<Longrightarrow> lbm_parent_hash msg = bi_parent_hash bi \<Longrightarrow>
    process_message cr msg (cr_public cr (bi_key bi)) (bi_authorities bi) = Inr (Some (Consensus m)) \<Longrightarrow>
    node_view cr bi (import_message (instance_context cr bi) m st, q, w)"
| received_lock: "node_view cr bi (st, q, w) \<Longrightarrow> lbm_parent_hash msg = bi_parent_hash bi \<Longrightarrow>
    process_message cr msg (cr_public cr (bi_key bi)) (bi_authorities bi) = Inr (Some (Auxiliary j)) \<Longrightarrow>
    import_lock_proof (instance_context cr bi) j st w = (Inr st', w') \<Longrightarrow>
    node_view cr bi (st', q, w')"
| strategy_polled: "node_view cr bi vw \<Longrightarrow> node_view cr bi (snd (poll_once (instance_context cr bi) vw))"
| elapsed: "node_view cr bi (st, q, w) \<Longrightarrow> node_view cr bi (st, q, w')"

lemma node_view_reachable:
  "node_view cr bi vw \<Longrightarrow> reachable_view (instance_context cr bi) (length (bi_authorities bi))
     (max_faulty_of (length (bi_authorities bi))) vw"
  by (induction rule: node_view.induct) (blast intro: reachable_view.intros)+

lemmas node_view_inv = inst.reachable_view_inv [OF node_view_reachable]


section \<open>Only authenticated votes are counted\<close>

definition accumulators :: "('c, 'd, 'v, 's) Strategy \<Rightarrow> ('c, 'd, 'v, 's) Accumulator set" where
  "accumulators st = insert (current_accumulator st) (snd ` set (future_accumulators st))"

definition commits_from :: "(('c, 'd, 'v, 's) LocalizedMessage \<Rightarrow> bool) \<Rightarrow> ('c, 'd, 'v, 's) Strategy \<Rightarrow> bool" where
  "commits_from good st \<longleftrightarrow> (\<forall>a\<in>accumulators st. \<forall>(v, d, s)\<in>set (acc_commits a).
     good (commit_msg (acc_round_number a) d v s))"

lemma commits_from_cong:
  assumes "current_accumulator st' = current_accumulator st" "future_accumulators st' = future_accumulators st"
  shows "commits_from good st' = commits_from good st"
  using assms by (simp add: commits_from_def accumulators_def)

lemma commits_from_updates [simp]:
  "commits_from good (st\<lparr>local_state := ls\<rparr>) = commits_from good st"
  "commits_from good (st\<lparr>locked := l\<rparr>) = commits_from good st"
  "commits_from good (st\<lparr>fetching_proposal := b\<rparr>) = commits_from good st"
  "commits_from good (st\<lparr>evaluating_proposal := b\<rparr>) = commits_from good st"
  "commits_from good (st\<lparr>notable_candidates := nc\<rparr>) = commits_from good st"
  "commits_from good (st\<lparr>misbehavior := mb\<rparr>) = commits_from good st"
  by (rule commits_from_cong; simp)+

lemma import_acc_commits_from:
  assumes "\<forall>(v, d, s)\<in>set (acc_commits a). good (commit_msg (acc_round_number a) d v s)" "good m"
  shows "\<forall>(v, d, s)\<in>set (acc_commits (snd (acc_import_message m a))).
    good (commit_msg (acc_round_number (snd (acc_import_message m a))) d v s)"
  using assms import_message_votes(2) [of m a] by fastforce

lemma update_values: "snd ` set (AList.update k v m) \<subseteq> insert v (snd ` set m)"
  by (induction m) auto

lemma import_message_accumulators:
  "current_accumulator (import_message ctx m st) \<in>
     {current_accumulator st, snd (acc_import_message m (current_accumulator st))}"
  "future_accumulators (import_message ctx m st) = future_accumulators st \<or>
   future_accumulators (import_message ctx m st) =
     AList.update (msg_round_number m) (snd (acc_import_message m
       (case map_of (future_accumulators st) (msg_round_number m) of Some a \<Rightarrow> a
        | None \<Rightarrow> acc_new (msg_round_number m) (bft_threshold (nodes st) (max_faulty st))
                   (round_proposer ctx (msg_round_number m))))) (future_accumulators st)"
  by (auto simp: import_message_def Let_def case_prod_beta split: sum.split)

definition commits_good :: "(('c, 'd, 'v, 's) LocalizedMessage \<Rightarrow> bool) \<Rightarrow> ('c, 'd, 'v, 's) Accumulator \<Rightarrow> bool" where
  "commits_good good a \<longleftrightarrow> (\<forall>(v, d, s)\<in>set (acc_commits a). good (commit_msg (acc_round_number a) d v s))"

lemma commits_from_alt:
  "commits_from good st \<longleftrightarrow> commits_good good (current_accumulator st) \<and>
     (\<forall>a\<in>snd ` set (future_accumulators st). commits_good good a)"
  by (simp add: commits_from_def commits_good_def accumulators_def)

lemma commits_good_new [simp]: "commits_good good (acc_new r t p)"
  by (simp add: commits_good_def acc_new_def)

lemma commits_good_import:
  "commits_good good a \<Longrightarrow> good m \<Longrightarrow> commits_good good (snd (acc_import_message m a))"
  using import_acc_commits_from [of a good m] by (simp add: commits_good_def)

lemma lookup_in_values: "map_of m k = Some v \<Longrightarrow> v \<in> snd ` set m"
  by (force dest: map_of_SomeD)

lemma commits_from_import:
  assumes "commits_from good st" "good m"
  shows "commits_from good (import_message ctx m st)"
proof -
  let ?a = "case map_of (future_accumulators st) (msg_round_number m) of Some a \<Rightarrow> a
        | None \<Rightarrow> acc_new (msg_round_number m) (bft_threshold (nodes st) (max_faulty st))
                   (round_proposer ctx (msg_round_number m))"
  have cur: "commits_good good (current_accumulator st)"
    and fut: "\<forall>a\<in>snd ` set (future_accumulators st). commits_good good a"
    using assms(1) by (auto simp: commits_from_alt)
  have a: "commits_good good ?a"
    using fut by (cases "map_of (future_accumulators st) (msg_round_number m)") (auto dest: lookup_in_values)
  have "commits_good good (current_accumulator (import_message ctx m st))"
    using import_message_accumulators(1) [of ctx m st] cur commits_good_import [OF cur assms(2)] by auto
  moreover have "commits_good good a" if "a \<in> snd ` set (future_accumulators (import_message ctx m st))" for a
    using import_message_accumulators(2) [of ctx m st]
  proof
    assume "future_accumulators (import_message ctx m st) = future_accumulators st"
    with that have "a \<in> snd ` set (future_accumulators st)" by (simp only:)
    then show ?thesis by (rule fut [rule_format])
  next
    assume "future_accumulators (import_message ctx m st) =
      AList.update (msg_round_number m) (snd (acc_import_message m ?a)) (future_accumulators st)"
    with that have "a \<in> insert (snd (acc_import_message m ?a)) (snd ` set (future_accumulators st))"
      by (simp only: subsetD [OF update_values])
    then show ?thesis
      by (rule insertE) (simp_all only: commits_good_import [OF a assms(2)] fut [rule_format])
  qed
  ultimately show ?thesis by (simp add: commits_from_alt)
qed

lemma commits_from_advance:
  assumes "commits_from good st" "advance_to_round ctx r st w = (Inr st', w')"
  shows "commits_from good st'"
proof -
  let ?kept = "fold AList.delete [current_round st + 1..<r] (future_accumulators st)"
  have st': "future_accumulators st' = AList.delete r ?kept"
    "current_accumulator st' = (case map_of ?kept r of Some x \<Rightarrow> x
       | None \<Rightarrow> acc_new r (bft_threshold (nodes st) (max_faulty st)) (round_proposer ctx r))"
    using assms(2) by (auto simp: advance_to_round_def Let_def split: if_splits)
  have kept: "\<forall>a\<in>snd ` set ?kept. commits_good good a"
    using fold_delete_subset [of "[current_round st + 1..<r]" "future_accumulators st"] assms(1)
    by (auto simp: commits_from_alt)
  have "commits_good good (current_accumulator st')"
    unfolding st'(2) using kept by (cases "map_of ?kept r") (auto dest: lookup_in_values)
  moreover have "set (AList.delete r ?kept) \<subseteq> set ?kept"
    by (auto simp: AList.delete_eq)
  ultimately show ?thesis
    using kept by (auto simp: commits_from_alt st'(1))
qed

lemma commits_from_own:
  assumes "commits_from good (fst vw)" and good: "\<And>m. good (sign_local ctx m)"
  shows "commits_from good (fst (snd (propose ctx vw)))"
    and "commits_from good (fst (snd (prepare ctx vw)))"
    and "commits_from good (fst (snd (commit ctx vw)))"
    and "commits_from good (fst (snd (vote_advance ctx vw)))"
proof -
  obtain st q w where vw: "vw = (st, q, w)" by (cases vw)
  with assms(1) have st: "commits_from good st" by simp
  note own = commits_from_import [where good = good and ctx = ctx, OF _ good]
  note split_rules = option.split sum.split State.split prod.split
  note send_defs = send_proposal_def send_prepare_def import_and_send_message_def Let_def
  show "commits_from good (fst (snd (propose ctx vw)))"
    unfolding vw by (simp add: propose_def send_defs own st split: split_rules)
  show "commits_from good (fst (snd (prepare ctx vw)))"
    unfolding vw by (simp add: prepare_def send_defs own st split: split_rules)
  show "commits_from good (fst (snd (commit ctx vw)))"
    unfolding vw by (simp add: commit_def send_defs own st split: split_rules)
  show "commits_from good (fst (snd (vote_advance ctx vw)))"
    unfolding vw by (simp add: vote_advance_def send_defs own st split: split_rules)
qed

lemma commits_from_conclude:
  "commits_from good (fst vw) \<Longrightarrow> commits_from good (fst (snd (conclude ctx vw)))"
  by (auto simp: conclude_def Let_def split: prod.splits State.splits option.splits sum.splits
      elim!: commits_from_advance [rotated])

lemma commits_from_poll_once:
  assumes "commits_from good (fst vw)" "\<And>m. good (sign_local ctx m)"
  shows "commits_from good (fst (snd (poll_once ctx vw)))"
  unfolding poll_once_def
  by (intro and_then_invariant [where P = "\<lambda>v. commits_from good (fst v)"]
      commits_from_own commits_from_conclude assms)

lemma commits_from_lock_proof:
  assumes "commits_from good st" "import_lock_proof ctx j st w = (Inr st', w')"
  shows "commits_from good st'"
  using assms
  by (auto simp: import_lock_proof_def Let_def split: prod.splits sum.splits if_splits
      elim!: commits_from_advance [rotated])

section \<open>Authenticated messages\<close>

definition authenticated ::
  "('b, 'h, 'k) Crypto \<Rightarrow> authority_id list \<Rightarrow> 'h
   \<Rightarrow> ('b, 'h, authority_id, LocalizedSignature) LocalizedMessage \<Rightarrow> bool"
where
  "authenticated cr authorities parent_hash m \<longleftrightarrow> msg_sender m \<in> set authorities \<and>
     (case m of
        LocalizedMessage_Propose p \<Rightarrow>
          ls_signer (lp_digest_signature p) = lp_sender p \<and> ls_signer (lp_full_signature p) = lp_sender p \<and>
          cr_verify_strong cr (ls_signature (lp_digest_signature p))
            (cr_encode cr \<lparr>pm_parent = parent_hash,
               pm_action = Action_ProposeHeader (round_u32 (lp_round_number p)) (lp_digest p)\<rparr>) (lp_sender p) \<and>
          cr_verify_strong cr (ls_signature (lp_full_signature p))
            (cr_encode cr \<lparr>pm_parent = parent_hash,
               pm_action = Action_Propose (round_u32 (lp_round_number p)) (lp_proposal p)\<rparr>) (lp_sender p)
      | LocalizedMessage_Vote v \<Rightarrow>
          ls_signer (lv_signature v) = lv_sender v \<and>
          cr_verify_strong cr (ls_signature (lv_signature v))
            (cr_encode cr \<lparr>pm_parent = parent_hash, pm_action = vote_action (lv_vote v)\<rparr>) (lv_sender v))"

text \<open>Documented behaviour of ed25519: what a key signs verifies under its public key.\<close>

definition signatures_verify :: "('b, 'h, 'k) Crypto \<Rightarrow> 'k \<Rightarrow> bool" where
  "signatures_verify cr key \<longleftrightarrow> (\<forall>msg. cr_verify_strong cr (cr_sign cr key msg) msg (cr_public cr key))"

lemma check_action_iff [simp]:
  "check_action cr act parent sig = Inr () \<longleftrightarrow>
     cr_verify_strong cr (ls_signature sig) (cr_encode cr \<lparr>pm_parent = parent, pm_action = act\<rparr>) (ls_signer sig)"
  by (simp add: check_action_def Let_def)

lemma check_vote_iff:
  "check_vote cr auths parent v = Inr u \<longleftrightarrow> lv_sender v \<in> set auths \<and>
     check_action cr (vote_action (lv_vote v)) parent (lv_signature v) = Inr ()"
  by (simp add: check_vote_def)

lemma check_proposal_iff:
  "check_proposal cr auths parent p = Inr u \<longleftrightarrow> lp_sender p \<in> set auths \<and>
     check_action cr (Action_ProposeHeader (round_u32 (lp_round_number p)) (lp_digest p)) parent (lp_digest_signature p) = Inr () \<and>
     check_action cr (Action_Propose (round_u32 (lp_round_number p)) (lp_proposal p)) parent (lp_full_signature p) = Inr ()"
  by (cases "check_action cr (Action_ProposeHeader (round_u32 (lp_round_number p)) (lp_digest p)) parent (lp_digest_signature p)")
     (auto simp: check_proposal_def Let_def simp del: check_action_iff)

lemma process_message_checked:
  assumes "process_message cr msg my_id auths = Inr (Some (Consensus m))"
  shows "authenticated cr auths (lbm_parent_hash msg) m" and "msg_sender m \<noteq> my_id"
  using assms
  by (auto simp: process_message_def Let_def authenticated_def check_vote_iff check_proposal_iff
      split: BftMessage.splits if_splits sum.splits)

lemma sign_message_authenticated:
  assumes "signatures_verify cr key" "cr_public cr key \<in> set auths"
  shows "authenticated cr auths parent (sign_message cr m key parent)"
  using assms
  by (auto simp: authenticated_def sign_message_def sign_action_def signatures_verify_def Let_def split: Message.split)

lemma node_view_commits:
  assumes "node_view cr bi vw" "signatures_verify cr (bi_key bi)" "cr_public cr (bi_key bi) \<in> set (bi_authorities bi)"
  shows "commits_from (authenticated cr (bi_authorities bi) (bi_parent_hash bi)) (fst vw)"
  using assms(1)
proof (induction rule: node_view.induct)
  case (started w st w')
  then show ?case by (auto simp: strategy_create_def Let_def commits_from_alt)
next
  case (received st q w msg m)
  then show ?case using process_message_checked(1) [OF received(3)] by (simp add: commits_from_import)
next
  case (received_lock st q w msg j st' w')
  then show ?case using commits_from_lock_proof by fastforce
next
  case (strategy_polled vw)
  from strategy_polled.IH show ?case
    by (rule commits_from_poll_once) (simp add: sign_message_authenticated assms(2,3))
qed simp

lemma conclude_final: "conclude ctx vw = (Inr (Some c), vw') \<Longrightarrow> vw' = vw"
  by (auto simp: conclude_def Let_def split: prod.splits State.splits option.splits sum.splits)

lemma poll_once_concludes:
  assumes "poll_once ctx vw = (Inr (Some c), vw')"
  shows "conclude ctx vw' = (Inr (Some c), vw')"
proof -
  from assms obtain vw1 where "conclude ctx vw1 = (Inr (Some c), vw')"
    by (auto simp: poll_once_def and_then_def split: prod.splits sum.splits)
  with conclude_final [OF this] show ?thesis by simp
qed

lemma justified_checks:
  assumes j: "justified_by (length auths - max_faulty_of (length auths)) r (acc_commits a) j"
    and a: "acc_round_number a = r" "commits_good (authenticated cr auths parent) a"
  shows "check_justification cr auths parent (uncheck j) = Inr j"
proof -
  from j obtain ps where ps: "uj_round_number (uncheck j) = r" "keys_distinct ps"
    "length auths - max_faulty_of (length auths) \<le> length ps" "set ps \<subseteq> set (acc_commits a)"
    "\<forall>x\<in>set ps. fst (snd x) = uj_digest (uncheck j)"
    "uj_signatures (uncheck j) = map (snd \<circ> snd) ps"
    by (auto simp: justified_by_def)
  let ?cm = "\<lambda>(_ :: usize) _ sig. if ls_signer sig \<notin> set auths then None
     else if cr_verify_strong cr (ls_signature sig) (cr_encode cr \<lparr>pm_parent = parent,
         pm_action = Action_Commit (round_u32 r) (uj_digest (uncheck j))\<rparr>) (ls_signer sig)
     then Some (ls_signer sig) else None"
  have cm: "?cm r (uj_digest (uncheck j)) (snd (snd x)) = Some (fst x)" if "x \<in> set ps" for x
    using a that ps(4,5) by (cases x) (fastforce simp: commits_good_def authenticated_def)
  have "map (?cm r (uj_digest (uncheck j))) (uj_signatures (uncheck j)) = map Some (map fst ps)"
    unfolding ps(6) map_map by (intro map_cong refl) (simp only: comp_apply cm)
  moreover have "distinct (map fst ps)" using ps(2) by (simp add: keys_distinct_def)
  moreover have "j = Justification (uncheck j)" by (cases j) simp
  ultimately show ?thesis
    using ps(1,3) unfolding check_justification_def check_justification_signed_message_def justification_check_iff
    by (auto intro!: exI [of _ "map fst ps"])
qed

section \<open>Properties of a running authority\<close>

text \<open>
  An authority with one-byte identities, blocks that are their own hash, and signatures that
  are the signer followed by the bytes, for concrete runs of the code.
\<close>

definition sample_crypto :: "(nat, nat, authority_id) Crypto" where
  "sample_crypto =
     \<lparr>cr_encode = (\<lambda>m. word_of_nat (pm_parent m) #
        (case pm_action m of
           Action_Propose r b \<Rightarrow> [1, ucast r, word_of_nat b]
         | Action_ProposeHeader r h \<Rightarrow> [2, ucast r, word_of_nat h]
         | Action_Prepare r h \<Rightarrow> [3, ucast r, word_of_nat h]
         | Action_Commit r h \<Rightarrow> [4, ucast r, word_of_nat h]
         | Action_AdvanceRound r \<Rightarrow> [5, ucast r])),
      cr_hash = (\<lambda>b. b), cr_public = (\<lambda>k. k), cr_sign = (\<lambda>k m. k @ m),
      cr_verify_strong = (\<lambda>s m a. s = a @ m)\<rparr>"

definition sample_env :: "(nat, unit, unit) ProposerEnv" where
  "sample_env =
     \<lparr>pe_round_proposer = (\<lambda>r auths. auths ! (r mod length auths)),
      pe_begin_propose = (\<lambda>w. w), pe_poll_propose = (\<lambda>w. (Inr (Some 7), w)),
      pe_begin_evaluate = (\<lambda>b w. w), pe_poll_evaluate = (\<lambda>w. (Inr (Some True), w)),
      pe_sleep = (\<lambda>t w. w), pe_poll_sleep = (\<lambda>w. (Inr None, w)), pe_from_error = (\<lambda>e. ())\<rparr>"

definition sample_instance :: "authority_id list \<Rightarrow> (nat, nat, authority_id, unit, unit) BftInstance" where
  "sample_instance auths =
     \<lparr>bi_key = [1], bi_authorities = auths, bi_parent_hash = 9, bi_round_timeout_multiplier = 4,
      bi_proposer = sample_env\<rparr>"

definition sample_view :: "authority_id list \<Rightarrow> (nat, nat, authority_id, LocalizedSignature, unit) view" where
  "sample_view auths =
     (let (st, w) = strategy_create (instance_context sample_crypto (sample_instance auths))
        (length auths) (max_faulty_of (length auths)) ()
      in (st, with_capacity, w))"

lemmas run_defs = sample_view_def sample_instance_def sample_env_def sample_crypto_def
  instance_context_def strategy_create_def with_capacity_def acc_new_def current_round_def
  max_faulty_of_def bft_threshold_def sign_message_def sign_action_def round_u32_def push_def
  import_and_send_message_def import_message_def acc_import_message_def import_proposal_def
  import_prepare_def import_commit_def vote_counts_of_def VoteCounts_default_def signatures_for_def
  advance_votes_def
  poll_once_def and_then_def propose_def send_proposal_def prepare_def send_prepare_def commit_def
  vote_advance_def conclude_def acc_proposal_candidate_def own_votes_def List.map_filter_def Let_def

lemma sample_view_reached: "node_view sample_crypto (sample_instance auths) (sample_view auths)"
  using started [of sample_crypto "sample_instance auths" "()"]
  by (auto simp: sample_view_def sample_instance_def split: prod.split)

lemma sample_verifies: "signatures_verify sample_crypto k"
  by (simp add: signatures_verify_def sample_crypto_def)

text \<open>
  C2. An authority never equivocates: whatever arrives from the network and however often it is
  polled, no two of the votes it issues are of the same kind in the same round.
\<close>

theorem node_never_equivocates:
  assumes "node_view cr bi vw"
  shows "distinct (map (\<lambda>v. (vote_round_number v, vote_kind v)) (own_votes (fst (snd vw))))"
  using node_view_inv [OF assms] by (auto simp: view_inv_def votes_ok_def split: prod.splits)

theorem node_never_equivocates_witness:
  "let vw = snd (poll_once (instance_context sample_crypto (sample_instance [[1], [2]])) (sample_view [[1], [2]]))
   in own_votes (fst (snd vw)) = [Prepare 0 7] \<and>
      distinct (map (\<lambda>v. (vote_round_number v, vote_kind v)) (own_votes (fst (snd vw))))"
  unfolding Let_def
proof (rule conjI)
  show "own_votes (fst (snd (snd (poll_once (instance_context sample_crypto (sample_instance [[1], [2]]))
      (sample_view [[1], [2]]))))) = [Prepare 0 7]" by (simp add: run_defs)
qed (rule node_never_equivocates, rule strategy_polled, rule sample_view_reached)

text \<open>
  C3. What an authority concludes is proof for everyone: when its agreement ends, the
  justification it hands to block import passes the check every other node applies to it,
  under the same authorities and parent, and the block it imports has the justified hash.
\<close>

theorem node_conclusion_checks:
  assumes "node_view cr bi vw" "signatures_verify cr (bi_key bi)"
    and "cr_public cr (bi_key bi) \<in> set (bi_authorities bi)"
    and "poll_once (instance_context cr bi) vw = (Inr (Some c), vw')"
  shows "check_justification cr (bi_authorities bi) (bi_parent_hash bi) (uncheck (com_justification c))
           = Inr (com_justification c) \<and>
         (\<forall>b. com_candidate c = Some b \<longrightarrow> cr_hash cr b = uj_digest (uncheck (com_justification c)))"
proof -
  have vw': "node_view cr bi vw'" using strategy_polled [OF assms(1)] assms(4) by simp
  obtain st q w where st: "vw' = (st, q, w)" by (cases vw')
  have conc: "conclude (instance_context cr bi) (st, q, w) = (Inr (Some c), vw')"
    using poll_once_concludes [OF assms(4)] st by simp
  have ok: "notable_ok (instance_context cr bi) st"
    using reachable_notable_ok [OF node_view_reachable [OF vw']] st by simp
  have sc: "acc_state (current_accumulator st) = State_Committed (com_justification c)"
    using ok conc by (rule conclude_result)
  have inv: "strat_inv st" "nodes st = length (bi_authorities bi)" "max_faulty st = max_faulty_of (length (bi_authorities bi))"
    using node_view_inv [OF vw'] st by (auto simp: view_inv_def)
  have "justified_by (length (bi_authorities bi) - max_faulty_of (length (bi_authorities bi)))
      (acc_round_number (current_accumulator st)) (acc_commits (current_accumulator st)) (com_justification c)"
    using inv sc by (auto simp: strat_inv_def acc_inv_def state_justified_def bft_threshold_def)
  moreover have "commits_good (authenticated cr (bi_authorities bi) (bi_parent_hash bi)) (current_accumulator st)"
    using node_view_commits [OF vw' assms(2,3)] st by (simp add: commits_from_alt)
  ultimately have "check_justification cr (bi_authorities bi) (bi_parent_hash bi) (uncheck (com_justification c))
           = Inr (com_justification c)"
    by (rule justified_checks [OF _ refl])
  with conclude_result(2) [OF ok conc] show ?thesis by simp
qed

theorem node_conclusion_checks_witness:
  "let c = \<lparr>com_candidate = Some (7 :: nat), com_justification = Justification \<lparr>uj_round_number = 0, uj_digest = 7,
        uj_signatures = [\<lparr>ls_signer = [1], ls_signature = [1, 9, 4, 0, 7]\<rparr>]\<rparr>\<rparr>
   in fst (poll_once (instance_context sample_crypto (sample_instance [[1]])) (sample_view [[1]])) = Inr (Some c) \<and>
      check_justification sample_crypto (bi_authorities (sample_instance [[1]])) (bi_parent_hash (sample_instance [[1]]))
        (uncheck (com_justification c)) = Inr (com_justification c)"
proof -
  let ?r = "poll_once (instance_context sample_crypto (sample_instance [[1]])) (sample_view [[1]])"
  let ?c = "\<lparr>com_candidate = Some (7 :: nat), com_justification = Justification \<lparr>uj_round_number = 0, uj_digest = 7,
        uj_signatures = [\<lparr>ls_signer = [1], ls_signature = [1, 9, 4, 0, 7]\<rparr>]\<rparr>\<rparr>"
  have r: "fst ?r = Inr (Some ?c)" by (simp add: run_defs)
  have mem: "cr_public sample_crypto (bi_key (sample_instance [[1]])) \<in> set (bi_authorities (sample_instance [[1]]))"
    by (simp add: run_defs)
  have "?r = (Inr (Some ?c), snd ?r)" by (simp only: prod_eq_iff fst_conv snd_conv r simp_thms)
  then have "check_justification sample_crypto (bi_authorities (sample_instance [[1]]))
      (bi_parent_hash (sample_instance [[1]])) (uncheck (com_justification ?c)) = Inr (com_justification ?c)"
    by (rule node_conclusion_checks [OF sample_view_reached sample_verifies mem, THEN conjunct1])
  with r show ?thesis by (simp only: Let_def simp_thms)
qed

text \<open>
  C5. An authority only ever moves forward and its assertion holds: a poll never panics, never
  returns to an earlier round, and never gives up a lock for one of an earlier round.
\<close>

theorem node_progress:
  assumes "node_view cr bi vw" and "poll_once (instance_context cr bi) vw = (r, vw')"
  shows "r \<noteq> Inl Panic \<and> current_round (fst vw) \<le> current_round (fst vw') \<and>
    (\<forall>l. lock_round (fst vw) = Some l \<longrightarrow> (\<exists>l'. lock_round (fst vw') = Some l' \<and> l \<le> l'))"
proof -
  note inv = node_view_inv [OF assms(1)]
  show ?thesis
    using inst.poll_once_no_panic [OF inv] inst.poll_once_monotone [OF inv] assms(2)
    by (simp add: lock_le_def)
qed

theorem node_progress_witness:
  "let (r, vw') = poll_once (instance_context sample_crypto (sample_instance [[1], [2]])) (sample_view [[1], [2]])
   in r \<noteq> Inl Panic \<and> current_round (fst (sample_view [[1], [2]])) \<le> current_round (fst vw') \<and>
      (\<forall>l. lock_round (fst (sample_view [[1], [2]])) = Some l \<longrightarrow>
         (\<exists>l'. lock_round (fst vw') = Some l' \<and> l \<le> l'))"
  using node_progress [OF sample_view_reached] by (simp only: Let_def split: prod.split) blast

text \<open>
  C6. Polling returns: with two or more authorities, the polling loop of the strategy ends after
  finitely many iterations in every view an authority can be in, whatever the proposer, the
  timers and the network did.
\<close>

theorem node_poll_returns:
  assumes "node_view cr bi vw" "2 \<le> length (bi_authorities bi)"
  shows "\<exists>r. poll (instance_context cr bi) vw = Some r"
proof (rule inst.poll_returns [OF node_view_inv [OF assms(1)]])
  show "2 \<le> bft_threshold (length (bi_authorities bi)) (max_faulty_of (length (bi_authorities bi)))"
    using assms(2) unfolding bft_threshold_def max_faulty_of_def by arith
qed

theorem node_poll_returns_witness:
  "\<exists>r. poll (instance_context sample_crypto (sample_instance [[1], [2]])) (sample_view [[1], [2]]) = Some r"
  by (rule node_poll_returns [OF sample_view_reached]) (simp add: sample_instance_def)

text \<open>
  C7. A locked authority keeps to its lock: it prepares nothing but the locked digest, and its
  own commit vote is for the digest of a prepare justification it holds, on which it is then
  locked.
\<close>

theorem node_respects_lock:
  assumes "node_view cr bi (st, q, w)"
  shows "(\<forall>l. locked st = Some l \<longrightarrow> own_votes (fst (snd (snd (prepare (instance_context cr bi) (st, q, w)))))
           \<in> {own_votes q, own_votes q @ [Prepare (current_round st) (locked_digest l)]}) \<and>
    (\<forall>v. own_votes (fst (snd (snd (commit (instance_context cr bi) (st, q, w))))) = own_votes q @ [v] \<longrightarrow>
      (\<exists>j. locked (fst (snd (commit (instance_context cr bi) (st, q, w)))) = Some \<lparr>justification = j\<rparr> \<and>
        v = Commit (current_round st) (uj_digest (uncheck j)) \<and>
        length (bi_authorities bi) - max_faulty_of (length (bi_authorities bi)) \<le> length (uj_signatures (uncheck j))))"
proof (intro conjI allI impI)
  show "own_votes (fst (snd (snd (prepare (instance_context cr bi) (st, q, w)))))
      \<in> {own_votes q, own_votes q @ [Prepare (current_round st) (locked_digest l)]}" if "locked st = Some l" for l
    using inst.prepare_lock [OF that] by simp
  have inv: "strat_inv st" "nodes st = length (bi_authorities bi)" "max_faulty st = max_faulty_of (length (bi_authorities bi))"
    using node_view_inv [OF assms] by (auto simp: view_inv_def)
  show "\<exists>j. locked (fst (snd (commit (instance_context cr bi) (st, q, w)))) = Some \<lparr>justification = j\<rparr> \<and>
        v = Commit (current_round st) (uj_digest (uncheck j)) \<and>
        length (bi_authorities bi) - max_faulty_of (length (bi_authorities bi)) \<le> length (uj_signatures (uncheck j))"
    if "own_votes (fst (snd (snd (commit (instance_context cr bi) (st, q, w))))) = own_votes q @ [v]" for v
    using inst.commit_locks [OF inv(1) that] inv(2,3) by (force simp: justified_by_def bft_threshold_def)
qed

definition sample_prepare :: "(nat, nat, authority_id, LocalizedSignature) LocalizedMessage" where
  "sample_prepare = sign_message sample_crypto (Message_Vote (Prepare 0 7)) [2] 9"

definition sample_prepared :: "(nat, nat, authority_id, LocalizedSignature, unit) view" where
  "sample_prepared =
     (let ctx = instance_context sample_crypto (sample_instance [[1], [2]]);
          vw = snd (poll_once ctx (sample_view [[1], [2]]))
      in (import_message ctx sample_prepare (fst vw), fst (snd vw), snd (snd vw)))"

lemma sample_prepared_reached: "node_view sample_crypto (sample_instance [[1], [2]]) sample_prepared"
  unfolding sample_prepared_def Let_def
proof (rule received [where msg = "to_network 9 (Consensus sample_prepare)"])
  have "node_view sample_crypto (sample_instance [[1], [2]])
      (snd (poll_once (instance_context sample_crypto (sample_instance [[1], [2]])) (sample_view [[1], [2]])))"
    by (rule strategy_polled) (rule sample_view_reached)
  then show "node_view sample_crypto (sample_instance [[1], [2]])
      (fst (snd (poll_once (instance_context sample_crypto (sample_instance [[1], [2]])) (sample_view [[1], [2]]))),
       fst (snd (snd (poll_once (instance_context sample_crypto (sample_instance [[1], [2]])) (sample_view [[1], [2]])))),
       snd (snd (snd (poll_once (instance_context sample_crypto (sample_instance [[1], [2]])) (sample_view [[1], [2]])))))"
    by (simp only: prod.collapse)
qed (simp_all add: sample_prepare_def to_network_def process_message_def sign_message_def sign_action_def
      check_vote_def check_action_def sample_crypto_def sample_instance_def round_u32_def)

theorem node_respects_lock_witness:
  "let (st, q, w) = sample_prepared;
       (_, st', q', w') = commit (instance_context sample_crypto (sample_instance [[1], [2]])) (st, q, w)
   in own_votes q' = own_votes q @ [Commit 0 7] \<and>
      (\<exists>j. locked st' = Some \<lparr>justification = j\<rparr> \<and> Commit 0 7 = Commit (current_round st) (uj_digest (uncheck j)) \<and>
        2 \<le> length (uj_signatures (uncheck j)))"
proof -
  obtain st q w where vw: "sample_prepared = (st, q, w)" by (cases sample_prepared)
  let ?r = "commit (instance_context sample_crypto (sample_instance [[1], [2]])) (st, q, w)"
  have votes: "own_votes (fst (snd (snd ?r))) = own_votes q @ [Commit 0 7]"
    using vw by (auto simp: sample_prepared_def sample_prepare_def run_defs)
  have "node_view sample_crypto (sample_instance [[1], [2]]) (st, q, w)"
    using sample_prepared_reached vw by simp
  from node_respects_lock [OF this, THEN conjunct2, rule_format, OF votes] votes show ?thesis
    by (simp add: vw case_prod_unfold) (simp add: sample_instance_def max_faulty_of_def numeral_2_eq_2)
qed

lemma round_u32_unat [simp]: "unat (round_u32 r) = r" if "r < 2 ^ 32"
  using that by (simp add: round_u32_def unat_of_nat)

lemma vote_net_roundtrip: "vote_round_number v < 2 ^ 32 \<Longrightarrow> vote_from_net (vote_to_net v) = v"
  by (cases v) simp_all

lemma check_vote_valid:
  "lv_sender v \<in> set auths \<Longrightarrow> check_action cr (vote_action (lv_vote v)) parent (lv_signature v) = Inr () \<Longrightarrow>
   check_vote cr auths parent v = Inr ()"
  by (simp add: check_vote_iff)

lemma check_proposal_valid:
  "lp_sender p \<in> set auths \<Longrightarrow>
   check_action cr (Action_ProposeHeader (round_u32 (lp_round_number p)) (lp_digest p)) parent (lp_digest_signature p) = Inr () \<Longrightarrow>
   check_action cr (Action_Propose (round_u32 (lp_round_number p)) (lp_proposal p)) parent (lp_full_signature p) = Inr () \<Longrightarrow>
   check_proposal cr auths parent p = Inr ()"
  by (simp add: check_proposal_iff)

text \<open>
  C12. Delivery: a message signed by another authority arrives unchanged through the conversion
  to the network format, the conversion back and all checks, for every round below \<open>2 ^ 32\<close>.
\<close>

theorem network_roundtrip:
  assumes "signatures_verify cr key" "cr_public cr key \<in> set auths" "cr_public cr key \<noteq> my_id"
    and "msg_round_number (sign_message cr m key parent) < 2 ^ 32"
  shows "process_message cr (to_network parent (Consensus (sign_message cr m key parent))) my_id auths
    = Inr (Some (Consensus (sign_message cr m key parent)))"
  using assms
  by (auto simp: process_message_def to_network_def sign_message_def sign_action_def signatures_verify_def
      check_vote_valid check_proposal_valid vote_net_roundtrip Let_def split: Message.splits)

theorem network_roundtrip_witness:
  "process_message sample_crypto (to_network 9 (Consensus (sign_message sample_crypto (Message_Vote (Commit 3 7)) [2] 9)))
     [1] [[1], [2]] = Inr (Some (Consensus (sign_message sample_crypto (Message_Vote (Commit 3 7)) [2] 9)))"
  by (rule network_roundtrip [OF sample_verifies]) (simp_all add: sample_crypto_def sign_message_def)

text \<open>
  C11. Authenticity: a consensus message that gets through was sent by an authority other than
  the local one and carries that authority's own signature on exactly its content and the parent
  block; a lock proof that gets through carries signatures of at least the threshold of
  different authorities on the prepare vote it stands for.
\<close>

theorem process_message_sound:
  assumes "process_message cr msg my_id auths = Inr (Some c)"
  shows "case c of
      Consensus m \<Rightarrow> authenticated cr auths (lbm_parent_hash msg) m \<and> msg_sender m \<noteq> my_id
    | Auxiliary j \<Rightarrow> \<exists>voters. distinct voters \<and> set voters \<subseteq> set auths \<and>
        bft_threshold_of (length auths) \<le> length voters \<and> map ls_signer (uj_signatures (uncheck j)) = voters \<and>
        (\<forall>s\<in>set (uj_signatures (uncheck j)). cr_verify_strong cr (ls_signature s)
           (cr_encode cr \<lparr>pm_parent = lbm_parent_hash msg, pm_action =
              Action_Prepare (round_u32 (uj_round_number (uncheck j))) (uj_digest (uncheck j))\<rparr>) (ls_signer s))"
proof (cases c)
  case (Consensus m)
  with assms process_message_checked [of cr msg my_id auths m] show ?thesis by simp
next
  case (Auxiliary j)
  then obtain a where "check_prepare_justification cr auths (lbm_parent_hash msg) (from_primitive_justification a) = Inr j"
    using assms by (auto simp: process_message_def Let_def split: BftMessage.splits if_splits sum.splits)
  then obtain uj voters where j: "j = Justification uj"
    and v: "distinct voters" "length auths - max_faulty_of (length auths) \<le> length voters"
    "map (\<lambda>sig. if ls_signer sig \<notin> set auths then None
          else if cr_verify_strong cr (ls_signature sig) (cr_encode cr \<lparr>pm_parent = lbm_parent_hash msg,
            pm_action = Action_Prepare (round_u32 (uj_round_number uj)) (uj_digest uj)\<rparr>) (ls_signer sig)
          then Some (ls_signer sig) else None) (uj_signatures uj) = map Some voters"
    by (auto simp: check_prepare_justification_def check_justification_signed_message_def justification_check_iff)
  have *: "map ls_signer sigs = vs \<and> set vs \<subseteq> A \<and> (\<forall>s\<in>set sigs. P s)"
    if "map (\<lambda>s. if ls_signer s \<notin> A then None else if P s then Some (ls_signer s) else None) sigs = map Some vs"
    for sigs :: "LocalizedSignature list" and vs A P
    using that by (induction sigs arbitrary: vs) (auto split: if_splits)
  from * [OF v(3)] v(1,2) show ?thesis unfolding Auxiliary j by (simp add: bft_threshold_of_def)
qed

theorem process_message_sound_witness:
  "authenticated sample_crypto [[1], [2]] 9 (sign_message sample_crypto (Message_Vote (Commit 3 7)) [2] 9) \<and>
   msg_sender (sign_message sample_crypto (Message_Vote (Commit 3 7)) [2] 9) \<noteq> [1]"
  using process_message_sound [of sample_crypto
      "to_network 9 (Consensus (sign_message sample_crypto (Message_Vote (Commit 3 7)) [2] 9))" "[1]" "[[1], [2]]"
      "Consensus (sign_message sample_crypto (Message_Vote (Commit 3 7)) [2] 9)"]
  by (simp add: to_network_def process_message_def sign_message_def sign_action_def check_vote_def check_action_def
      sample_crypto_def round_u32_def)

text \<open>
  C17. The fault bound: with \<open>max_faulty_of n\<close> authorities faulty, fewer than a third of them are;
  the threshold is more than two thirds; and two sets of threshold size always share more
  authorities than can be faulty.
\<close>

theorem threshold_bounds:
  assumes "0 < n"
  shows "3 * max_faulty_of n < n \<and> 2 * n < 3 * bft_threshold_of n \<and>
    (\<forall>U A B. finite U \<and> card U = n \<and> A \<subseteq> U \<and> B \<subseteq> U \<and> bft_threshold_of n \<le> card A \<and>
      bft_threshold_of n \<le> card B \<longrightarrow> max_faulty_of n < card (A \<inter> B))"
proof (intro conjI allI impI)
  show b: "3 * max_faulty_of n < n" "2 * n < 3 * bft_threshold_of n"
    using assms unfolding bft_threshold_of_def max_faulty_of_def by arith+
  show "max_faulty_of n < card (A \<inter> B)" if "finite U \<and> card U = n \<and> A \<subseteq> U \<and> B \<subseteq> U \<and>
    bft_threshold_of n \<le> card A \<and> bft_threshold_of n \<le> card B" for U A B :: "'a set"
    using card_Int_lower_bound [of U A B] that b unfolding bft_threshold_of_def by linarith
qed

theorem threshold_bounds_witness:
  "3 * max_faulty_of 4 < 4 \<and> 2 * 4 < 3 * bft_threshold_of 4 \<and>
   max_faulty_of 4 < card ({0, 1, 2 :: nat} \<inter> {1, 2, 3})"
  using threshold_bounds [of 4, THEN conjunct2, THEN conjunct2, rule_format,
      of "{0, 1, 2, 3 :: nat}" "{0, 1, 2}" "{1, 2, 3}"] threshold_bounds [of 4]
  by (simp add: max_faulty_of_def bft_threshold_of_def)

text \<open>
  C18. The round timeout never wraps: it is \<open>2 ^ min 63 round\<close> seconds times the multiplier, cut
  off at the largest 64-bit value.
\<close>

theorem round_timeout_exact:
  "unat (round_timeout multiplier round) = min (2 ^ 64 - 1) (2 ^ min 63 round * unat multiplier)"
proof -
  have lt: "(2 :: nat) ^ min 63 round < 2 ^ 64" by (rule power_strict_increasing) auto
  have base: "unat ((2 :: 64 word) ^ min 63 round) = 2 ^ min 63 round"
    using lt unat_of_nat [where 'a = 64, of "2 ^ min 63 round"] by simp
  have rt: "round_timeout multiplier round = saturating_mul_u64 (2 ^ min 63 round) multiplier"
    by (simp add: round_timeout_def checked_shl_one_def Let_def min_less_iff_disj push_bit_eq_mult)
  show ?thesis
  proof (cases "2 ^ min 63 round * unat multiplier < (2 :: nat) ^ 64")
    case True
    then have "unat (2 ^ min 63 round * multiplier) = 2 ^ min 63 round * unat multiplier"
      by (simp add: unat_word_ariths base)
    with True show ?thesis unfolding rt saturating_mul_u64_def base by (simp add: min_def)
  next
    case False
    then show ?thesis unfolding rt saturating_mul_u64_def base by (simp add: min_def unsigned_minus_1_eq_mask mask_eq_exp_minus_1)
  qed
qed


section \<open>One agreement at a time\<close>

text \<open>
  The histories of a service: which futures are out, as agreements are started, polled,
  cancelled and dropped.
\<close>

inductive service_history ::
  "('b, 'h, 'k) Crypto \<Rightarrow> 'k \<Rightarrow> ('h, 'k) BftService \<Rightarrow> ('b, 'h, 'k, 'e, 'w) BftFuture list \<Rightarrow> bool"
  for cr key
where
  new: "service_history cr key (service_new key) []"
| built: "service_history cr key svc futs \<Longrightarrow>
    build_upon cr fe hash auths ini svc w = Some (Inr (Some fut), svc', w') \<Longrightarrow>
    service_history cr key svc' (fut # futs)"
| not_built: "service_history cr key svc futs \<Longrightarrow>
    build_upon cr fe hash auths ini svc w = Some (r :: 'e + ('b, 'h, 'k, 'e, 'w) BftFuture option, svc', w') \<Longrightarrow> r = Inr None \<or> isl r \<Longrightarrow>
    service_history cr key svc' futs"
| cancelled: "service_history cr key svc futs \<Longrightarrow> cancel_agreement svc = Some svc' \<Longrightarrow>
    service_history cr key svc' futs"
| future_polled: "service_history cr key svc (futsA @ fut # futsB) \<Longrightarrow>
    future_poll cr io fut svc w = Some (r, fut', svc', w') \<Longrightarrow>
    service_history cr key svc' (futsA @ fut' # futsB)"
| dropped: "service_history cr key svc (futsA @ fut # futsB) \<Longrightarrow>
    future_drop fut svc = (mb, svc') \<Longrightarrow> service_history cr key svc' (futsA @ futsB)"

definition future_ok_in :: "('h, 'k) BftService \<Rightarrow> ('b, 'h, 'k, 'e, 'w) BftFuture \<Rightarrow> bool" where
  "future_ok_in svc fut \<longleftrightarrow> cancel fut < next_cell svc \<and>
     (\<exists>c. map_of (cells svc) (cancel fut) = Some c \<and>
        cell_task c = (if send_task fut then Pending else Sent) \<and>
        (cell_cancel c \<or> (\<exists>h. live_agreement svc = Some (h, cancel fut))))"

definition history_inv :: "('h, 'k) BftService \<Rightarrow> ('b, 'h, 'k, 'e, 'w) BftFuture list \<Rightarrow> bool" where
  "history_inv svc futs \<longleftrightarrow> distinct (map cancel futs) \<and> (\<forall>fut\<in>set futs. future_ok_in svc fut) \<and>
     (\<forall>h i. live_agreement svc = Some (h, i) \<longrightarrow> i < next_cell svc \<and> map_of (cells svc) i \<noteq> None)"

lemma drop_live_frame:
  assumes "drop_live l svc = Some svc'"
  shows "live_agreement svc' = live_agreement svc" "next_cell svc' = next_cell svc"
    "map_of (cells svc') i = None \<longleftrightarrow> map_of (cells svc) i = None"
    "\<And>j h. l = Some (h, j) \<Longrightarrow> i \<noteq> j \<Longrightarrow> map_of (cells svc') i = map_of (cells svc) i"
    "l = None \<Longrightarrow> svc' = svc"
  using assms
  by (auto simp: drop_live_def drop_handle_def map_simps split: option.splits oneshot.splits if_splits)

lemma drop_live_inv:
  assumes inv: "history_inv svc futs" and live: "live_agreement svc' = None \<or> (\<exists>h. live_agreement svc' = Some (h, next_cell svc))"
    and svc': "next_cell svc \<le> next_cell svc'" "\<And>i. i < next_cell svc \<Longrightarrow> map_of (cells svc') i = map_of (cells svc) i"
    and d: "drop_live (live_agreement svc) svc' = Some svc''" and fut: "fut \<in> set futs"
  shows "future_ok_in svc'' fut"
proof -
  from inv fut obtain c where c: "cancel fut < next_cell svc" "map_of (cells svc) (cancel fut) = Some c"
    "cell_task c = (if send_task fut then Pending else Sent)"
    "cell_cancel c \<or> (\<exists>h. live_agreement svc = Some (h, cancel fut))"
    by (auto simp: history_inv_def future_ok_in_def)
  show ?thesis
  proof (cases "\<exists>h. live_agreement svc = Some (h, cancel fut)")
    case True
    then have "drop_handle (cancel fut) svc' = Some svc''" using d by (auto simp: drop_live_def)
    with c svc' show ?thesis
      by (auto simp: drop_handle_def future_ok_in_def map_simps split: oneshot.splits if_splits)
  next
    case False
    with c have cc: "cell_cancel c" by simp
    have "map_of (cells svc'') (cancel fut) = map_of (cells svc') (cancel fut)"
      using d drop_live_frame(4,5) [OF d] False by (cases "live_agreement svc") auto
    with c svc' cc drop_live_frame(2) [OF d] show ?thesis by (auto simp: future_ok_in_def)
  qed
qed


lemma distinct_map_middle:
  assumes "distinct (map g (xs @ a # ys))" "x \<in> set xs \<union> set ys"
  shows "g x \<noteq> g a"
proof
  assume "g x = g a"
  moreover have "g x \<in> g ` (set xs \<union> set ys)" using assms(2) by (rule imageI)
  ultimately show False using assms(1) by (simp add: image_Un)
qed

lemma future_ok_in_cong:
  assumes "future_ok_in svc fut" "live_agreement svc' = live_agreement svc" "next_cell svc' = next_cell svc"
    "map_of (cells svc') (cancel fut) = map_of (cells svc) (cancel fut)"
  shows "future_ok_in svc' fut"
  using assms by (simp add: future_ok_in_def)

lemma history_inv_cancel:
  assumes inv: "history_inv svc futs" and c: "cancel_agreement svc = Some svc'"
  shows "history_inv svc' futs"
proof -
  have d: "drop_live (live_agreement svc) (svc\<lparr>live_agreement := None\<rparr>) = Some svc'"
    using c by (simp add: cancel_agreement_def)
  have "future_ok_in svc' fut" if "fut \<in> set futs" for fut
    by (rule drop_live_inv [OF inv _ _ _ d that]) auto
  with inv drop_live_frame(1) [OF d] show ?thesis by (simp add: history_inv_def)
qed

lemma history_inv_start:
  assumes inv: "history_inv svc futs"
    and svc1: "svc1 = svc\<lparr>live_agreement := Some (hash, next_cell svc), next_cell := next_cell svc + 1,
        cells := AList.update (next_cell svc) \<lparr>cell_cancel = False, cell_task = Pending\<rparr> (cells svc)\<rparr>"
    and d: "drop_live (live_agreement svc) svc1 = Some svc'"
    and fut: "cancel fut = next_cell svc" "send_task fut"
  shows "history_inv svc' (fut # futs)"
proof -
  have old: "future_ok_in svc' f" if "f \<in> set futs" for f
    by (rule drop_live_inv [OF inv _ _ _ d that]) (auto simp: svc1 map_simps)
  have live: "live_agreement svc' = Some (hash, next_cell svc)" "next_cell svc' = next_cell svc + 1"
    using drop_live_frame(1,2) [OF d] by (simp_all add: svc1)
  have "j \<noteq> next_cell svc" if "live_agreement svc = Some (h, j)" for h j
    using inv that by (auto simp: history_inv_def)
  then have "map_of (cells svc') (next_cell svc) = map_of (cells svc1) (next_cell svc)"
    using drop_live_frame(5) [OF d] drop_live_frame(4) [OF d, where i = "next_cell svc"] by (cases "live_agreement svc") fastforce+
  then have cell: "map_of (cells svc') (next_cell svc) = Some \<lparr>cell_cancel = False, cell_task = Pending\<rparr>"
    by (simp add: svc1 map_simps)
  have "cancel fut \<notin> cancel ` set futs"
    using inv fut(1) by (auto simp: history_inv_def future_ok_in_def)
  then show ?thesis
    using inv old live cell fut by (auto simp: history_inv_def future_ok_in_def)
qed

lemma history_inv_build:
  assumes inv: "history_inv svc futs" and b: "build_upon cr fe hash auths ini svc w = Some (r, svc', w')"
  shows "r = Inr (Some fut) \<Longrightarrow> history_inv svc' (fut # futs)"
    and "r = Inr None \<or> isl r \<Longrightarrow> history_inv svc' futs"
  using b inv
  by (auto simp: build_upon_def Let_def split: if_splits sum.splits prod.splits
      intro: history_inv_cancel [OF inv] intro!: history_inv_start [OF inv refl])

lemma history_inv_poll:
  assumes inv: "history_inv svc (futsA @ fut # futsB)"
    and p: "future_poll cr io fut svc w = Some (r, fut', svc', w')"
  shows "history_inv svc' (futsA @ fut' # futsB)"
proof -
  obtain c where c: "map_of (cells svc) (cancel fut) = Some c"
    "cell_task c = (if send_task fut then Pending else Sent)"
    "cell_cancel c \<or> (\<exists>h. live_agreement svc = Some (h, cancel fut))" "cancel fut < next_cell svc"
    using inv by (auto simp: history_inv_def future_ok_in_def)
  let ?c = "if send_task fut then c\<lparr>cell_task := Sent\<rparr> else c"
  have svc': "svc' = svc\<lparr>cells := AList.update (cancel fut) ?c (cells svc)\<rparr>"
    and fut': "cancel fut' = cancel fut" "\<not> send_task fut'"
    using p c(1) by (auto simp: future_poll_def Let_def split: if_splits)
  have "future_ok_in svc' f" if "f \<in> set futsA \<union> set futsB" for f
  proof (rule future_ok_in_cong [of svc])
    show "future_ok_in svc f" using inv that by (auto simp: history_inv_def)
    have "cancel f \<noteq> cancel fut"
      using inv that by (intro distinct_map_middle [of cancel futsA fut futsB]) (auto simp: history_inv_def)
    then show "map_of (cells svc') (cancel f) = map_of (cells svc) (cancel f)" by (simp add: svc' map_simps)
  qed (simp_all add: svc')
  moreover have "future_ok_in svc' fut'"
    using c fut' by (auto simp: future_ok_in_def svc' map_simps)
  ultimately show ?thesis
    using inv fut' by (auto simp: history_inv_def svc' map_simps)
qed

lemma history_inv_drop:
  assumes inv: "history_inv svc (futsA @ fut # futsB)" and d: "future_drop fut svc = (mb, svc')"
  shows "history_inv svc' (futsA @ futsB)"
proof -
  have frame: "live_agreement svc' = live_agreement svc" "next_cell svc' = next_cell svc"
    "\<And>i. i \<noteq> cancel fut \<Longrightarrow> map_of (cells svc') i = map_of (cells svc) i"
    "\<And>i. map_of (cells svc') i = None \<longleftrightarrow> map_of (cells svc) i = None"
    using d by (auto simp: future_drop_def map_simps split: if_splits option.splits)
  have "future_ok_in svc' f" if "f \<in> set futsA \<union> set futsB" for f
  proof (rule future_ok_in_cong [of svc])
    show "future_ok_in svc f" using inv that by (auto simp: history_inv_def)
    have "cancel f \<noteq> cancel fut"
      using inv that by (intro distinct_map_middle [of cancel futsA fut futsB]) (auto simp: history_inv_def)
    then show "map_of (cells svc') (cancel f) = map_of (cells svc) (cancel f)" by (rule frame(3))
  qed (simp_all add: frame)
  with inv frame(1,2,4) show ?thesis by (auto simp: history_inv_def)
qed

lemma service_history_inv: "service_history cr key svc futs \<Longrightarrow> history_inv svc futs"
proof (induction rule: service_history.induct)
  case new
  then show ?case by (simp add: history_inv_def service_new_def)
qed (blast intro: history_inv_build history_inv_cancel history_inv_poll history_inv_drop)+

text \<open>
  C8. One agreement at a time: a future of the service that is not its live agreement any more
  (because another block was built upon, the agreement was cancelled, or the node is no longer an
  authority) finishes at its next poll without voting and without importing a block.
\<close>

theorem preempted_future_finishes:
  assumes "service_history cr key svc futs" "fut \<in> set futs"
    and "\<nexists>h. live_agreement svc = Some (h, cancel fut)"
  shows "\<exists>fut' svc'. future_poll cr io fut svc w = Some (Inr (Some None), fut', svc', w) \<and> inner fut' = inner fut"
  using service_history_inv [OF assms(1)] assms(2,3)
  by (auto simp: history_inv_def future_ok_in_def future_poll_def Let_def)

definition sample_service :: "(nat, authority_id) BftService" where
  "sample_service = \<lparr>live_agreement = Some (9, 0), cells = [(0, \<lparr>cell_cancel = False, cell_task = Pending\<rparr>)],
     next_cell = 1, round_timeout_multiplier = 4, svc_key = [1]\<rparr>"

definition sample_future :: "bool \<Rightarrow> (nat, nat, authority_id, unit, unit) BftFuture" where
  "sample_future st = \<lparr>inner = fst (agree (instance_context sample_crypto (sample_instance [[1], [2]])) 2 0 ()),
     bf_instance = sample_instance [[1], [2]], cancel = 0, send_task = st\<rparr>"

lemma sample_future_built:
  "build_upon sample_crypto (\<lambda>e. ()) 9 (Inr [[1], [2]]) (\<lambda>_. Inr sample_env) (service_new [1]) ()
     = Some (Inr (Some (sample_future True)), sample_service, ())"
  by (simp add: build_upon_def live_agreement_hash_def service_new_def agree_def strategy_create_def Let_def
      sample_crypto_def instance_context_def sample_instance_def sample_future_def sample_service_def drop_live_def
      max_faulty_of_def sample_env_def numeral_2_eq_2)

lemma sample_future_polled:
  "future_poll sample_crypto \<lparr>poll_input = (\<lambda>w. (Inl (), w)), io_output = s, input_stream_concluded = ()\<rparr>
       (sample_future True) sample_service ()
     = Some (Inl (), sample_future False,
         sample_service\<lparr>cells := [(0, \<lparr>cell_cancel = False, cell_task = Sent\<rparr>)]\<rparr>, ())"
  by (simp add: future_poll_def sample_service_def sample_future_def Let_def agreement_poll_def agree_def
      strategy_create_def with_capacity_def drive.simps handle_input_def)

theorem preempted_future_finishes_witness:
  "\<exists>svc. cancel_agreement (sample_service\<lparr>cells := [(0, \<lparr>cell_cancel = False, cell_task = Sent\<rparr>)]\<rparr>) = Some svc \<and>
     (\<exists>fut' svc'. future_poll sample_crypto
        \<lparr>poll_input = (\<lambda>w. (Inl (), w)), io_output = undefined, input_stream_concluded = ()\<rparr>
        (sample_future False) svc () = Some (Inr (Some None), fut', svc', ()) \<and> inner fut' = inner (sample_future False))"
proof -
  let ?svc = "sample_service\<lparr>cells := [(0, \<lparr>cell_cancel = False, cell_task = Sent\<rparr>)]\<rparr>"
  let ?svc' = "sample_service\<lparr>live_agreement := None, cells := [(0, \<lparr>cell_cancel = True, cell_task = Sent\<rparr>)]\<rparr>"
  have "service_history sample_crypto [1] sample_service [sample_future True]"
    by (rule built [OF new sample_future_built])
  then have "service_history sample_crypto [1] ?svc ([] @ [sample_future False])"
    by (intro future_polled [where futsA = "[]" and futsB = "[]" and fut = "sample_future True", OF _ sample_future_polled [where s = undefined]]) simp
  moreover have c: "cancel_agreement ?svc = Some ?svc'"
    by (simp add: cancel_agreement_def sample_service_def drop_live_def drop_handle_def)
  ultimately have "service_history sample_crypto [1] ?svc' [sample_future False]"
    using cancelled by fastforce
  then have "\<exists>fut' svc'. future_poll sample_crypto
        \<lparr>poll_input = (\<lambda>w. (Inl (), w)), io_output = undefined, input_stream_concluded = ()\<rparr>
        (sample_future False) ?svc' () = Some (Inr (Some None), fut', svc', ()) \<and> inner fut' = inner (sample_future False)"
    by (rule preempted_future_finishes) (simp_all add: sample_service_def)
  with c show ?thesis by blast
qed

end
