(* ===== verification/Statement_Table.thy ===== *)
theory Statement_Table
  imports Prelude "HOL-Library.Sublist"
begin

text \<open>
  The statement table (\<^verbatim>\<open>polkadot/statement-table/src/generic.rs\<close>): the statements authorities make
  about parachain candidates, the detection of misbehaviour, the selection of candidates for a
  proposal and the batching of statements for other authorities.

  The \<^verbatim>\<open>Context\<close> trait is a record of functions and a parameter of every operation.  The two
  places where the code panics (an absent candidate behind an earlier proposal, an issuance vote
  by a non-member) are the result \<^const>\<open>None\<close>.
\<close>

section \<open>Statements\<close>

record ('c, 'd, 'g, 'v) TableContext =
  tc_candidate_digest :: "'c \<Rightarrow> 'd"
  tc_candidate_group :: "'c \<Rightarrow> 'g"
  tc_is_member_of :: "'v \<Rightarrow> 'g \<Rightarrow> bool"
  tc_is_availability_guarantor_of :: "'v \<Rightarrow> 'g \<Rightarrow> bool"
  tc_requisite_votes :: "'g \<Rightarrow> usize \<times> usize"

datatype ('c, 'd) Statement =
    Candidate 'c
  | Valid 'd
  | Available 'd
  | Invalid 'd

record ('c, 'd, 'v, 's) SignedStatement =
  ss_statement :: "('c, 'd) Statement"
  ss_signature :: 's
  ss_sender :: 'v

datatype ('v, 'd) StatementTrace =
    Trace_Candidate 'v
  | Trace_Valid 'v 'd
  | Trace_Invalid 'v 'd
  | Trace_Available 'v 'd

datatype ('c, 'd, 's) ValidityDoubleVote =
    IssuedAndValidity "'c \<times> 's" "'d \<times> 's"
  | IssuedAndInvalidity "'c \<times> 's" "'d \<times> 's"
  | ValidityAndInvalidity 'd 's 's

record ('c, 's) MultipleCandidates =
  mc_first :: "'c \<times> 's"
  mc_second :: "'c \<times> 's"

datatype ('c, 'd, 'v, 's) TableMisbehavior =
    Mb_ValidityDoubleVote "('c, 'd, 's) ValidityDoubleVote"
  | Mb_MultipleCandidates "('c, 's) MultipleCandidates"
  | Mb_UnauthorizedStatement "('c, 'd, 'v, 's) SignedStatement"

datatype 's ValidityVote = VV_Issued 's | VV_Valid 's | VV_Invalid 's

record ('d, 'g) Summary =
  sm_candidate :: 'd
  sm_group_id :: 'g
  sm_validity_votes :: usize
  sm_availability_votes :: usize
  sm_signalled_bad :: bool


section \<open>Candidates\<close>

record ('c, 'g, 'v, 's) CandidateData =
  cd_group_id :: 'g
  cd_candidate :: 'c
  cd_validity_votes :: "('v, 's ValidityVote) hmap"
  cd_availability_votes :: "('v, 's) hmap"
  cd_indicated_bad_by :: "'v list"

definition indicated_bad :: "('c, 'g, 'v, 's) CandidateData \<Rightarrow> bool" where
  "indicated_bad cd \<longleftrightarrow> cd_indicated_bad_by cd \<noteq> []"

definition can_be_included :: "('c, 'g, 'v, 's) CandidateData \<Rightarrow> usize \<times> usize \<Rightarrow> bool" where
  "can_be_included cd thresholds \<longleftrightarrow>
     cd_indicated_bad_by cd = [] \<and>
     fst thresholds \<le> length (cd_validity_votes cd) \<and>
     snd thresholds \<le> length (cd_availability_votes cd)"

definition summary :: "('c, 'g, 'v, 's) CandidateData \<Rightarrow> 'd \<Rightarrow> ('d, 'g) Summary" where
  "summary cd digest =
     \<lparr>sm_candidate = digest, sm_group_id = cd_group_id cd,
      sm_validity_votes = length (cd_validity_votes cd) - length (cd_indicated_bad_by cd),
      sm_availability_votes = length (cd_availability_votes cd),
      sm_signalled_bad = indicated_bad cd\<rparr>"

record ('d, 'v, 's) AuthorityData =
  ad_proposal :: "('d \<times> 's) option"
  ad_known_statements :: "('v, 'd) StatementTrace hset"

definition AuthorityData_default :: "('d, 'v, 's) AuthorityData" where
  "AuthorityData_default = \<lparr>ad_proposal = None, ad_known_statements = []\<rparr>"

record ('c, 'd, 'g, 'v, 's) Table =
  authority_data :: "('v, ('d, 'v, 's) AuthorityData) hmap"
  detected_misbehavior :: "('v, ('c, 'd, 'v, 's) TableMisbehavior) hmap"
  candidate_votes :: "('d, ('c, 'g, 'v, 's) CandidateData) hmap"
  includable_count :: "('g, usize) hmap"

definition Table_default :: "('c, 'd, 'g, 'v, 's) Table" where
  "Table_default = \<lparr>authority_data = [], detected_misbehavior = [], candidate_votes = [], includable_count = []\<rparr>"


section \<open>Votes\<close>

definition update_includable_count :: "'g \<Rightarrow> bool \<Rightarrow> bool \<Rightarrow> ('g, usize) hmap \<Rightarrow> ('g, usize) hmap" where
  "update_includable_count group_id was_includable is_includable m =
     (let m1 =
        (if was_includable \<and> \<not> is_includable then
           (case map_of m group_id of
              Some n \<Rightarrow> if n - 1 = 0 then AList.delete group_id m else AList.update group_id (n - 1) m
            | None \<Rightarrow> m)
         else m)
      in if \<not> was_includable \<and> is_includable then
           AList.update group_id ((case map_of m1 group_id of Some n \<Rightarrow> n | None \<Rightarrow> 0) + 1) m1
         else m1)"

type_synonym ('c, 'd, 'g, 'v, 's) vote_result =
  "(('c, 'd, 'v, 's) TableMisbehavior option \<times> ('d, 'g) Summary option \<times> ('c, 'd, 'g, 'v, 's) Table) option"

text \<open>The proof of a double vote; \<^const>\<open>None\<close> for two votes of the same kind.\<close>

fun double_vote_proof ::
  "'c \<Rightarrow> 'd \<Rightarrow> 's ValidityVote \<Rightarrow> 's ValidityVote \<Rightarrow> ('c, 'd, 's) ValidityDoubleVote option"
where
  "double_vote_proof c d (VV_Issued iss) (VV_Valid good) = Some (IssuedAndValidity (c, iss) (d, good))"
| "double_vote_proof c d (VV_Valid good) (VV_Issued iss) = Some (IssuedAndValidity (c, iss) (d, good))"
| "double_vote_proof c d (VV_Issued iss) (VV_Invalid bad) = Some (IssuedAndInvalidity (c, iss) (d, bad))"
| "double_vote_proof c d (VV_Invalid bad) (VV_Issued iss) = Some (IssuedAndInvalidity (c, iss) (d, bad))"
| "double_vote_proof c d (VV_Valid good) (VV_Invalid bad) = Some (ValidityAndInvalidity d good bad)"
| "double_vote_proof c d (VV_Invalid bad) (VV_Valid good) = Some (ValidityAndInvalidity d good bad)"
| "double_vote_proof c d _ _ = None"

text \<open>Recording an accepted vote and bringing the count of includable candidates up to date.\<close>

definition record_vote ::
  "('c, 'd, 'g, 'v) TableContext \<Rightarrow> 'd \<Rightarrow> ('c, 'g, 'v, 's) CandidateData \<Rightarrow> ('c, 'g, 'v, 's) CandidateData
   \<Rightarrow> ('c, 'd, 'g, 'v, 's) Table \<Rightarrow> ('c, 'd, 'g, 'v, 's) vote_result"
where
  "record_vote ctx digest votes votes' t =
     (let thresholds = tc_requisite_votes ctx (cd_group_id votes);
          was_includable = can_be_included votes thresholds;
          is_includable = can_be_included votes' thresholds
      in Some (None, Some (summary votes' digest),
           t\<lparr>candidate_votes := AList.update digest votes' (candidate_votes t),
             includable_count :=
               update_includable_count (cd_group_id votes) was_includable is_includable (includable_count t)\<rparr>))"

definition validity_vote ::
  "('c, 'd, 'g, 'v) TableContext \<Rightarrow> 'v \<Rightarrow> 'd \<Rightarrow> 's ValidityVote \<Rightarrow> ('c, 'd, 'g, 'v, 's) Table
   \<Rightarrow> ('c, 'd, 'g, 'v, 's) vote_result"
where
  "validity_vote ctx from digest vote t =
     (case map_of (candidate_votes t) digest of
        None \<Rightarrow> Some (None, None, t)
      | Some votes \<Rightarrow>
          if \<not> tc_is_member_of ctx from (cd_group_id votes) then
            (case vote of
               VV_Valid s \<Rightarrow> Some (Some (Mb_UnauthorizedStatement
                 \<lparr>ss_statement = Valid digest, ss_signature = s, ss_sender = from\<rparr>), None, t)
             | VV_Invalid s \<Rightarrow> Some (Some (Mb_UnauthorizedStatement
                 \<lparr>ss_statement = Invalid digest, ss_signature = s, ss_sender = from\<rparr>), None, t)
             | VV_Issued _ \<Rightarrow> None)
          else
            (case map_of (cd_validity_votes votes) from of
               Some occ \<Rightarrow>
                 if occ \<noteq> vote then
                   (case double_vote_proof (cd_candidate votes) digest occ vote of
                      Some p \<Rightarrow> Some (Some (Mb_ValidityDoubleVote p), None, t)
                    | None \<Rightarrow> Some (None, None, t))
                 else Some (None, None, t)
             | None \<Rightarrow>
                 record_vote ctx digest votes
                   (votes\<lparr>cd_indicated_bad_by :=
                      (case vote of VV_Invalid _ \<Rightarrow> cd_indicated_bad_by votes @ [from]
                       | _ \<Rightarrow> cd_indicated_bad_by votes),
                    cd_validity_votes := AList.update from vote (cd_validity_votes votes)\<rparr>) t))"

definition availability_vote ::
  "('c, 'd, 'g, 'v) TableContext \<Rightarrow> 'v \<Rightarrow> 'd \<Rightarrow> 's \<Rightarrow> ('c, 'd, 'g, 'v, 's) Table
   \<Rightarrow> ('c, 'd, 'g, 'v, 's) vote_result"
where
  "availability_vote ctx from digest sig t =
     (case map_of (candidate_votes t) digest of
        None \<Rightarrow> Some (None, None, t)
      | Some votes \<Rightarrow>
          if \<not> tc_is_availability_guarantor_of ctx from (cd_group_id votes) then
            Some (Some (Mb_UnauthorizedStatement
              \<lparr>ss_statement = Available digest, ss_signature = sig, ss_sender = from\<rparr>), None, t)
          else
            record_vote ctx digest votes
              (votes\<lparr>cd_availability_votes := AList.update from sig (cd_availability_votes votes)\<rparr>) t)"

text \<open>
  The first half of \<^verbatim>\<open>import_candidate\<close>: what the authority proposed before.  \<open>Inl\<close> carries the
  misbehaviour, \<open>Inr\<close> whether the proposal is new and the table in which it is noted.
\<close>

definition note_proposal ::
  "'v \<Rightarrow> 'c \<Rightarrow> 'd \<Rightarrow> 's \<Rightarrow> ('c, 'd, 'g, 'v, 's) Table
   \<Rightarrow> (('c, 'd, 'v, 's) TableMisbehavior + (bool \<times> ('c, 'd, 'g, 'v, 's) Table)) option"
where
  "note_proposal from c digest sig t =
     (let existing = (case map_of (authority_data t) from of
            Some x \<Rightarrow> x | None \<Rightarrow> AuthorityData_default)
      in case ad_proposal existing of
           Some (old_digest, old_sig) \<Rightarrow>
             if old_digest \<noteq> digest then
               (case map_of (candidate_votes t) old_digest of
                  None \<Rightarrow> None
                | Some old \<Rightarrow> Some (Inl (Mb_MultipleCandidates
                    \<lparr>mc_first = (cd_candidate old, old_sig), mc_second = (c, sig)\<rparr>)))
             else Some (Inr (False, t))
         | None \<Rightarrow>
             Some (Inr (True, t\<lparr>authority_data :=
               AList.update from (existing\<lparr>ad_proposal := Some (digest, sig)\<rparr>) (authority_data t)\<rparr>)))"

definition import_candidate ::
  "('c, 'd, 'g, 'v) TableContext \<Rightarrow> 'v \<Rightarrow> 'c \<Rightarrow> 's \<Rightarrow> ('c, 'd, 'g, 'v, 's) Table
   \<Rightarrow> ('c, 'd, 'g, 'v, 's) vote_result"
where
  "import_candidate ctx from c sig t =
     (let group = tc_candidate_group ctx c
      in if \<not> tc_is_member_of ctx from group then
           Some (Some (Mb_UnauthorizedStatement
             \<lparr>ss_statement = Candidate c, ss_signature = sig, ss_sender = from\<rparr>), None, t)
         else
           (let digest = tc_candidate_digest ctx c
            in case note_proposal from c digest sig t of
                 None \<Rightarrow> None
               | Some (Inl mb) \<Rightarrow> Some (Some mb, None, t)
               | Some (Inr (new_proposal, t1)) \<Rightarrow>
                   (let t2 =
                      (if new_proposal \<and> map_of (candidate_votes t1) digest = None then
                         t1\<lparr>candidate_votes := AList.update digest
                           \<lparr>cd_group_id = group, cd_candidate = c, cd_validity_votes = [],
                            cd_availability_votes = [], cd_indicated_bad_by = []\<rparr> (candidate_votes t1)\<rparr>
                       else t1)
                    in validity_vote ctx from digest (VV_Issued sig) t2)))"

definition note_trace_seen ::
  "('v, 'd) StatementTrace \<Rightarrow> 'v \<Rightarrow> ('c, 'd, 'g, 'v, 's) Table \<Rightarrow> ('c, 'd, 'g, 'v, 's) Table"
where
  "note_trace_seen trace known_by t =
     (let d = (case map_of (authority_data t) known_by of Some x \<Rightarrow> x | None \<Rightarrow> AuthorityData_default)
      in t\<lparr>authority_data := AList.update known_by
           (d\<lparr>ad_known_statements := List.insert trace (ad_known_statements d)\<rparr>) (authority_data t)\<rparr>)"

fun statement_trace :: "'v \<Rightarrow> ('c, 'd) Statement \<Rightarrow> ('v, 'd) StatementTrace" where
  "statement_trace signer (Candidate _) = Trace_Candidate signer"
| "statement_trace signer (Valid d) = Trace_Valid signer d"
| "statement_trace signer (Invalid d) = Trace_Invalid signer d"
| "statement_trace signer (Available d) = Trace_Available signer d"

fun dispatch_statement ::
  "('c, 'd, 'g, 'v) TableContext \<Rightarrow> 'v \<Rightarrow> 's \<Rightarrow> ('c, 'd) Statement \<Rightarrow> ('c, 'd, 'g, 'v, 's) Table
   \<Rightarrow> ('c, 'd, 'g, 'v, 's) vote_result"
where
  "dispatch_statement ctx signer sig (Candidate c) t = import_candidate ctx signer c sig t"
| "dispatch_statement ctx signer sig (Valid d) t = validity_vote ctx signer d (VV_Valid sig) t"
| "dispatch_statement ctx signer sig (Invalid d) t = validity_vote ctx signer d (VV_Invalid sig) t"
| "dispatch_statement ctx signer sig (Available d) t = availability_vote ctx signer d sig t"

definition import_statement ::
  "('c, 'd, 'g, 'v) TableContext \<Rightarrow> ('c, 'd, 'v, 's) SignedStatement \<Rightarrow> 'v option
   \<Rightarrow> ('c, 'd, 'g, 'v, 's) Table \<Rightarrow> (('d, 'g) Summary option \<times> ('c, 'd, 'g, 'v, 's) Table) option"
where
  "import_statement ctx st from t =
     (let signer = ss_sender st;
          trace = statement_trace signer (ss_statement st)
      in map_option (\<lambda>(maybe_misbehavior, maybe_summary, t').
           (maybe_summary,
            (case maybe_misbehavior of
               Some mb \<Rightarrow> t'\<lparr>detected_misbehavior := AList.update signer mb (detected_misbehavior t')\<rparr>
             | None \<Rightarrow>
                 note_trace_seen trace signer
                   (case from of Some f \<Rightarrow> note_trace_seen trace f t' | None \<Rightarrow> t'))))
         (dispatch_statement ctx signer (ss_signature st) (ss_statement st) t))"


section \<open>Queries\<close>

definition candidate_includable ::
  "'d \<Rightarrow> ('c, 'd, 'g, 'v) TableContext \<Rightarrow> ('c, 'd, 'g, 'v, 's) Table \<Rightarrow> bool"
where
  "candidate_includable digest ctx t =
     (case map_of (candidate_votes t) digest of
        None \<Rightarrow> False
      | Some cd \<Rightarrow> can_be_included cd (tc_requisite_votes ctx (cd_group_id cd)))"

definition get_candidate :: "'d \<Rightarrow> ('c, 'd, 'g, 'v, 's) Table \<Rightarrow> 'c option" where
  "get_candidate digest t = map_option cd_candidate (map_of (candidate_votes t) digest)"

definition includable_count_len :: "('c, 'd, 'g, 'v, 's) Table \<Rightarrow> usize" where
  "includable_count_len t = length (includable_count t)"

text \<open>
  The body of the loop of \<^verbatim>\<open>proposed_candidates\<close> over a \<^verbatim>\<open>BTreeMap\<close> from groups to candidates; its
  values are read in the order of the groups.
\<close>

definition consider_candidate ::
  "('c, 'd, 'g, 'v) TableContext \<Rightarrow> ('c, 'd, 'g, 'v, 's) Table \<Rightarrow> ('c, 'g, 'v, 's) CandidateData
   \<Rightarrow> ('g, 'c :: linorder) btmap \<Rightarrow> ('g, 'c) btmap"
where
  "consider_candidate ctx t cd best =
     (let group_id = cd_group_id cd
      in if map_of (includable_count t) group_id = None then best
         else if \<not> can_be_included cd (tc_requisite_votes ctx group_id) then best
         else case map_of best group_id of
           Some c \<Rightarrow> if c > cd_candidate cd then AList.update group_id (cd_candidate cd) best else best
         | None \<Rightarrow> AList.update group_id (cd_candidate cd) best)"

definition best_candidates ::
  "('c :: linorder, 'd, 'g, 'v) TableContext \<Rightarrow> ('c, 'd, 'g, 'v, 's) Table \<Rightarrow> ('g, 'c) btmap"
where
  "best_candidates ctx t = fold (\<lambda>(_, cd). consider_candidate ctx t cd) (candidate_votes t) []"

definition proposed_candidates ::
  "('c :: linorder, 'd, 'g :: linorder, 'v) TableContext \<Rightarrow> ('c, 'd, 'g, 'v, 's) Table \<Rightarrow> 'c list"
where
  "proposed_candidates ctx t = map snd (sort_key fst (best_candidates ctx t))"


section \<open>Filling a batch\<close>

text \<open>\<^verbatim>\<open>StatementBatch\<close>: the targets, and pushing a statement, which fails when the batch is full.\<close>

record ('v, 'm, 'b) StatementBatch =
  targets :: "'b \<Rightarrow> 'v list"
  batch_push :: "'m \<Rightarrow> 'b \<Rightarrow> bool \<times> 'b"

text \<open>
  The data of the targets is moved out of the table before the loop and written back after it,
  on every way out.
\<close>

fun take_target_data ::
  "'v list \<Rightarrow> ('v, ('d, 'v, 's) AuthorityData) hmap
   \<Rightarrow> ('v \<times> ('d, 'v, 's) AuthorityData) list \<times> ('v, ('d, 'v, 's) AuthorityData) hmap"
where
  "take_target_data [] ad = ([], ad)"
| "take_target_data (target # rest) ad =
     (let (active, ad1) =
        (case map_of ad target of
           None \<Rightarrow> (AuthorityData_default, ad)
         | Some x \<Rightarrow> (x, AList.update target AuthorityData_default ad));
          (td, ad2) = take_target_data rest ad1
      in ((target, active) # td, ad2))"

definition restore_target_data ::
  "('v \<times> ('d, 'v, 's) AuthorityData) list \<Rightarrow> ('v, ('d, 'v, 's) AuthorityData) hmap
   \<Rightarrow> ('v, ('d, 'v, 's) AuthorityData) hmap"
where
  "restore_target_data td ad = fold (\<lambda>(i, d). AList.update i d) td ad"

definition note_known :: "('v, 'd) StatementTrace \<Rightarrow> ('d, 'v, 's) AuthorityData \<Rightarrow> ('d, 'v, 's) AuthorityData" where
  "note_known trace d = d\<lparr>ad_known_statements := List.insert trace (ad_known_statements d)\<rparr>"

text \<open>The statements of one candidate in the order the loop visits them: issuance, votes, availability.\<close>

fun vote_statement ::
  "'d \<Rightarrow> 'c \<Rightarrow> 'v \<times> 's ValidityVote \<Rightarrow> ('v, 'd) StatementTrace \<times> ('c, 'd, 'v, 's) SignedStatement"
where
  "vote_statement digest c (sender, VV_Issued sig) =
     (Trace_Candidate sender, \<lparr>ss_statement = Candidate c, ss_signature = sig, ss_sender = sender\<rparr>)"
| "vote_statement digest c (sender, VV_Valid sig) =
     (Trace_Valid sender digest, \<lparr>ss_statement = Valid digest, ss_signature = sig, ss_sender = sender\<rparr>)"
| "vote_statement digest c (sender, VV_Invalid sig) =
     (Trace_Invalid sender digest, \<lparr>ss_statement = Invalid digest, ss_signature = sig, ss_sender = sender\<rparr>)"

definition is_issued :: "'v \<times> 's ValidityVote \<Rightarrow> bool" where
  "is_issued x = (case snd x of VV_Issued _ \<Rightarrow> True | _ \<Rightarrow> False)"

definition candidate_statements ::
  "'d \<times> ('c, 'g, 'v, 's) CandidateData \<Rightarrow> (('v, 'd) StatementTrace \<times> ('c, 'd, 'v, 's) SignedStatement) list"
where
  "candidate_statements = (\<lambda>(digest, cd).
     map (vote_statement digest (cd_candidate cd))
       (filter is_issued (cd_validity_votes cd) @ filter (\<lambda>x. \<not> is_issued x) (cd_validity_votes cd)) @
     map (\<lambda>(sender, sig). (Trace_Available sender digest,
            \<lparr>ss_statement = Available digest, ss_signature = sig, ss_sender = sender\<rparr>))
       (cd_availability_votes cd))"

fun attempt_send_all ::
  "('v, ('c, 'd, 'v, 's) SignedStatement, 'b) StatementBatch
   \<Rightarrow> (('v, 'd) StatementTrace \<times> ('c, 'd, 'v, 's) SignedStatement) list
   \<Rightarrow> ('v \<times> ('d, 'v, 's) AuthorityData) list \<Rightarrow> 'b
   \<Rightarrow> ('v \<times> ('d, 'v, 's) AuthorityData) list \<times> 'b"
where
  "attempt_send_all B [] td b = (td, b)"
| "attempt_send_all B ((trace, st) # rest) td b =
     (if list_ex (\<lambda>t. trace \<notin> set (ad_known_statements (snd t))) td then
        (case batch_push B st b of
           (True, b') \<Rightarrow> attempt_send_all B rest (map (apsnd (note_known trace)) td) b'
         | (False, b') \<Rightarrow> (td, b'))
      else attempt_send_all B rest td b)"

definition fill_batch ::
  "('v, ('c, 'd, 'v, 's) SignedStatement, 'b) StatementBatch \<Rightarrow> 'b \<Rightarrow> ('c, 'd, 'g, 'v, 's) Table
   \<Rightarrow> 'b \<times> ('c, 'd, 'g, 'v, 's) Table"
where
  "fill_batch B b t =
     (let (td, ad) = take_target_data (targets B b) (authority_data t);
          (td', b') = attempt_send_all B (concat (map candidate_statements (candidate_votes t))) td b
      in (b', t\<lparr>authority_data := restore_target_data td' ad\<rparr>))"

section \<open>What the table records\<close>

text \<open>
  Two facts about the context that the table relies on: digests identify candidates, and no
  group can be included without any vote.
\<close>

definition context_ok :: "('c, 'd, 'g, 'v) TableContext \<Rightarrow> bool" where
  "context_ok ctx \<longleftrightarrow> inj (tc_candidate_digest ctx) \<and> (\<forall>g. tc_requisite_votes ctx g \<noteq> (0, 0))"

abbreviation signed_by :: "'v \<Rightarrow> ('c, 'd) Statement \<Rightarrow> 's \<Rightarrow> ('c, 'd, 'v, 's) SignedStatement" where
  "signed_by v st s \<equiv> \<lparr>ss_statement = st, ss_signature = s, ss_sender = v\<rparr>"

fun vote_in ::
  "('c, 'd, 'g, 'v) TableContext \<Rightarrow> ('c, 'd, 'v, 's) SignedStatement set \<Rightarrow> 'd \<Rightarrow> 'v \<Rightarrow> 's ValidityVote \<Rightarrow> bool"
where
  "vote_in ctx S d v (VV_Issued s) \<longleftrightarrow> (\<exists>c. tc_candidate_digest ctx c = d \<and> signed_by v (Candidate c) s \<in> S)"
| "vote_in ctx S d v (VV_Valid s) \<longleftrightarrow> signed_by v (Valid d) s \<in> S"
| "vote_in ctx S d v (VV_Invalid s) \<longleftrightarrow> signed_by v (Invalid d) s \<in> S"

primrec is_invalid :: "'s ValidityVote \<Rightarrow> bool" where
  "is_invalid (VV_Issued s) = False"
| "is_invalid (VV_Valid s) = False"
| "is_invalid (VV_Invalid s) = True"

definition candidate_ok ::
  "('c, 'd, 'g, 'v) TableContext \<Rightarrow> ('c, 'd, 'v, 's) SignedStatement set \<Rightarrow> 'd \<Rightarrow> ('c, 'g, 'v, 's) CandidateData \<Rightarrow> bool"
where
  "candidate_ok ctx S d cd \<longleftrightarrow>
     tc_candidate_digest ctx (cd_candidate cd) = d \<and>
     cd_group_id cd = tc_candidate_group ctx (cd_candidate cd) \<and>
     keys_distinct (cd_validity_votes cd) \<and> keys_distinct (cd_availability_votes cd) \<and>
     cd_indicated_bad_by cd = map fst (filter (\<lambda>x. is_invalid (snd x)) (cd_validity_votes cd)) \<and>
     (\<forall>(v, vote)\<in>set (cd_validity_votes cd). tc_is_member_of ctx v (cd_group_id cd) \<and> vote_in ctx S d v vote) \<and>
     (\<forall>(v, s)\<in>set (cd_availability_votes cd). tc_is_availability_guarantor_of ctx v (cd_group_id cd) \<and>
        signed_by v (Available d) s \<in> S)"

definition includable_in ::
  "('c, 'd, 'g, 'v) TableContext \<Rightarrow> 'g \<Rightarrow> 'd \<times> ('c, 'g, 'v, 's) CandidateData \<Rightarrow> bool"
where
  "includable_in ctx g x \<longleftrightarrow> cd_group_id (snd x) = g \<and> can_be_included (snd x) (tc_requisite_votes ctx g)"

text \<open>A misbehaviour report that its evidence, statements in \<open>S\<close> signed by \<open>v\<close>, proves.\<close>

fun unauthorized :: "('c, 'd, 'g, 'v) TableContext \<Rightarrow> 'v \<Rightarrow> ('c, 'd) Statement \<Rightarrow> bool" where
  "unauthorized ctx v (Candidate c) \<longleftrightarrow> \<not> tc_is_member_of ctx v (tc_candidate_group ctx c)"
| "unauthorized ctx v (Valid d) \<longleftrightarrow>
     (\<exists>c. tc_candidate_digest ctx c = d \<and> \<not> tc_is_member_of ctx v (tc_candidate_group ctx c))"
| "unauthorized ctx v (Invalid d) \<longleftrightarrow>
     (\<exists>c. tc_candidate_digest ctx c = d \<and> \<not> tc_is_member_of ctx v (tc_candidate_group ctx c))"
| "unauthorized ctx v (Available d) \<longleftrightarrow>
     (\<exists>c. tc_candidate_digest ctx c = d \<and> \<not> tc_is_availability_guarantor_of ctx v (tc_candidate_group ctx c))"

fun proves ::
  "('c, 'd, 'g, 'v) TableContext \<Rightarrow> ('c, 'd, 'v, 's) SignedStatement set \<Rightarrow> 'v
   \<Rightarrow> ('c, 'd, 'v, 's) TableMisbehavior \<Rightarrow> bool"
where
  "proves ctx S v (Mb_UnauthorizedStatement st) \<longleftrightarrow>
     st \<in> S \<and> ss_sender st = v \<and> unauthorized ctx v (ss_statement st)"
| "proves ctx S v (Mb_MultipleCandidates mc) \<longleftrightarrow>
     fst (mc_first mc) \<noteq> fst (mc_second mc) \<and>
     signed_by v (Candidate (fst (mc_first mc))) (snd (mc_first mc)) \<in> S \<and>
     signed_by v (Candidate (fst (mc_second mc))) (snd (mc_second mc)) \<in> S"
| "proves ctx S v (Mb_ValidityDoubleVote (IssuedAndValidity (c, s) (d, s'))) \<longleftrightarrow>
     tc_candidate_digest ctx c = d \<and> signed_by v (Candidate c) s \<in> S \<and> signed_by v (Valid d) s' \<in> S"
| "proves ctx S v (Mb_ValidityDoubleVote (IssuedAndInvalidity (c, s) (d, s'))) \<longleftrightarrow>
     tc_candidate_digest ctx c = d \<and> signed_by v (Candidate c) s \<in> S \<and> signed_by v (Invalid d) s' \<in> S"
| "proves ctx S v (Mb_ValidityDoubleVote (ValidityAndInvalidity d s s')) \<longleftrightarrow>
     signed_by v (Valid d) s \<in> S \<and> signed_by v (Invalid d) s' \<in> S"

definition proposals_ok ::
  "('c, 'd, 'v, 's) SignedStatement set \<Rightarrow> ('v, ('d, 'v, 's) AuthorityData) hmap
   \<Rightarrow> ('d, ('c, 'g, 'v, 's) CandidateData) hmap \<Rightarrow> bool"
where
  "proposals_ok S ad cv \<longleftrightarrow> (\<forall>v x d s. map_of ad v = Some x \<longrightarrow> ad_proposal x = Some (d, s) \<longrightarrow>
     (\<exists>cd. map_of cv d = Some cd \<and> signed_by v (Candidate (cd_candidate cd)) s \<in> S))"

definition counts_ok ::
  "('c, 'd, 'g, 'v) TableContext \<Rightarrow> ('g, usize) hmap \<Rightarrow> ('d, ('c, 'g, 'v, 's) CandidateData) hmap \<Rightarrow> bool"
where
  "counts_ok ctx m cv \<longleftrightarrow> (\<forall>g. map_of m g =
     (let n = length (filter (includable_in ctx g) cv) in if n = 0 then None else Some n))"

definition table_inv ::
  "('c, 'd, 'g, 'v) TableContext \<Rightarrow> ('c, 'd, 'v, 's) SignedStatement set \<Rightarrow> ('c, 'd, 'g, 'v, 's) Table \<Rightarrow> bool"
where
  "table_inv ctx S t \<longleftrightarrow>
     keys_distinct (candidate_votes t) \<and>
     (\<forall>d cd. map_of (candidate_votes t) d = Some cd \<longrightarrow> candidate_ok ctx S d cd) \<and>
     proposals_ok S (authority_data t) (candidate_votes t) \<and>
     counts_ok ctx (includable_count t) (candidate_votes t) \<and>
     (\<forall>v mb. map_of (detected_misbehavior t) v = Some mb \<longrightarrow> proves ctx S v mb)"

lemma vote_in_mono: "vote_in ctx S d v vote \<Longrightarrow> S \<subseteq> S' \<Longrightarrow> vote_in ctx S' d v vote"
  by (cases vote) auto

lemma proves_mono: "proves ctx S v mb \<Longrightarrow> S \<subseteq> S' \<Longrightarrow> proves ctx S' v mb"
  by (cases "(ctx, S, v, mb)" rule: proves.cases) auto

lemma candidate_ok_mono: "candidate_ok ctx S d cd \<Longrightarrow> S \<subseteq> S' \<Longrightarrow> candidate_ok ctx S' d cd"
  by (fastforce simp: candidate_ok_def intro: vote_in_mono)

lemma table_inv_mono:
  assumes "table_inv ctx S t" "S \<subseteq> S'"
  shows "table_inv ctx S' t"
  using assms proves_mono [of ctx S _ _ S'] candidate_ok_mono [of ctx S _ _ S']
  unfolding table_inv_def proposals_ok_def by blast

lemma table_inv_default: "table_inv ctx S Table_default"
  by (simp add: table_inv_def Table_default_def proposals_ok_def counts_ok_def)

lemma update_includable_count_lookup:
  "map_of (update_includable_count g was isn m) g' =
     (if g' \<noteq> g \<or> was = isn then map_of m g'
      else if was then (case map_of m g of None \<Rightarrow> None | Some n \<Rightarrow> if n - 1 = 0 then None else Some (n - 1))
      else Some ((case map_of m g of None \<Rightarrow> 0 | Some n \<Rightarrow> n) + 1))"
  by (auto simp: update_includable_count_def Let_def map_simps split: option.splits)

text \<open>Accepting a vote keeps the counts exact.\<close>

lemma counts_ok_update:
  assumes counts: "counts_ok ctx m cv" and dist: "keys_distinct cv" and cd: "map_of cv d = Some cd"
    and group: "cd_group_id cd' = cd_group_id cd"
  shows "counts_ok ctx
    (update_includable_count (cd_group_id cd)
      (can_be_included cd (tc_requisite_votes ctx (cd_group_id cd)))
      (can_be_included cd' (tc_requisite_votes ctx (cd_group_id cd))) m)
    (AList.update d cd' cv)"
proof -
  define was isn where "was = can_be_included cd (tc_requisite_votes ctx (cd_group_id cd))"
    and "isn = can_be_included cd' (tc_requisite_votes ctx (cd_group_id cd))"
  have num: "length (filter (includable_in ctx g) (AList.update d cd' cv)) +
        (if g = cd_group_id cd \<and> was then 1 else 0) =
      length (filter (includable_in ctx g) cv) + (if g = cd_group_id cd \<and> isn then 1 else 0)" for g
    using length_filter_update [OF dist cd, of "includable_in ctx g" cd'] group
    by (cases "g = cd_group_id cd") (auto simp: includable_in_def was_def isn_def split: if_splits)
  show ?thesis
    unfolding counts_ok_def was_def [symmetric] isn_def [symmetric] update_includable_count_lookup
  proof
    fix g
    show "(if g \<noteq> cd_group_id cd \<or> was = isn then map_of m g
      else if was then (case map_of m (cd_group_id cd) of None \<Rightarrow> None | Some n \<Rightarrow> if n - 1 = 0 then None else Some (n - 1))
      else Some ((case map_of m (cd_group_id cd) of None \<Rightarrow> 0 | Some n \<Rightarrow> n) + 1)) =
     (let n = length (filter (includable_in ctx g) (AList.update d cd' cv)) in if n = 0 then None else Some n)"
      using num [of g] counts [unfolded counts_ok_def, rule_format, of g]
      by (cases was; cases isn; cases "g = cd_group_id cd")
         (auto simp: Let_def simp del: length_0_conv length_greater_0_conv split: if_splits)
  qed
qed

lemma record_vote_inv:
  assumes inv: "table_inv ctx S t" and cd: "map_of (candidate_votes t) d = Some cd"
    and cd': "candidate_ok ctx S d cd'" "cd_candidate cd' = cd_candidate cd" "cd_group_id cd' = cd_group_id cd"
  shows "\<exists>t'. record_vote ctx d cd cd' t = Some (None, Some (summary cd' d), t') \<and> table_inv ctx S t'"
proof -
  have "proposals_ok S (authority_data t) (AList.update d cd' (candidate_votes t))"
    using inv cd cd'(2) unfolding table_inv_def proposals_ok_def map_of_update
    by (metis option.inject)
  then show ?thesis
    using inv cd cd' by (auto simp: record_vote_def table_inv_def Let_def map_of_update counts_ok_update)
qed

lemma double_vote_proves:
  assumes "double_vote_proof c d occ vote = Some p" "tc_candidate_digest ctx c = d"
    and "inj (tc_candidate_digest ctx)" "vote_in ctx S d v occ" "vote_in ctx S d v vote"
  shows "proves ctx S v (Mb_ValidityDoubleVote p)"
  using assms by (cases "(c, d, occ, vote)" rule: double_vote_proof.cases) (auto dest: injD)

lemma candidate_ok_vote:
  assumes "candidate_ok ctx S d cd" "map_of (cd_validity_votes cd) v = None"
    and "tc_is_member_of ctx v (cd_group_id cd)" "vote_in ctx S d v vote"
  shows "candidate_ok ctx S d (cd\<lparr>cd_indicated_bad_by :=
      (case vote of VV_Invalid _ \<Rightarrow> cd_indicated_bad_by cd @ [v] | _ \<Rightarrow> cd_indicated_bad_by cd),
    cd_validity_votes := AList.update v vote (cd_validity_votes cd)\<rparr>)"
  using assms by (cases vote) (auto simp: candidate_ok_def update_fresh keys_distinct_def map_of_eq_None_iff)

definition vote_outcome ::
  "('c, 'd, 'g, 'v) TableContext \<Rightarrow> ('c, 'd, 'v, 's) SignedStatement set \<Rightarrow> 'v
   \<Rightarrow> ('c, 'd, 'g, 'v, 's) vote_result \<Rightarrow> bool"
where
  "vote_outcome ctx S v r \<longleftrightarrow> (\<exists>mb sm t'. r = Some (mb, sm, t') \<and> table_inv ctx S t' \<and>
     (\<forall>m. mb = Some m \<longrightarrow> proves ctx S v m))"

lemma validity_vote_outcome:
  assumes ok: "context_ok ctx" and inv: "table_inv ctx S t" and vote: "vote_in ctx S d v vote"
    and issued: "\<And>cd s. map_of (candidate_votes t) d = Some cd \<Longrightarrow> vote = VV_Issued s \<Longrightarrow>
      tc_is_member_of ctx v (cd_group_id cd)"
  shows "vote_outcome ctx S v (validity_vote ctx v d vote t)"
proof (cases "map_of (candidate_votes t) d")
  case None
  with inv show ?thesis by (simp add: vote_outcome_def validity_vote_def)
next
  case (Some cd)
  with inv have cd: "candidate_ok ctx S d cd" by (simp add: table_inv_def)
  show ?thesis
  proof (cases "tc_is_member_of ctx v (cd_group_id cd)")
    case False
    with Some inv vote issued [OF Some] cd show ?thesis
      by (cases vote) (auto simp: vote_outcome_def validity_vote_def candidate_ok_def)
  next
    case member: True
    show ?thesis
    proof (cases "map_of (cd_validity_votes cd) v")
      case None
      let ?cd = "cd\<lparr>cd_indicated_bad_by :=
          (case vote of VV_Invalid _ \<Rightarrow> cd_indicated_bad_by cd @ [v] | _ \<Rightarrow> cd_indicated_bad_by cd),
        cd_validity_votes := AList.update v vote (cd_validity_votes cd)\<rparr>"
      have "\<exists>t'. record_vote ctx d cd ?cd t = Some (None, Some (summary ?cd d), t') \<and> table_inv ctx S t'"
        by (rule record_vote_inv [OF inv Some candidate_ok_vote [OF cd None member vote]]) simp_all
      with Some None member show ?thesis by (auto simp: vote_outcome_def validity_vote_def)
    next
      case occ: (Some old)
      then have "vote_in ctx S d v old" "tc_candidate_digest ctx (cd_candidate cd) = d"
        using cd by (auto simp: candidate_ok_def dest: map_of_SomeD)
      with Some occ member inv vote ok show ?thesis
        by (auto simp: vote_outcome_def validity_vote_def context_ok_def split: option.split
            intro: double_vote_proves)
    qed
  qed
qed

lemma availability_vote_outcome:
  assumes inv: "table_inv ctx S t" and st: "signed_by v (Available d) s \<in> S"
  shows "vote_outcome ctx S v (availability_vote ctx v d s t)"
proof (cases "map_of (candidate_votes t) d")
  case None
  with inv show ?thesis by (simp add: vote_outcome_def availability_vote_def)
next
  case (Some cd)
  with inv have cd: "candidate_ok ctx S d cd" by (simp add: table_inv_def)
  show ?thesis
  proof (cases "tc_is_availability_guarantor_of ctx v (cd_group_id cd)")
    case False
    with Some inv st cd show ?thesis
      by (auto simp: vote_outcome_def availability_vote_def candidate_ok_def)
  next
    case True
    let ?cd = "cd\<lparr>cd_availability_votes := AList.update v s (cd_availability_votes cd)\<rparr>"
    have "candidate_ok ctx S d ?cd"
      using cd True st update_subset [of v s "cd_availability_votes cd"]
      by (fastforce simp: candidate_ok_def)
    then have "\<exists>t'. record_vote ctx d cd ?cd t = Some (None, Some (summary ?cd d), t') \<and> table_inv ctx S t'"
      by (rule record_vote_inv [OF inv Some]) simp_all
    with Some True show ?thesis by (auto simp: vote_outcome_def availability_vote_def)
  qed
qed

lemma note_proposal_cases:
  assumes inv: "table_inv ctx S t" and st: "signed_by v (Candidate c) s \<in> S"
    and ok: "context_ok ctx" and d: "d = tc_candidate_digest ctx c"
  obtains mb where "note_proposal v c d s t = Some (Inl mb)" "proves ctx S v mb"
  | "note_proposal v c d s t = Some (Inr (False, t))" "map_of (candidate_votes t) d \<noteq> None"
  | x where "note_proposal v c d s t = Some (Inr (True, t\<lparr>authority_data := AList.update v x (authority_data t)\<rparr>))"
      "ad_proposal x = Some (d, s)"
proof -
  define x where "x = (case map_of (authority_data t) v of Some x \<Rightarrow> x | None \<Rightarrow> AuthorityData_default)"
  show thesis
  proof (cases "ad_proposal x")
    case None
    then show thesis
      by (intro that(3) [of "x\<lparr>ad_proposal := Some (d, s)\<rparr>"]) (simp_all add: note_proposal_def x_def [symmetric])
  next
    case (Some p)
    obtain d' s' where p: "p = (d', s')" by fastforce
    from Some p have "map_of (authority_data t) v = Some x"
      by (auto simp: x_def AuthorityData_default_def split: option.splits)
    with inv Some p obtain cd where cd: "map_of (candidate_votes t) d' = Some cd"
      "signed_by v (Candidate (cd_candidate cd)) s' \<in> S"
      unfolding table_inv_def proposals_ok_def by blast
    with inv have "tc_candidate_digest ctx (cd_candidate cd) = d'" by (auto simp: table_inv_def candidate_ok_def)
    then show thesis
      using that(1,2) Some p cd st d
      by (cases "d' = d") (auto simp: note_proposal_def x_def [symmetric])
  qed
qed

lemma import_candidate_outcome:
  assumes ok: "context_ok ctx" and inv: "table_inv ctx S t" and st: "signed_by v (Candidate c) s \<in> S"
  shows "vote_outcome ctx S v (import_candidate ctx v c s t)"
proof (cases "tc_is_member_of ctx v (tc_candidate_group ctx c)")
  case False
  with inv st show ?thesis by (auto simp: vote_outcome_def import_candidate_def Let_def)
next
  case member: True
  define d where "d = tc_candidate_digest ctx c"
  let ?new = "\<lparr>cd_group_id = tc_candidate_group ctx c, cd_candidate = c, cd_validity_votes = [],
     cd_availability_votes = [], cd_indicated_bad_by = []\<rparr>"
  have vote: "vote_in ctx S d v (VV_Issued s)" using st by (auto simp: d_def)
  have group: "tc_is_member_of ctx v (cd_group_id cd)"
    if "table_inv ctx S t'" "map_of (candidate_votes t') d = Some cd" for t' cd
    using that member ok by (auto simp: table_inv_def candidate_ok_def context_ok_def d_def dest: injD)
  show ?thesis
  proof (cases rule: note_proposal_cases [OF inv st ok d_def])
    case (1 mb)
    with inv member show ?thesis by (simp add: vote_outcome_def import_candidate_def Let_def d_def)
  next
    case 2
    with member validity_vote_outcome [OF ok inv vote] group [OF inv] show ?thesis
      by (simp add: import_candidate_def Let_def d_def)
  next
    case (3 x)
    define t2 where "t2 = t\<lparr>authority_data := AList.update v x (authority_data t),
      candidate_votes := (case map_of (candidate_votes t) d of None \<Rightarrow> AList.update d ?new (candidate_votes t)
         | Some _ \<Rightarrow> candidate_votes t)\<rparr>"
    have new: "candidate_ok ctx S d ?new" by (simp add: candidate_ok_def d_def)
    have fresh: "\<not> includable_in ctx g (d, ?new)" for g
      using ok by (auto simp: includable_in_def can_be_included_def context_ok_def prod_eq_iff)
    have "table_inv ctx S t2"
    proof (cases "map_of (candidate_votes t) d")
      case None
      have "proposals_ok S (authority_data t) (candidate_votes t)" using inv by (simp add: table_inv_def)
      with 3(2) None st have "proposals_ok S (authority_data t2) (candidate_votes t2)"
        unfolding proposals_ok_def
        by (auto simp: t2_def map_of_update d_def [symmetric]) (metis option.distinct(1))+
      with inv None new fresh show ?thesis
        by (auto simp: t2_def table_inv_def map_of_update counts_ok_def length_filter_update_fresh)
    next
      case (Some cd)
      then have "cd_candidate cd = c"
        using inv ok by (auto simp: table_inv_def candidate_ok_def context_ok_def d_def dest: injD)
      then have "proposals_ok S (authority_data t2) (candidate_votes t2)"
        using inv 3(2) Some st by (auto simp: t2_def table_inv_def proposals_ok_def map_of_update)
      with inv Some show ?thesis by (auto simp: t2_def table_inv_def)
    qed
    moreover have "import_candidate ctx v c s t = validity_vote ctx v d (VV_Issued s) t2"
      using member 3(1) by (simp add: import_candidate_def Let_def d_def t2_def split: option.split)
    ultimately show ?thesis
      using validity_vote_outcome [OF ok _ vote] group by (metis)
  qed
qed

lemma note_trace_seen_inv:
  assumes "table_inv ctx S t"
  shows "table_inv ctx S (note_trace_seen trace v t)"
proof -
  have "proposals_ok S (authority_data (note_trace_seen trace v t)) (candidate_votes t)"
    using assms by (auto simp: table_inv_def proposals_ok_def note_trace_seen_def Let_def map_of_update
        AuthorityData_default_def split: option.splits)
  with assms show ?thesis by (auto simp: table_inv_def note_trace_seen_def Let_def)
qed

lemma import_statement_inv:
  assumes ok: "context_ok ctx" and inv: "table_inv ctx S t" and st: "st \<in> S"
  shows "\<exists>sm t'. import_statement ctx st from t = Some (sm, t') \<and> table_inv ctx S t'"
proof -
  obtain stm s v where st': "st = signed_by v stm s" by (cases st) auto
  have "vote_outcome ctx S v (dispatch_statement ctx v s stm t)"
    using st unfolding st'
    by (cases stm) (auto intro!: import_candidate_outcome [OF ok inv] availability_vote_outcome [OF inv]
        validity_vote_outcome [OF ok inv])
  then obtain mb sm t1 where r: "dispatch_statement ctx v s stm t = Some (mb, sm, t1)" "table_inv ctx S t1"
    "\<And>m. mb = Some m \<Longrightarrow> proves ctx S v m"
    by (auto simp: vote_outcome_def)
  show ?thesis
  proof (cases mb)
    case None
    with r show ?thesis
      by (auto simp: import_statement_def st' Let_def intro!: note_trace_seen_inv split: option.split)
  next
    case (Some m)
    with r have "table_inv ctx S (t1\<lparr>detected_misbehavior := AList.update v m (detected_misbehavior t1)\<rparr>)"
      by (auto simp: table_inv_def map_of_update)
    with r Some show ?thesis by (simp add: import_statement_def st' Let_def)
  qed
qed

section \<open>Batches\<close>

definition data_of :: "('v, ('d, 'v, 's) AuthorityData) hmap \<Rightarrow> 'v \<Rightarrow> ('d, 'v, 's) AuthorityData" where
  "data_of ad v = (case map_of ad v of Some x \<Rightarrow> x | None \<Rightarrow> AuthorityData_default)"

lemma take_target_data_spec:
  assumes "distinct vs"
  shows "take_target_data vs ad = (td, ad') \<Longrightarrow>
    td = map (\<lambda>v. (v, data_of ad v)) vs \<and> (\<forall>v. v \<notin> set vs \<longrightarrow> map_of ad' v = map_of ad v)"
  using assms
proof (induction vs arbitrary: ad td ad')
  case (Cons v vs)
  define ad1 where "ad1 = (case map_of ad v of None \<Rightarrow> ad | Some x \<Rightarrow> AList.update v AuthorityData_default ad)"
  obtain td1 where td: "td = (v, data_of ad v) # td1" "take_target_data vs ad1 = (td1, ad')"
    using Cons.prems(1) by (auto simp: ad1_def data_of_def split: prod.splits option.splits)
  have same: "map_of ad1 u = map_of ad u" if "u \<noteq> v" for u
    using that by (simp add: ad1_def map_of_update split: option.split)
  then have "data_of ad1 u = data_of ad u" if "u \<in> set vs" for u
    using that Cons.prems(2) by (cases "u = v") (auto simp: data_of_def)
  then have "map (\<lambda>u. (u, data_of ad1 u)) vs = map (\<lambda>u. (u, data_of ad u)) vs"
    using Cons.prems(2) by (intro map_cong) auto
  with Cons.IH [OF td(2)] Cons.prems(2) td(1) same show ?case by auto
qed simp

lemma restore_target_data_lookup:
  "distinct (map fst td) \<Longrightarrow> map_of (restore_target_data td ad) v =
     (case map_of td v of Some x \<Rightarrow> Some x | None \<Rightarrow> map_of ad v)"
proof (induction td arbitrary: ad)
  case (Cons x td)
  obtain i d where x: "x = (i, d)" by fastforce
  have step: "restore_target_data ((i, d) # td) ad = restore_target_data td (AList.update i d ad)"
    by (simp add: restore_target_data_def)
  have "map_of td i = None" using Cons.prems by (simp add: x map_of_eq_None_iff)
  with Cons show ?case by (simp add: step x map_of_update split: option.split)
qed (simp add: restore_target_data_def)

lemma map_apsnd_id: "map (apsnd (\<lambda>a. a)) xs = xs"
  by (induction xs) auto

lemma attempt_send_all_spec:
  assumes "attempt_send_all B sts td b = (td', b')"
  shows "\<exists>trs. td' = map (apsnd (fold note_known trs)) td \<and> set trs \<subseteq> fst ` set sts"
  using assms
proof (induction B sts td b rule: attempt_send_all.induct)
  case (1 B td b)
  then show ?case by (intro exI [of _ "[]"]) (auto simp: map_apsnd_id)
next
  case (2 B trace st rest td b)
  show ?case
  proof (cases "list_ex (\<lambda>t. trace \<notin> set (ad_known_statements (snd t))) td")
    case False
    with 2 show ?thesis by fastforce
  next
    case True
    obtain ok b1 where p: "batch_push B st b = (ok, b1)" by fastforce
    show ?thesis
    proof (cases ok)
      case False
      with True p 2 show ?thesis by (intro exI [of _ "[]"]) (auto simp: map_apsnd_id)
    next
      case ok: True
      have "attempt_send_all B rest (map (apsnd (note_known trace)) td) b1 = (td', b')"
        using "2.prems" True p ok by simp
      from "2.IH"(1) [OF True p [symmetric] _ this] ok obtain trs where
        "td' = map (apsnd (fold note_known trs)) (map (apsnd (note_known trace)) td)" "set trs \<subseteq> fst ` set rest"
        by auto
      then show ?thesis by (intro exI [of _ "trace # trs"]) auto
    qed
  qed
qed

lemma fold_note_known [simp]:
  "ad_proposal (fold note_known trs x) = ad_proposal x"
  "set (ad_known_statements (fold note_known trs x)) = set (ad_known_statements x) \<union> set trs"
  by (induction trs arbitrary: x) (auto simp: note_known_def)

lemma fill_batch_spec:
  assumes "distinct (targets B b)" "fill_batch B b t = (b', t')"
  obtains ad trs where "t' = t\<lparr>authority_data := ad\<rparr>"
    "attempt_send_all B (concat (map candidate_statements (candidate_votes t)))
       (map (\<lambda>v. (v, data_of (authority_data t) v)) (targets B b)) b
     = (map (\<lambda>v. (v, data_of ad v)) (targets B b), b')"
    "\<And>v. data_of ad v = (if v \<in> set (targets B b) then fold note_known trs (data_of (authority_data t) v)
       else data_of (authority_data t) v)"
    "\<And>v. v \<notin> set (targets B b) \<Longrightarrow> map_of ad v = map_of (authority_data t) v"
proof -
  obtain td ad0 where take: "take_target_data (targets B b) (authority_data t) = (td, ad0)" by fastforce
  obtain td' where send: "attempt_send_all B (concat (map candidate_statements (candidate_votes t))) td b = (td', b')"
    and t': "t' = t\<lparr>authority_data := restore_target_data td' ad0\<rparr>"
    using assms(2) take by (auto simp: fill_batch_def split: prod.splits)
  from take_target_data_spec [OF assms(1) take]
  have td: "td = map (\<lambda>v. (v, data_of (authority_data t) v)) (targets B b)"
    "\<And>v. v \<notin> set (targets B b) \<Longrightarrow> map_of ad0 v = map_of (authority_data t) v" by auto
  from attempt_send_all_spec [OF send] obtain trs where td': "td' = map (apsnd (fold note_known trs)) td" by blast
  define ad where "ad = restore_target_data td' ad0"
  have keys: "map fst td' = targets B b" by (simp add: td' td(1) o_def)
  have lk: "map_of ad v = (case map_of td' v of Some x \<Rightarrow> Some x | None \<Rightarrow> map_of ad0 v)" for v
    unfolding ad_def by (rule restore_target_data_lookup) (simp add: keys assms(1))
  have in_td: "map_of td' v = Some (fold note_known trs (data_of (authority_data t) v))" if "v \<in> set (targets B b)" for v
    using that keys assms(1) by (intro map_of_SomeI) (auto simp: keys_distinct_def td' td(1))
  have out_td: "map_of td' v = None" if "v \<notin> set (targets B b)" for v
    using that by (simp add: td' td(1) map_of_eq_None_iff image_image)
  have data: "data_of ad v = (if v \<in> set (targets B b) then fold note_known trs (data_of (authority_data t) v)
       else data_of (authority_data t) v)" for v
    using in_td out_td td(2) by (auto simp: data_of_def lk)
  have "td' = map (\<lambda>v. (v, fold note_known trs (data_of (authority_data t) v))) (targets B b)"
    by (simp add: td' td(1))
  then have "td' = map (\<lambda>v. (v, data_of ad v)) (targets B b)"
    by (simp add: data cong: map_cong)
  with send td(1) have "attempt_send_all B (concat (map candidate_statements (candidate_votes t)))
       (map (\<lambda>v. (v, data_of (authority_data t) v)) (targets B b)) b
     = (map (\<lambda>v. (v, data_of ad v)) (targets B b), b')" by simp
  then show thesis
    by (rule that [OF t' [folded ad_def] _ data]) (simp add: lk out_td td(2))
qed

lemma fill_batch_inv:
  assumes "table_inv ctx S t" "distinct (targets B b)" "fill_batch B b t = (b', t')"
  shows "table_inv ctx S t'"
proof -
  from fill_batch_spec [OF assms(2,3)] obtain ad trs where t': "t' = t\<lparr>authority_data := ad\<rparr>"
    and data: "\<And>v. data_of ad v = (if v \<in> set (targets B b) then fold note_known trs (data_of (authority_data t) v)
       else data_of (authority_data t) v)" by metis
  have same: "ad_proposal (data_of ad v) = ad_proposal (data_of (authority_data t) v)" for v
    by (simp add: data)
  have "proposals_ok S ad (candidate_votes t)"
    unfolding proposals_ok_def
  proof (intro allI impI)
    fix v x d s assume x: "map_of ad v = Some x" "ad_proposal x = Some (d, s)"
    then have "ad_proposal (data_of (authority_data t) v) = Some (d, s)"
      using same [of v] by (simp add: data_of_def)
    then obtain y where "map_of (authority_data t) v = Some y" "ad_proposal y = Some (d, s)"
      by (auto simp: data_of_def AuthorityData_default_def split: option.splits)
    with assms(1) show "\<exists>cd. map_of (candidate_votes t) d = Some cd \<and> signed_by v (Candidate (cd_candidate cd)) s \<in> S"
      unfolding table_inv_def proposals_ok_def by blast
  qed
  with assms(1) show ?thesis by (simp add: t' table_inv_def)
qed


section \<open>Histories of a table\<close>

text \<open>
  The tables that arise by importing the statements \<open>S\<close>, in some order and from some peers, and
  filling batches for pairwise different targets in between.
\<close>

inductive table_reachable ::
  "('c, 'd, 'g, 'v) TableContext \<Rightarrow> ('c, 'd, 'v, 's) SignedStatement set \<Rightarrow> ('c, 'd, 'g, 'v, 's) Table \<Rightarrow> bool"
  for ctx
where
  fresh_table: "table_reachable ctx {} Table_default"
| imported: "table_reachable ctx S t \<Longrightarrow> import_statement ctx st from t = Some (sm, t') \<Longrightarrow>
    table_reachable ctx (insert st S) t'"
| batched: "table_reachable ctx S t \<Longrightarrow> distinct (targets B b) \<Longrightarrow>
    fill_batch B (b :: ('c, 'd, 'v, 's) SignedStatement list) t = (b', t') \<Longrightarrow> table_reachable ctx S t'"

lemma table_reachable_inv:
  assumes "table_reachable ctx S t" "context_ok ctx"
  shows "table_inv ctx S t"
  using assms(1)
proof (induction rule: table_reachable.induct)
  case fresh_table
  then show ?case by (rule table_inv_default)
next
  case (imported S t st "from" sm t')
  have "table_inv ctx (insert st S) t" using imported.IH by (rule table_inv_mono) auto
  from import_statement_inv [OF assms(2) this, of st "from"] imported.hyps show ?case by auto
next
  case (batched S t B b b' t')
  then show ?case by (blast intro: fill_batch_inv)
qed

lemma attempt_send_all_known:
  "\<forall>(trace, st)\<in>set sts. \<forall>t\<in>set td. trace \<in> set (ad_known_statements (snd t)) \<Longrightarrow>
   attempt_send_all B sts td b = (td, b)"
  by (induction sts) (auto simp: list_ex_iff)

text \<open>A batch that keeps what it accepts, in order, and whose targets stay the same.\<close>

definition recording_batch :: "('v, 'm, 'b) StatementBatch \<Rightarrow> ('b \<Rightarrow> 'm list) \<Rightarrow> bool" where
  "recording_batch B content \<longleftrightarrow> (\<forall>st b ok b'. batch_push B st b = (ok, b') \<longrightarrow>
     content b' = content b @ (if ok then [st] else []) \<and> targets B b' = targets B b)"

lemma recording_batchD:
  "recording_batch B content \<Longrightarrow> batch_push B st b = (ok, b') \<Longrightarrow>
   content b' = content b @ (if ok then [st] else []) \<and> targets B b' = targets B b"
  unfolding recording_batch_def by blast

lemma attempt_send_all_exact:
  assumes push: "recording_batch B content"
    and "attempt_send_all B sts td b = (td', b')"
  shows "\<exists>sent seen rest. sts = seen @ rest \<and> subseq sent seen \<and> distinct (map fst sent) \<and>
    content b' = content b @ map snd sent \<and> targets B b' = targets B b \<and>
    (\<forall>(trace, st)\<in>set sent. \<exists>x\<in>set td. trace \<notin> set (ad_known_statements (snd x))) \<and>
    td' = map (apsnd (fold note_known (map fst sent))) td \<and>
    (\<forall>(trace, st)\<in>set seen. \<forall>x\<in>set td'. trace \<in> set (ad_known_statements (snd x))) \<and>
    (case rest of [] \<Rightarrow> True | (trace, st) # later \<Rightarrow> (\<exists>x\<in>set td'. trace \<notin> set (ad_known_statements (snd x))) \<and>
       (\<exists>b1. content b1 = content b' \<and> batch_push B st b1 = (False, b')))"
  using assms(2)
proof (induction sts arbitrary: td b)
  case Nil
  then show ?case by (intro exI [of _ "[]"]) (simp add: map_apsnd_id)
next
  case (Cons x sts)
  obtain trace st where x: "x = (trace, st)" by fastforce
  obtain ok b1 where p: "batch_push B st b = (ok, b1)" by fastforce
  show ?case
  proof (cases "list_ex (\<lambda>t. trace \<notin> set (ad_known_statements (snd t))) td")
    case False
    with Cons.prems x have "attempt_send_all B sts td b = (td', b')" by simp
    from Cons.IH [OF this] obtain sent seen rest where ih: "sts = seen @ rest" "subseq sent seen" "distinct (map fst sent)"
      "content b' = content b @ map snd sent" "targets B b' = targets B b"
      "\<forall>(trace, st)\<in>set sent. \<exists>x\<in>set td. trace \<notin> set (ad_known_statements (snd x))"
      "td' = map (apsnd (fold note_known (map fst sent))) td"
      "\<forall>(trace, st)\<in>set seen. \<forall>x\<in>set td'. trace \<in> set (ad_known_statements (snd x))"
      "case rest of [] \<Rightarrow> True | (trace, st) # later \<Rightarrow> (\<exists>x\<in>set td'. trace \<notin> set (ad_known_statements (snd x))) \<and>
         (\<exists>b1. content b1 = content b' \<and> batch_push B st b1 = (False, b'))"
      by (elim exE conjE) (rule that; assumption)
    have "\<forall>x\<in>set td'. trace \<in> set (ad_known_statements (snd x))" using False ih(7) by (auto simp: list_ex_iff)
    then show ?thesis using ih x by (intro exI [of _ sent] exI [of _ "x # seen"] exI [of _ rest]) auto
  next
    case True
    then have unknown: "\<exists>t\<in>set td. trace \<notin> set (ad_known_statements (snd t))" by (simp add: list_ex_iff)
    show ?thesis
    proof (cases ok)
      case False
      with Cons.prems True p x have "td' = td" "b' = b1" by auto
      with False unknown p recording_batchD [OF push p] x show ?thesis
        by (intro exI [of _ "[]"] exI [of _ "x # sts"]) (auto simp: map_apsnd_id)
    next
      case ok: True
      let ?td = "map (apsnd (note_known trace)) td"
      have "attempt_send_all B sts ?td b1 = (td', b')" using Cons.prems True p x ok by simp
      from Cons.IH [OF this] obtain sent seen rest where ih: "sts = seen @ rest" "subseq sent seen" "distinct (map fst sent)"
        "content b' = content b1 @ map snd sent" "targets B b' = targets B b1"
        "\<forall>(trace, st)\<in>set sent. \<exists>x\<in>set ?td. trace \<notin> set (ad_known_statements (snd x))"
        "td' = map (apsnd (fold note_known (map fst sent))) ?td"
        "\<forall>(trace, st)\<in>set seen. \<forall>x\<in>set td'. trace \<in> set (ad_known_statements (snd x))"
        "case rest of [] \<Rightarrow> True | (trace, st) # later \<Rightarrow> (\<exists>x\<in>set td'. trace \<notin> set (ad_known_statements (snd x))) \<and>
           (\<exists>b1. content b1 = content b' \<and> batch_push B st b1 = (False, b'))"
      by (elim exE conjE) (rule that; assumption)
      have fresh: "fst y \<noteq> trace \<and> (\<exists>x\<in>set td. fst y \<notin> set (ad_known_statements (snd x)))" if "y \<in> set sent" for y
        using bspec [OF ih(6) that] by (cases y) (auto simp: note_known_def)
      have "\<forall>x\<in>set td'. trace \<in> set (ad_known_statements (snd x))" using ih(7) by (auto simp: note_known_def)
      moreover have "td' = map (apsnd (fold note_known (map fst (x # sent)))) td" using ih(7) x by auto
      moreover have "distinct (map fst (x # sent))" using ih(3) fresh x by auto
      ultimately show ?thesis using ih(1,2,4,5,8,9) fresh x unknown recording_batchD [OF push p] ok
        by (intro exI [of _ "x # sent"] exI [of _ "x # seen"] exI [of _ rest]) auto
    qed
  qed
qed


section \<open>The best candidates\<close>

definition least_in ::
  "('c :: linorder, 'd, 'g, 'v) TableContext \<Rightarrow> ('d \<times> ('c, 'g, 'v, 's) CandidateData) list \<Rightarrow> 'g \<Rightarrow> 'c \<Rightarrow> bool"
where
  "least_in ctx xs g c \<longleftrightarrow>
     (\<exists>x\<in>set xs. includable_in ctx g x \<and> cd_candidate (snd x) = c) \<and>
     (\<forall>x\<in>set xs. includable_in ctx g x \<longrightarrow> c \<le> cd_candidate (snd x))"

definition best_ok ::
  "('c :: linorder, 'd, 'g, 'v) TableContext \<Rightarrow> ('d \<times> ('c, 'g, 'v, 's) CandidateData) list \<Rightarrow> ('g, 'c) btmap \<Rightarrow> bool"
where
  "best_ok ctx xs best \<longleftrightarrow> keys_distinct best \<and> (\<forall>g c. map_of best g = Some c \<longleftrightarrow> least_in ctx xs g c)"

lemma least_in_unique: "least_in ctx xs g c \<Longrightarrow> least_in ctx xs g c' \<Longrightarrow> c = c'"
  unfolding least_in_def by (metis order_antisym)

lemma least_in_exists:
  assumes "y \<in> set xs" "includable_in ctx g y"
  shows "\<exists>c. least_in ctx xs g c"
proof -
  let ?C = "(\<lambda>z. cd_candidate (snd z)) ` {z \<in> set xs. includable_in ctx g z}"
  have fin: "finite ?C" by simp
  have "?C \<noteq> {}" using assms by blast
  from Min_in [OF fin this] Min_le [OF fin] have "least_in ctx xs g (Min ?C)"
    unfolding least_in_def by auto
  then show ?thesis ..
qed

lemma least_in_snoc_other:
  "\<not> includable_in ctx g x \<Longrightarrow> least_in ctx (xs @ [x]) g c \<longleftrightarrow> least_in ctx xs g c"
  by (auto simp: least_in_def)

lemma least_in_snoc:
  assumes "includable_in ctx g x"
  shows "least_in ctx (xs @ [x]) g c \<longleftrightarrow>
    (if \<exists>c0. least_in ctx xs g c0 \<and> c0 \<le> cd_candidate (snd x) then least_in ctx xs g c else c = cd_candidate (snd x))"
proof (cases "\<exists>c0. least_in ctx xs g c0")
  case False
  then have "\<forall>y\<in>set xs. \<not> includable_in ctx g y" using least_in_exists by metis
  with False assms show ?thesis by (auto simp: least_in_def)
next
  case True
  then obtain c0 where c0: "least_in ctx xs g c0" by blast
  have uniq: "least_in ctx xs g c \<longleftrightarrow> c = c0" for c using c0 least_in_unique by metis
  have ex: "\<exists>y\<in>set xs. includable_in ctx g y \<and> cd_candidate (snd y) = c0"
    and le: "\<forall>y\<in>set xs. includable_in ctx g y \<longrightarrow> c0 \<le> cd_candidate (snd y)"
    using c0 by (auto simp: least_in_def)
  have "least_in ctx (xs @ [x]) g c \<longleftrightarrow> c = min c0 (cd_candidate (snd x))"
  proof
    assume l: "least_in ctx (xs @ [x]) g c"
    then have "c \<le> c0" "c \<le> cd_candidate (snd x)" "c0 \<le> c \<or> c = cd_candidate (snd x)"
      using ex le assms by (auto simp: least_in_def)
    then show "c = min c0 (cd_candidate (snd x))" by (auto simp: min_def)
  next
    assume "c = min c0 (cd_candidate (snd x))"
    then show "least_in ctx (xs @ [x]) g c"
      using ex le assms unfolding least_in_def by (auto simp: min_def)
  qed
  then show ?thesis by (auto simp: uniq min_def)
qed

lemma best_ok_step:
  assumes best: "best_ok ctx xs best" and known: "\<And>g. includable_in ctx g x \<Longrightarrow> map_of (includable_count t) g \<noteq> None"
  shows "best_ok ctx (xs @ [x]) (consider_candidate ctx t (snd x) best)"
proof (cases "includable_in ctx (cd_group_id (snd x)) x")
  case False
  then have "consider_candidate ctx t (snd x) best = best"
    by (auto simp: consider_candidate_def includable_in_def Let_def)
  moreover have "\<not> includable_in ctx g x" for g
    using False by (auto simp: includable_in_def)
  ultimately show ?thesis using best by (simp add: best_ok_def least_in_snoc_other)
next
  case True
  let ?g = "cd_group_id (snd x)" and ?c = "cd_candidate (snd x)"
  have x: "includable_in ctx g x \<longleftrightarrow> g = ?g" for g using True by (auto simp: includable_in_def)
  have cons: "consider_candidate ctx t (snd x) best =
      (case map_of best ?g of
         Some c \<Rightarrow> if c > ?c then AList.update ?g ?c best else best
       | None \<Rightarrow> AList.update ?g ?c best)"
    using True known [of ?g] by (auto simp: consider_candidate_def includable_in_def Let_def)
  have look: "least_in ctx xs g c \<longleftrightarrow> map_of best g = Some c" for g c
    using best by (simp add: best_ok_def)
  have "least_in ctx (xs @ [x]) g c \<longleftrightarrow> map_of (consider_candidate ctx t (snd x) best) g = Some c" for g c
  proof (cases "g = ?g")
    case False
    then show ?thesis
      using least_in_snoc_other [of ctx g x xs c]
      by (auto simp: x look cons map_of_update split: option.split)
  next
    case True
    then show ?thesis
      using least_in_snoc [of ctx g x xs c]
      by (auto simp: x look cons map_of_update split: option.split if_splits)
  qed
  moreover have "keys_distinct (consider_candidate ctx t (snd x) best)"
    using best by (auto simp: best_ok_def cons split: option.split)
  ultimately show ?thesis by (simp add: best_ok_def)
qed

lemma best_candidates_ok:
  assumes inv: "table_inv ctx S t"
  shows "best_ok ctx (candidate_votes t) (best_candidates ctx t)"
proof -
  have known: "map_of (includable_count t) g \<noteq> None"
    if "x \<in> set (candidate_votes t)" "includable_in ctx g x" for x g
  proof -
    have "filter (includable_in ctx g) (candidate_votes t) \<noteq> []" using that by (auto simp: filter_empty_conv)
    with inv show ?thesis by (auto simp: table_inv_def counts_ok_def Let_def)
  qed
  have "set xs \<subseteq> set (candidate_votes t) \<Longrightarrow>
      best_ok ctx xs (fold (\<lambda>x. consider_candidate ctx t (snd x)) xs [])" for xs
  proof (induction xs rule: rev_induct)
    case Nil
    then show ?case by (simp add: best_ok_def least_in_def)
  next
    case (snoc x xs)
    then have "best_ok ctx xs (fold (\<lambda>x. consider_candidate ctx t (snd x)) xs [])" by simp
    from best_ok_step [OF this, of x t] known [of x] snoc.prems show ?case by simp
  qed
  then show ?thesis by (simp add: best_candidates_def case_prod_unfold)
qed

lemma map_snd_sort_key_group:
  assumes "keys_distinct m" "\<And>g c. map_of m g = Some c \<Longrightarrow> grp c = g"
  shows "sorted_wrt (<) (map grp (map snd (sort_key fst m))) \<and> set (map snd (sort_key fst m)) = ran (map_of m)"
proof
  have "grp (snd x) = fst x" if "x \<in> set m" for x
    using assms that by (cases x) (auto intro: map_of_SomeI)
  then have "map grp (map snd (sort_key fst m)) = map fst (sort_key fst m)" by simp
  moreover have "sorted (map fst (sort_key fst m))" by simp
  moreover have "distinct (map fst (sort_key fst m))"
  proof -
    have "mset (map fst (sort_key fst m)) = mset (map fst m)" by (simp only: mset_map mset_sort)
    with assms(1) show ?thesis unfolding keys_distinct_def by (metis mset_eq_imp_distinct_iff)
  qed
  ultimately show "sorted_wrt (<) (map grp (map snd (sort_key fst m)))"
    by (simp only: strict_sorted_iff)
  show "set (map snd (sort_key fst m)) = ran (map_of m)"
    using assms(1) by (simp add: ran_distinct keys_distinct_def)
qed


lemma includable_entry:
  assumes "context_ok ctx" and inv: "table_inv ctx S t"
  shows "candidate_includable (tc_candidate_digest ctx c) ctx t \<and> tc_candidate_group ctx c = g \<longleftrightarrow>
      (\<exists>x\<in>set (candidate_votes t). includable_in ctx g x \<and> cd_candidate (snd x) = c)"
    (is "?lhs \<longleftrightarrow> ?rhs")
proof
  have inj: "inj (tc_candidate_digest ctx)" using assms(1) by (simp add: context_ok_def)
  have dist: "keys_distinct (candidate_votes t)" using inv by (simp add: table_inv_def)
  have entry: "d = tc_candidate_digest ctx (cd_candidate cd)" "cd_group_id cd = tc_candidate_group ctx (cd_candidate cd)"
    if "map_of (candidate_votes t) d = Some cd" for d cd
    using inv that by (simp_all add: table_inv_def candidate_ok_def)
  {
    assume ?lhs
    then obtain cd where cd: "map_of (candidate_votes t) (tc_candidate_digest ctx c) = Some cd"
      "can_be_included cd (tc_requisite_votes ctx (cd_group_id cd))" "tc_candidate_group ctx c = g"
      by (auto simp: candidate_includable_def split: option.splits)
    have c: "cd_candidate cd = c" using entry(1) [OF cd(1)] by (simp only: inj_eq [OF inj])
    show ?rhs
    proof (rule bexI)
      show "(tc_candidate_digest ctx c, cd) \<in> set (candidate_votes t)" using cd(1) by (rule map_of_SomeD)
      show "includable_in ctx g (tc_candidate_digest ctx c, cd) \<and> cd_candidate (snd (tc_candidate_digest ctx c, cd)) = c"
        using cd(2,3) entry(2) [OF cd(1)] c by (simp add: includable_in_def)
    qed
  next
    assume ?rhs
    then obtain x where x: "x \<in> set (candidate_votes t)" "includable_in ctx g x" "cd_candidate (snd x) = c" by blast
    then have m: "map_of (candidate_votes t) (fst x) = Some (snd x)" using map_of_Some_iff [OF dist] by simp
    show ?lhs
      using entry [OF m] m x(2,3) by (simp add: candidate_includable_def includable_in_def)
  }
qed

section \<open>Properties of the table\<close>

text \<open>
  C19. The count of includable candidates is exact: in every table that can arise, a group has an
  entry exactly when some candidate of the group has the requisite votes and nobody called it
  bad, and the entry is the number of such candidates.
\<close>

theorem includable_count_exact:
  assumes "context_ok ctx" "table_reachable ctx S t"
  shows "map_of (includable_count t) g =
    (let n = card {d. candidate_includable d ctx t \<and>
        map_option cd_group_id (map_of (candidate_votes t) d) = Some g}
     in if n = 0 then None else Some n)"
proof -
  have inv: "table_inv ctx S t" using assms(2,1) by (rule table_reachable_inv)
  then have dist: "keys_distinct (candidate_votes t)" by (simp add: table_inv_def)
  have "{d. candidate_includable d ctx t \<and> map_option cd_group_id (map_of (candidate_votes t) d) = Some g}
      = keys_with (includable_in ctx g) (candidate_votes t)"
    unfolding keys_with_map_of [OF dist]
    by (auto simp: candidate_includable_def includable_in_def split: option.splits)
  then show ?thesis
    using inv by (simp add: card_keys_with [OF dist] table_inv_def counts_ok_def)
qed

text \<open>
  C22. Importing never panics: in every table that can arise, any signed statement is imported,
  so neither the lookup behind an earlier proposal nor the issuance vote can fail.
\<close>

theorem import_statement_total:
  assumes "context_ok ctx" "table_reachable ctx S t"
  shows "\<exists>sm t'. import_statement ctx st from t = Some (sm, t')"
proof -
  have "table_inv ctx (insert st S) t"
    using table_reachable_inv [OF assms(2,1)] by (rule table_inv_mono) auto
  from import_statement_inv [OF assms(1) this, of st "from"] show ?thesis by auto
qed

text \<open>
  C21. Misbehaviour reports are proofs: whoever the table accuses has signed, among the imported
  statements, exactly the conflicting or unauthorized statements that the report contains.
\<close>

theorem table_misbehavior_proven:
  assumes "context_ok ctx" "table_reachable ctx S t"
    and "map_of (detected_misbehavior t) v = Some mb"
  shows "proves ctx S v mb"
  using table_reachable_inv [OF assms(2,1)] assms(3) by (simp add: table_inv_def)

text \<open>
  C20. The proposal: the proposed candidates come in ascending order of their groups, one per group
  that has an includable candidate, and each is the least includable candidate of its group.
\<close>

theorem proposed_candidates_best:
  assumes "context_ok ctx" "table_reachable ctx S t"
  shows "sorted_wrt (<) (map (tc_candidate_group ctx) (proposed_candidates ctx t)) \<and>
    set (proposed_candidates ctx t) =
      {c. candidate_includable (tc_candidate_digest ctx c) ctx t \<and>
          (\<forall>c'. candidate_includable (tc_candidate_digest ctx c') ctx t \<and>
             tc_candidate_group ctx c' = tc_candidate_group ctx c \<longrightarrow> c \<le> c')}"
proof -
  have inv: "table_inv ctx S t" using assms(2,1) by (rule table_reachable_inv)
  note incl = includable_entry [OF assms(1) inv]
  have best: "keys_distinct (best_candidates ctx t)"
    "map_of (best_candidates ctx t) g = Some c \<longleftrightarrow> least_in ctx (candidate_votes t) g c" for g c
    using best_candidates_ok [OF inv] by (auto simp: best_ok_def)
  have group: "tc_candidate_group ctx c = g" if "map_of (best_candidates ctx t) g = Some c" for g c
    using that incl [of c g] by (simp add: best(2) least_in_def)
  have "ran (map_of (best_candidates ctx t)) =
      {c. least_in ctx (candidate_votes t) (tc_candidate_group ctx c) c}"
    using group unfolding best(2) [symmetric] by (auto simp: ran_def)
  also have "\<dots> = {c. candidate_includable (tc_candidate_digest ctx c) ctx t \<and>
          (\<forall>c'. candidate_includable (tc_candidate_digest ctx c') ctx t \<and>
             tc_candidate_group ctx c' = tc_candidate_group ctx c \<longrightarrow> c \<le> c')}"
  proof (rule Collect_cong)
    fix c
    show "least_in ctx (candidate_votes t) (tc_candidate_group ctx c) c \<longleftrightarrow>
        candidate_includable (tc_candidate_digest ctx c) ctx t \<and>
          (\<forall>c'. candidate_includable (tc_candidate_digest ctx c') ctx t \<and>
             tc_candidate_group ctx c' = tc_candidate_group ctx c \<longrightarrow> c \<le> c')"
      unfolding least_in_def incl incl [of c "tc_candidate_group ctx c", simplified] by auto
  qed
  finally show ?thesis
    using map_snd_sort_key_group [OF best(1) group] by (simp add: proposed_candidates_def)
qed

lemma candidate_statements_imported:
  assumes "context_ok ctx" "candidate_ok ctx S d cd"
  shows "snd ` set (candidate_statements (d, cd)) \<subseteq> S"
proof
  fix st assume "st \<in> snd ` set (candidate_statements (d, cd))"
  then consider v vote where "(v, vote) \<in> set (cd_validity_votes cd)" "st = snd (vote_statement d (cd_candidate cd) (v, vote))"
    | v s where "(v, s) \<in> set (cd_availability_votes cd)" "st = signed_by v (Available d) s"
    by (auto simp: candidate_statements_def)
  then show "st \<in> S"
  proof cases
    case 1
    with assms(2) have "vote_in ctx S d v vote" "tc_candidate_digest ctx (cd_candidate cd) = d"
      by (auto simp: candidate_ok_def)
    with 1(2) assms(1) show ?thesis
      by (cases vote) (auto simp: context_ok_def dest: injD)
  next
    case 2
    with assms(2) show ?thesis by (auto simp: candidate_ok_def)
  qed
qed

definition known_to :: "('c, 'd, 'g, 'v, 's) Table \<Rightarrow> 'v \<Rightarrow> ('v, 'd) StatementTrace set" where
  "known_to t v = set (ad_known_statements (data_of (authority_data t) v))"

lemma table_statements_imported:
  assumes "context_ok ctx" "table_inv ctx S t"
  shows "snd ` set (concat (map candidate_statements (candidate_votes t))) \<subseteq> S"
proof -
  have dist: "keys_distinct (candidate_votes t)" using assms(2) by (simp add: table_inv_def)
  have "snd ` set (candidate_statements x) \<subseteq> S" if "x \<in> set (candidate_votes t)" for x
  proof -
    have "map_of (candidate_votes t) (fst x) = Some (snd x)" using that map_of_Some_iff [OF dist] by simp
    with assms(2) have "candidate_ok ctx S (fst x) (snd x)" by (simp add: table_inv_def)
    from candidate_statements_imported [OF assms(1) this] show ?thesis by simp
  qed
  then show ?thesis by (simp add: image_UN UN_subset_iff)
qed

lemma votes_among_statements:
  assumes "fst ` set (candidate_statements (d, cd)) \<subseteq> K"
  shows "(\<forall>x\<in>set (cd_validity_votes cd). fst (vote_statement d (cd_candidate cd) x) \<in> K) \<and>
    (\<forall>x\<in>set (cd_availability_votes cd). Trace_Available (fst x) d \<in> K)"
proof (intro conjI ballI)
  fix x assume "x \<in> set (cd_validity_votes cd)"
  then have "vote_statement d (cd_candidate cd) x \<in> set (candidate_statements (d, cd))" by (auto simp: candidate_statements_def)
  with assms show "fst (vote_statement d (cd_candidate cd) x) \<in> K" by blast
next
  fix x assume "x \<in> set (cd_availability_votes cd)"
  then have "(Trace_Available (fst x) d, signed_by (fst x) (Available d) (snd x)) \<in> set (candidate_statements (d, cd))"
    by (force simp: candidate_statements_def)
  with assms show "Trace_Available (fst x) d \<in> K" by force
qed

lemma subseq_set: "subseq xs ys \<Longrightarrow> set xs \<subseteq> set ys"
  by (induction rule: list_emb.induct) auto

text \<open>
  C23. Relaying, whether or not the batch fills up: \<^verbatim>\<open>fill_batch\<close> walks the recorded statements in order, of each candidate the votes
  and the availability statements, up to the first one the batch refuses.  It appends to the batch only statements that were
  imported as signed, each of which some target had not seen, none twice.  Every target, and nobody else, is afterwards noted
  to know what was sent, and every statement walked past is known to all the targets.  The walk stops early only at a statement some
  target still has not seen and which the batch refused; otherwise every recorded vote is known to every target and a second fill
  leaves the batch as it is.  The batch is assumed to grow by what it accepts and to keep its targets.
\<close>

theorem fill_batch_once:
  assumes "context_ok ctx" "table_reachable ctx S t" "distinct (targets B b)"
    and fill: "fill_batch B b t = (b', t')"
    and push: "recording_batch B content"
  shows "t' = t\<lparr>authority_data := authority_data t'\<rparr> \<and>
    (\<exists>sent seen rest. concat (map candidate_statements (candidate_votes t)) = seen @ rest \<and> subseq sent seen \<and> distinct (map fst sent) \<and>
      content b' = content b @ map snd sent \<and> snd ` set sent \<subseteq> S \<and>
      (\<forall>(trace, st)\<in>set sent. \<exists>v\<in>set (targets B b). trace \<notin> known_to t v) \<and>
      (\<forall>v. known_to t' v = known_to t v \<union> (if v \<in> set (targets B b) then fst ` set sent else {})) \<and>
      (\<forall>(trace, st)\<in>set seen. \<forall>v\<in>set (targets B b). trace \<in> known_to t' v) \<and>
      (case rest of
         (trace, st) # later \<Rightarrow> (\<exists>v\<in>set (targets B b). trace \<notin> known_to t' v) \<and>
           (\<exists>b1. content b1 = content b' \<and> batch_push B st b1 = (False, b'))
       | [] \<Rightarrow> fst (fill_batch B b' t') = b' \<and>
           (\<forall>(d, cd)\<in>set (candidate_votes t). \<forall>w\<in>set (targets B b).
              (\<forall>x\<in>set (cd_validity_votes cd). fst (vote_statement d (cd_candidate cd) x) \<in> known_to t' w) \<and>
              (\<forall>x\<in>set (cd_availability_votes cd). Trace_Available (fst x) d \<in> known_to t' w))))"
proof -
  let ?sts = "concat (map candidate_statements (candidate_votes t))"
  have imported: "snd ` set ?sts \<subseteq> S"
    by (rule table_statements_imported [OF assms(1) table_reachable_inv [OF assms(2,1)]])
  obtain ad trs where t': "t' = t\<lparr>authority_data := ad\<rparr>"
    and send: "attempt_send_all B ?sts (map (\<lambda>v. (v, data_of (authority_data t) v)) (targets B b)) b
     = (map (\<lambda>v. (v, data_of ad v)) (targets B b), b')"
    and others: "\<And>v. data_of ad v = (if v \<in> set (targets B b) then fold note_known trs (data_of (authority_data t) v)
       else data_of (authority_data t) v)"
    by (rule fill_batch_spec [OF assms(3) fill]) (rule that; assumption)
  from attempt_send_all_exact [OF push send] obtain sent seen rest where
    e: "?sts = seen @ rest" "subseq sent seen" "distinct (map fst sent)" "content b' = content b @ map snd sent"
      "targets B b' = targets B b"
      "\<forall>(trace, st)\<in>set sent. \<exists>x\<in>set (map (\<lambda>v. (v, data_of (authority_data t) v)) (targets B b)). trace \<notin> set (ad_known_statements (snd x))"
      "map (\<lambda>v. (v, data_of ad v)) (targets B b) = map (apsnd (fold note_known (map fst sent))) (map (\<lambda>v. (v, data_of (authority_data t) v)) (targets B b))"
      "\<forall>(trace, st)\<in>set seen. \<forall>x\<in>set (map (\<lambda>v. (v, data_of ad v)) (targets B b)). trace \<in> set (ad_known_statements (snd x))"
      "case rest of [] \<Rightarrow> True | (trace, st) # later \<Rightarrow> (\<exists>x\<in>set (map (\<lambda>v. (v, data_of ad v)) (targets B b)). trace \<notin> set (ad_known_statements (snd x))) \<and>
         (\<exists>b1. content b1 = content b' \<and> batch_push B st b1 = (False, b'))"
    by (elim exE conjE) (rule that; assumption)
  have unseen: "\<forall>(trace, st)\<in>set sent. \<exists>v\<in>set (targets B b). trace \<notin> known_to t v" using e(6) by (simp add: known_to_def)
  have passed: "\<forall>(trace, st)\<in>set seen. \<forall>v\<in>set (targets B b). trace \<in> known_to t' v" using e(8) by (simp add: known_to_def t')
  have known: "known_to t' v = known_to t v \<union> (if v \<in> set (targets B b) then fst ` set sent else {})" for v
  proof (cases "v \<in> set (targets B b)")
    case True
    then have "data_of ad v = fold note_known (map fst sent) (data_of (authority_data t) v)" using e(7) by simp
    then show ?thesis using True by (simp add: known_to_def t')
  qed (simp add: known_to_def t' others)
  have again: "fst (fill_batch B b' t') = b'" if "rest = []"
  proof -
    obtain td ad0 where take: "take_target_data (targets B b) ad = (td, ad0)" by fastforce
    from take_target_data_spec [OF assms(3) this] have td: "td = map (\<lambda>v. (v, data_of ad v)) (targets B b)" by simp
    have "attempt_send_all B ?sts td b' = (td, b')"
      using e(1) passed that by (intro attempt_send_all_known) (auto simp: td known_to_def t')
    then show ?thesis using take by (simp add: fill_batch_def t' e(5))
  qed
  have all: "\<forall>(d, cd)\<in>set (candidate_votes t). \<forall>w\<in>set (targets B b).
      (\<forall>x\<in>set (cd_validity_votes cd). fst (vote_statement d (cd_candidate cd) x) \<in> known_to t' w) \<and>
      (\<forall>x\<in>set (cd_availability_votes cd). Trace_Available (fst x) d \<in> known_to t' w)" if "rest = []"
  proof (clarify, rule votes_among_statements)
    fix d cd w assume "(d, cd) \<in> set (candidate_votes t)" "w \<in> set (targets B b)"
    moreover have "set seen = set ?sts" using e(1) that by simp
    ultimately have "set (candidate_statements (d, cd)) \<subseteq> set seen" by auto
    then show "fst ` set (candidate_statements (d, cd)) \<subseteq> known_to t' w" using passed \<open>w \<in> set (targets B b)\<close> by fastforce
  qed
  have stop: "case rest of
         (trace, st) # later \<Rightarrow> (\<exists>v\<in>set (targets B b). trace \<notin> known_to t' v) \<and>
           (\<exists>b1. content b1 = content b' \<and> batch_push B st b1 = (False, b'))
       | [] \<Rightarrow> fst (fill_batch B b' t') = b' \<and>
           (\<forall>(d, cd)\<in>set (candidate_votes t). \<forall>w\<in>set (targets B b).
              (\<forall>x\<in>set (cd_validity_votes cd). fst (vote_statement d (cd_candidate cd) x) \<in> known_to t' w) \<and>
              (\<forall>x\<in>set (cd_availability_votes cd). Trace_Available (fst x) d \<in> known_to t' w))"
    using e(9) again all by (cases rest) (auto simp: known_to_def t')
  have "set sent \<subseteq> set ?sts" using e(1) subseq_set [OF e(2)] by auto
  then have "snd ` set sent \<subseteq> S" using imported by blast
  with e(1-4) unseen known passed stop t' show ?thesis
    by (intro conjI exI [of _ sent] exI [of _ seen] exI [of _ rest]) simp_all
qed


section \<open>A concrete table\<close>

fun import_run ::
  "('c, 'd, 'g, 'v) TableContext \<Rightarrow> ('c, 'd, 'v, 's) SignedStatement list \<Rightarrow> ('c, 'd, 'g, 'v, 's) Table
   \<Rightarrow> ('c, 'd, 'g, 'v, 's) Table option"
where
  "import_run ctx [] t = Some t"
| "import_run ctx (st # sts) t =
     (case import_statement ctx st None t of None \<Rightarrow> None | Some (_, t') \<Rightarrow> import_run ctx sts t')"

lemma import_run_reachable:
  "import_run ctx sts t = Some t' \<Longrightarrow> table_reachable ctx S t \<Longrightarrow> table_reachable ctx (set sts \<union> S) t'"
proof (induction sts arbitrary: t S)
  case (Cons st sts)
  then obtain sm t1 where "import_statement ctx st None t = Some (sm, t1)" "import_run ctx sts t1 = Some t'"
    by (auto split: option.splits)
  with Cons.IH [OF _ imported [OF Cons.prems(2)]] show ?case by fastforce
qed simp

definition sample_context :: "(nat, nat, nat, nat) TableContext" where
  "sample_context = \<lparr>tc_candidate_digest = (\<lambda>c. c), tc_candidate_group = (\<lambda>c. c div 10),
     tc_is_member_of = (\<lambda>v g. v < 3), tc_is_availability_guarantor_of = (\<lambda>v g. 2 \<le> v),
     tc_requisite_votes = (\<lambda>g. (2, 1))\<rparr>"

definition sample_statements :: "(nat, nat, nat, nat) SignedStatement list" where
  "sample_statements =
     [signed_by 0 (Candidate 25) 100, signed_by 1 (Valid 25) 101, signed_by 4 (Available 25) 102,
      signed_by 1 (Candidate 11) 103, signed_by 2 (Valid 11) 104, signed_by 2 (Available 11) 105,
      signed_by 2 (Candidate 12) 106, signed_by 0 (Valid 12) 107, signed_by 3 (Available 12) 108,
      signed_by 2 (Invalid 11) 109]"

definition sample_table :: "(nat, nat, nat, nat, nat) Table" where
  "sample_table = the (import_run sample_context sample_statements Table_default)"

lemma sample_context_ok: "context_ok sample_context"
  by (simp add: context_ok_def sample_context_def)

lemma sample_table_reachable: "table_reachable sample_context (set sample_statements) sample_table"
proof -
  have "import_run sample_context sample_statements Table_default \<noteq> None" by code_simp
  then have "import_run sample_context sample_statements Table_default = Some sample_table"
    by (auto simp: sample_table_def)
  from import_run_reachable [OF this fresh_table] show ?thesis by simp
qed

theorem includable_count_exact_witness:
  "map_of (includable_count sample_table) 1 = Some 2 \<and>
   card {d. candidate_includable d sample_context sample_table \<and>
     map_option cd_group_id (map_of (candidate_votes sample_table) d) = Some 1} = 2"
proof -
  have "map_of (includable_count sample_table) 1 = Some 2" by code_simp
  with includable_count_exact [OF sample_context_ok sample_table_reachable, of 1] show ?thesis
    by (simp add: Let_def split: if_splits)
qed

theorem import_statement_total_witness:
  "\<exists>sm t'. import_statement sample_context (signed_by 0 (Candidate 26) 110) None sample_table = Some (sm, t')"
  by (rule import_statement_total [OF sample_context_ok sample_table_reachable])

theorem table_misbehavior_proven_witness:
  "map_of (detected_misbehavior sample_table) 2 =
     Some (Mb_ValidityDoubleVote (ValidityAndInvalidity 11 104 109)) \<and>
   proves sample_context (set sample_statements) 2 (Mb_ValidityDoubleVote (ValidityAndInvalidity 11 104 109))"
proof -
  have "map_of (detected_misbehavior sample_table) 2 =
     Some (Mb_ValidityDoubleVote (ValidityAndInvalidity 11 104 109))" by code_simp
  with table_misbehavior_proven [OF sample_context_ok sample_table_reachable this] show ?thesis by simp
qed

theorem proposed_candidates_best_witness:
  "proposed_candidates sample_context sample_table = [11, 25] \<and>
   {c'. candidate_includable c' sample_context sample_table \<and> c' div 10 = 1} \<subseteq> {11..}"
proof -
  have p: "proposed_candidates sample_context sample_table = [11, 25]" by code_simp
  from proposed_candidates_best [OF sample_context_ok sample_table_reachable]
  have "11 \<in> {c. candidate_includable (tc_candidate_digest sample_context c) sample_context sample_table \<and>
          (\<forall>c'. candidate_includable (tc_candidate_digest sample_context c') sample_context sample_table \<and>
             tc_candidate_group sample_context c' = tc_candidate_group sample_context c \<longrightarrow> c \<le> c')}"
    unfolding p by (auto dest: equalityD1)
  with p show ?thesis by (auto simp: sample_context_def)
qed

text \<open>A batch with room for \<open>n\<close> statements.\<close>

definition sample_batch :: "nat \<Rightarrow> (nat, (nat, nat, nat, nat) SignedStatement, (nat, nat, nat, nat) SignedStatement list) StatementBatch" where
  "sample_batch n = \<lparr>targets = (\<lambda>_. [7, 8]), batch_push = (\<lambda>st b. if length b < n then (True, b @ [st]) else (False, b))\<rparr>"

theorem fill_batch_once_witness:
  "length (fst (fill_batch (sample_batch 5) [] sample_table)) = 5 \<and>
   (\<exists>sent seen rest. concat (map candidate_statements (candidate_votes sample_table)) = seen @ rest \<and> subseq sent seen \<and>
     fst (fill_batch (sample_batch 5) [] sample_table) = map snd sent \<and> rest \<noteq> [] \<and> snd ` set sent \<subseteq> set sample_statements)"
proof -
  obtain b' t' where f: "fill_batch (sample_batch 5) [] sample_table = (b', t')" by fastforce
  have n: "length (fst (fill_batch (sample_batch 5) [] sample_table)) = 5" by code_simp
  have rec: "recording_batch (sample_batch 5) (\<lambda>b. b)" by (auto simp: recording_batch_def sample_batch_def split: if_splits)
  have "distinct (targets (sample_batch 5) [])" by (simp add: sample_batch_def)
  from fill_batch_once [OF sample_context_ok sample_table_reachable this f rec]
  obtain sent seen rest where *: "concat (map candidate_statements (candidate_votes sample_table)) = seen @ rest" "subseq sent seen"
    "b' = [] @ map snd sent" "snd ` set sent \<subseteq> set sample_statements"
    "(\<forall>(trace, st)\<in>set seen. \<forall>v\<in>set (targets (sample_batch 5) []). trace \<in> known_to t' v)"
    by (elim exE conjE) (rule that; assumption)
  have "\<exists>x\<in>set (concat (map candidate_statements (candidate_votes sample_table))).
     fst x \<notin> known_to (snd (fill_batch (sample_batch 5) [] sample_table)) 7" by code_simp
  then obtain x where x: "x \<in> set (seen @ rest)" "fst x \<notin> known_to t' 7" by (auto simp: f *(1))
  have "x \<notin> set seen"
  proof
    assume "x \<in> set seen"
    from bspec [OF *(5) this] x(2) show False by (simp add: sample_batch_def split: prod.splits)
  qed
  with x(1) have "rest \<noteq> []" by auto
  with * n f show ?thesis by (intro conjI exI [of _ sent] exI [of _ seen] exI [of _ rest]) simp_all
qed

end
