(* ===== verification/Safe_Mix.thy ===== *)
theory Safe_Mix
  imports Main "HOL-Library.Word"
begin

text \<open>
  The randomness mixer \<^verbatim>\<open>src/safe-mix/src/lib.rs\<close>, by which \<^verbatim>\<open>system::calculate_random\<close> turns
  eighty-one block hashes into the random seed of a block, and the equivalence of its streaming
  loop with the tree of three-way majorities it stands for.
\<close>

type_synonym hash = "256 word"

section \<open>The mixer\<close>

unbundle bit_operations_syntax

definition MAX_DEPTH :: nat where "MAX_DEPTH = 17"

definition sub_mix :: "hash list \<Rightarrow> hash" where
  "sub_mix seeds = ((seeds ! 0 AND seeds ! 1) OR (seeds ! 1 AND seeds ! 2)) OR (seeds ! 0 AND seeds ! 2)"

text \<open>
  The inner loop over the depths from \<open>d\<close> on, \<open>fuel\<close> of them: a completed triple is mixed and
  its result stored one level up.
\<close>

fun mix_depths :: "nat \<Rightarrow> nat \<Rightarrow> nat \<Rightarrow> hash list list \<Rightarrow> hash \<Rightarrow> hash list list \<times> hash" where
  "mix_depths 0 d idx accum result = (accum, result)"
| "mix_depths (Suc fuel) d idx accum result =
    (if idx mod 3 \<noteq> 2 then (accum, result)
     else
       let idx' = idx div 3;
           result' = sub_mix (accum ! d) in
       if d = MAX_DEPTH - 1 then (accum, result')
       else mix_depths fuel (d + 1) idx'
         (accum[d + 1 := (accum ! (d + 1))[idx' mod 3 := result']]) result')"

fun mix_seeds :: "nat \<Rightarrow> hash list \<Rightarrow> hash list list \<Rightarrow> hash \<Rightarrow> hash list list \<times> hash" where
  "mix_seeds i [] accum result = (accum, result)"
| "mix_seeds i (seed # seeds) accum result =
    (case mix_depths MAX_DEPTH 0 i (accum[0 := (accum ! 0)[i mod 3 := seed]]) result of
      (accum', result') \<Rightarrow> mix_seeds (i + 1) seeds accum' result')"

definition triplet_mix :: "hash list \<Rightarrow> hash" where
  "triplet_mix seeds = snd (mix_seeds 0 seeds (replicate MAX_DEPTH (replicate 3 0)) 0)"


section \<open>Equivalence with the tree\<close>

text \<open>The reference: the majority of three, applied as a complete ternary tree.\<close>

fun mix_tree :: "nat \<Rightarrow> hash list \<Rightarrow> hash" where
  "mix_tree 0 seeds = seeds ! 0"
| "mix_tree (Suc n) seeds =
    sub_mix [mix_tree n (take (3 ^ n) seeds),
             mix_tree n (take (3 ^ n) (drop (3 ^ n) seeds)),
             mix_tree n (drop (2 * 3 ^ n) seeds)]"

definition accum_ok :: "hash list list \<Rightarrow> bool" where
  "accum_ok accum \<longleftrightarrow> length accum = MAX_DEPTH \<and> (\<forall>row \<in> set accum. length row = 3)"

lemma accum_ok_row: "accum_ok accum \<Longrightarrow> d < 17 \<Longrightarrow> length (accum ! d) = 3"
  by (simp add: accum_ok_def MAX_DEPTH_def)

lemma accum_ok_store: "accum_ok accum \<Longrightarrow> d < 17 \<Longrightarrow> accum_ok (accum[d := (accum ! d)[j := v]])"
  using set_update_subset_insert [of accum d "(accum ! d)[j := v]"]
  by (auto simp: accum_ok_def MAX_DEPTH_def)

text \<open>
  What processing one complete block of \<open>3 ^ n\<close> seeds does: its tree value is stored in row
  \<open>n\<close> and the loop over depths goes on from there.
\<close>

definition block_ok :: "nat \<Rightarrow> bool" where
  "block_ok n \<longleftrightarrow> (\<forall>i seeds rest accum r. accum_ok accum \<longrightarrow> 3 ^ n dvd i \<longrightarrow> length seeds = 3 ^ n \<longrightarrow>
    (\<exists>accum1 r1. accum_ok accum1 \<and> (\<forall>d. n \<le> d \<longrightarrow> d < 17 \<longrightarrow> accum1 ! d = accum ! d) \<and>
      mix_seeds i (seeds @ rest) accum r =
        (case mix_depths (17 - n) n (i div 3 ^ n)
                (accum1[n := (accum1 ! n)[i div 3 ^ n mod 3 := mix_tree n seeds]]) r1 of
          (accum', r') \<Rightarrow> mix_seeds (i + 3 ^ n) rest accum' r')))"

lemma block_okD:
  assumes "block_ok n" "accum_ok accum" "3 ^ n dvd i" "length seeds = 3 ^ n"
  obtains accum1 r1 where "accum_ok accum1" "\<And>d. n \<le> d \<Longrightarrow> d < 17 \<Longrightarrow> accum1 ! d = accum ! d"
    "mix_seeds i (seeds @ rest) accum r =
        (case mix_depths (17 - n) n (i div 3 ^ n)
                (accum1[n := (accum1 ! n)[i div 3 ^ n mod 3 := mix_tree n seeds]]) r1 of
          (accum', r') \<Rightarrow> mix_seeds (i + 3 ^ n) rest accum' r')"
  using assms unfolding block_ok_def by metis

lemma mix_depths_stop: "idx mod 3 \<noteq> 2 \<Longrightarrow> mix_depths fuel d idx accum r = (accum, r)"
  by (cases fuel) auto

lemma list3_eq: "length xs = 3 \<Longrightarrow> xs = [xs ! 0, xs ! 1, xs ! 2]"
  by (auto simp: numeral_3_eq_3 numeral_2_eq_2 length_Suc_conv)

lemma three_blocks:
  assumes blk: "block_ok n" and n: "n < 17" and ok: "accum_ok accum"
    and dvd: "3 ^ Suc n dvd i" and len: "length seeds = 3 ^ Suc n"
  obtains accum3 r3 where "accum_ok accum3" "\<And>d. Suc n \<le> d \<Longrightarrow> d < 17 \<Longrightarrow> accum3 ! d = accum ! d"
    "sub_mix (accum3 ! n) = mix_tree (Suc n) seeds"
    "mix_seeds i (seeds @ rest) accum r =
      (case mix_depths (17 - n) n (3 * (i div 3 ^ Suc n) + 2) accum3 r3 of
        (accum', r') \<Rightarrow> mix_seeds (i + 3 ^ Suc n) rest accum' r')"
proof -
  define k where "k = i div 3 ^ Suc n"
  define w :: nat where "w = 3 ^ n"
  have i: "i = 3 * k * w" using dvd by (auto simp: k_def w_def)
  have w: "w > 0" by (simp add: w_def)
  define s1 where "s1 = take w seeds"
  define s2 where "s2 = take w (drop w seeds)"
  define s3 where "s3 = drop (2 * w) seeds"
  have split: "seeds @ rest = s1 @ s2 @ s3 @ rest"
  proof -
    have "s2 @ s3 = drop w seeds"
      unfolding s2_def s3_def by (metis append_take_drop_id drop_drop mult_2)
    then show ?thesis by (metis append_assoc append_take_drop_id s1_def)
  qed
  have lens: "length s1 = 3 ^ n" "length s2 = 3 ^ n" "length s3 = 3 ^ n"
    using len by (simp_all add: s1_def s2_def s3_def w_def)
  have tree: "mix_tree (Suc n) seeds = sub_mix [mix_tree n s1, mix_tree n s2, mix_tree n s3]"
    by (simp add: s1_def s2_def s3_def w_def)
  have dvds: "3 ^ n dvd i" "3 ^ n dvd i + w" "3 ^ n dvd i + 2 * w"
    by (simp_all add: i w_def)
  have divs: "i div 3 ^ n = 3 * k" "(i + w) div 3 ^ n = 3 * k + 1" "(i + 2 * w) div 3 ^ n = 3 * k + 2"
    using w by (simp_all add: i w_def [symmetric] div_add1_eq)
  obtain a1 r1 where a1: "accum_ok a1" "\<And>d. n \<le> d \<Longrightarrow> d < 17 \<Longrightarrow> a1 ! d = accum ! d"
    and e1: "mix_seeds i (s1 @ s2 @ s3 @ rest) accum r =
      mix_seeds (i + w) (s2 @ s3 @ rest) (a1[n := (a1 ! n)[0 := mix_tree n s1]]) r1"
    using block_okD [OF blk ok dvds(1) lens(1), of "s2 @ s3 @ rest" r]
    by (auto simp: divs mix_depths_stop w_def)
  define b1 where "b1 = a1[n := (a1 ! n)[0 := mix_tree n s1]]"
  have b1: "accum_ok b1" using a1(1) n by (simp add: b1_def accum_ok_store)
  obtain a2 r2 where a2: "accum_ok a2" "\<And>d. n \<le> d \<Longrightarrow> d < 17 \<Longrightarrow> a2 ! d = b1 ! d"
    and e2: "mix_seeds (i + w) (s2 @ s3 @ rest) b1 r1 =
      mix_seeds (i + 2 * w) (s3 @ rest) (a2[n := (a2 ! n)[1 := mix_tree n s2]]) r2"
  proof -
    have m: "(3 * k + 1) mod 3 = 1" by presburger
    have st: "mix_depths (17 - n) n (3 * k + 1) a r' = (a, r')" for a r'
      by (rule mix_depths_stop) (simp add: m)
    have w2: "i + 2 * w = i + w + 3 ^ n" by (simp add: w_def)
    show ?thesis
      using block_okD [OF blk b1 dvds(2) lens(2), of "s3 @ rest" r1] that
      unfolding divs m st w2 prod.case by metis
  qed
  define b2 where "b2 = a2[n := (a2 ! n)[1 := mix_tree n s2]]"
  have b2: "accum_ok b2" using a2(1) n by (simp add: b2_def accum_ok_store)
  obtain a3 r3 where a3: "accum_ok a3" "\<And>d. n \<le> d \<Longrightarrow> d < 17 \<Longrightarrow> a3 ! d = b2 ! d"
    and e3: "mix_seeds (i + 2 * w) (s3 @ rest) b2 r2 =
      (case mix_depths (17 - n) n (3 * k + 2) (a3[n := (a3 ! n)[2 := mix_tree n s3]]) r3 of
        (accum', r') \<Rightarrow> mix_seeds (i + 2 * w + w) rest accum' r')"
  proof -
    have m: "(3 * k + 2) mod 3 = 2" by presburger
    have w2: "i + 2 * w + w = i + 2 * w + 3 ^ n" by (simp add: w_def)
    show ?thesis
      using block_okD [OF blk b2 dvds(3) lens(3), of rest r2] that
      unfolding divs m w2 by metis
  qed
  define b3 where "b3 = a3[n := (a3 ! n)[2 := mix_tree n s3]]"
  have b3: "accum_ok b3" using a3(1) n by (simp add: b3_def accum_ok_store)
  have lenn: "length a1 = 17" "length a2 = 17" "length a3 = 17"
    using a1 a2 a3 by (simp_all add: accum_ok_def MAX_DEPTH_def)
  have row: "b3 ! n = [mix_tree n s1, mix_tree n s2, mix_tree n s3]"
  proof -
    have "length (a1 ! n) = 3" using a1(1) n by (rule accum_ok_row)
    then have "b3 ! n = (((a1 ! n)[0 := mix_tree n s1])[1 := mix_tree n s2])[2 := mix_tree n s3]"
      using a2(2) [of n] a3(2) [of n] n lenn by (simp add: b3_def b2_def b1_def)
    then show ?thesis
      using list3_eq [of "b3 ! n"] \<open>length (a1 ! n) = 3\<close> by simp
  qed
  show ?thesis
  proof (rule that)
    show "accum_ok b3" by (rule b3)
    show "b3 ! d = accum ! d" if "Suc n \<le> d" "d < 17" for d
      using that a1(2) [of d] a2(2) [of d] a3(2) [of d] by (simp add: b1_def b2_def b3_def)
    show "sub_mix (b3 ! n) = mix_tree (Suc n) seeds" by (simp only: row tree)
    have w3: "i + 2 * w + w = i + 3 ^ Suc n" by (simp add: w_def)
    show "mix_seeds i (seeds @ rest) accum r =
      (case mix_depths (17 - n) n (3 * (i div 3 ^ Suc n) + 2) b3 r3 of
        (accum', r') \<Rightarrow> mix_seeds (i + 3 ^ Suc n) rest accum' r')"
      unfolding split e1 b1_def [symmetric] e2 b2_def [symmetric] e3 b3_def [symmetric] k_def [symmetric] w3
      by simp
  qed
qed

lemma block_ok_all: "n < 17 \<Longrightarrow> block_ok n"
proof (induction n)
  case 0
  show ?case
    unfolding block_ok_def
  proof (intro allI impI)
    fix i :: nat and seeds rest :: "hash list" and accum r
    assume ok: "accum_ok accum" and len: "length seeds = 3 ^ 0"
    then obtain x where "seeds = [x]" by (auto simp: length_Suc_conv)
    then show "\<exists>accum1 r1. accum_ok accum1 \<and> (\<forall>d. 0 \<le> d \<longrightarrow> d < 17 \<longrightarrow> accum1 ! d = accum ! d) \<and>
      mix_seeds i (seeds @ rest) accum r =
        (case mix_depths (17 - 0) 0 (i div 3 ^ 0)
                (accum1[0 := (accum1 ! 0)[i div 3 ^ 0 mod 3 := mix_tree 0 seeds]]) r1 of
          (accum', r') \<Rightarrow> mix_seeds (i + 3 ^ 0) rest accum' r')"
      using ok by (intro exI [of _ accum] exI [of _ r]) (simp add: MAX_DEPTH_def)
  qed
next
  case (Suc n)
  then have n: "n < 16" and blk: "block_ok n" by simp_all
  show ?case
    unfolding block_ok_def
  proof (intro allI impI)
    fix i :: nat and seeds rest :: "hash list" and accum r
    assume ok: "accum_ok accum" and dvd: "3 ^ Suc n dvd i" and len: "length seeds = 3 ^ Suc n"
    define k where "k = i div 3 ^ Suc n"
    obtain a3 r3 where a3: "accum_ok a3" "\<And>d. Suc n \<le> d \<Longrightarrow> d < 17 \<Longrightarrow> a3 ! d = accum ! d"
      "sub_mix (a3 ! n) = mix_tree (Suc n) seeds"
      and e: "mix_seeds i (seeds @ rest) accum r =
        (case mix_depths (17 - n) n (3 * k + 2) a3 r3 of
          (accum', r') \<Rightarrow> mix_seeds (i + 3 ^ Suc n) rest accum' r')"
      using three_blocks [OF blk _ ok dvd len, of rest r] n unfolding k_def by (metis less_SucI numeral_eq_Suc pred_numeral_simps(3) Suc_less_eq less_Suc_eq)
    have m: "(3 * k + 2) mod 3 = 2" "(3 * k + 2) div 3 = k" by presburger+
    have f: "17 - n = Suc (17 - Suc n)" using n by simp
    have "mix_depths (17 - n) n (3 * k + 2) a3 r3 =
      mix_depths (17 - Suc n) (Suc n) k (a3[Suc n := (a3 ! Suc n)[k mod 3 := mix_tree (Suc n) seeds]])
        (mix_tree (Suc n) seeds)"
      unfolding f mix_depths.simps using n
      by (simp only: m a3(3) Let_def) (simp add: MAX_DEPTH_def del: mix_tree.simps)
    then show "\<exists>accum1 r1. accum_ok accum1 \<and> (\<forall>d. Suc n \<le> d \<longrightarrow> d < 17 \<longrightarrow> accum1 ! d = accum ! d) \<and>
      mix_seeds i (seeds @ rest) accum r =
        (case mix_depths (17 - Suc n) (Suc n) (i div 3 ^ Suc n)
                (accum1[Suc n := (accum1 ! Suc n)[i div 3 ^ Suc n mod 3 := mix_tree (Suc n) seeds]]) r1 of
          (accum', r') \<Rightarrow> mix_seeds (i + 3 ^ Suc n) rest accum' r')"
      using a3(1,2) e unfolding k_def by metis
  qed
qed

lemma mix_depths_result:
  "idx < 3 \<Longrightarrow> idx mod 3 = 2 \<Longrightarrow> d < 17 \<Longrightarrow> fuel > 0 \<Longrightarrow> snd (mix_depths fuel d idx accum r) = sub_mix (accum ! d)"
  by (cases fuel) (auto simp: Let_def mix_depths_stop)

text \<open>
  C31.  For a sequence of \<open>3 ^ n\<close> seeds, one to seventeen levels, the streaming mixer, which
  keeps three values per level, computes the complete tree of three-way majorities.
\<close>

theorem triplet_mix_is_tree:
  assumes "1 \<le> n" "n \<le> MAX_DEPTH" "length seeds = 3 ^ n"
  shows "triplet_mix seeds = mix_tree n seeds"
proof -
  obtain m where n: "n = Suc m" and m: "m < 17" using assms by (cases n) (auto simp: MAX_DEPTH_def)
  have ok: "accum_ok (replicate MAX_DEPTH (replicate 3 0))" by (simp add: accum_ok_def)
  obtain a3 r3 where "sub_mix (a3 ! m) = mix_tree n seeds"
    "mix_seeds 0 (seeds @ []) (replicate MAX_DEPTH (replicate 3 0)) 0 =
      (case mix_depths (17 - m) m (3 * (0 div 3 ^ n) + 2) a3 r3 of
        (accum', r') \<Rightarrow> mix_seeds (0 + 3 ^ n) [] accum' r')"
    using three_blocks [OF block_ok_all [OF m] m ok, of 0 seeds "[]" 0] assms(3) unfolding n by (metis dvd_0_right)
  then show ?thesis
    using m by (simp add: triplet_mix_def mix_depths_result del: mix_tree.simps split: prod.split)
qed

text \<open>Nine seeds of which the first two triples have a majority of ones.\<close>

theorem triplet_mix_is_tree_witness:
  "triplet_mix [1, 1, 0, 1, 1, 1, 0, 0, 0] = mix_tree 2 [1, 1, 0, 1, 1, 1, 0, 0, 0] \<and>
   mix_tree 2 [1, 1, 0, 1, 1, 1, 0, 0, 0] = 1"
  using triplet_mix_is_tree [of 2 "[1, 1, 0, 1, 1, 1, 0, 0, 0]"]
  by (simp add: MAX_DEPTH_def numeral_2_eq_2 sub_mix_def)

end
