(* ===== verification/Runtime_System.thy ===== *)
theory Runtime_System
  imports Prelude Codec Safe_Mix "HOL-Library.Monad_Syntax"
begin

text \<open>
  The base modules of the chain's runtime: \<^verbatim>\<open>system\<close>, \<^verbatim>\<open>timestamp\<close> and \<^verbatim>\<open>consensus\<close>
  (\<^verbatim>\<open>src/substrate/runtime/{system,timestamp,consensus}/src/lib.rs\<close>) and the \<^verbatim>\<open>StorageVec\<close> they
  keep the authorities in (\<^verbatim>\<open>src/substrate/runtime-support/src/storage/mod.rs\<close>).

  Conventions for the runtime theories.
  \<^item> The storage of a module is a record; a module whose trait extends another's extends its
    record, so that an operation of \<^verbatim>\<open>system\<close> applies to the state of every module above it.
    A field is named by the module's storage prefix and the item (\<^verbatim>\<open>Number\<close> of
    \<^verbatim>\<open>b"sys:num"\<close> is \<open>sys_number\<close>).
  \<^item> A \<^verbatim>\<open>required\<close> value that the code removes and puts back is an option: reading it while it
    is absent panics.  A \<^verbatim>\<open>required\<close> value that genesis sets and nothing removes is a plain
    field.  A \<^verbatim>\<open>default\<close> map is a function to options read through its default, so that
    \<^verbatim>\<open>exists\<close> stays observable.
  \<^item> A panic of the runtime aborts the execution of the block: operations that can panic
    return an option and \<^const>\<open>None\<close> is the panic.
  \<^item> The concrete runtime has \<^verbatim>\<open>BlockNumber = u64\<close>, \<^verbatim>\<open>Moment = u64\<close>, \<^verbatim>\<open>AccountIndex = u64\<close>,
    \<^verbatim>\<open>Index = u32\<close> and \<^verbatim>\<open>Balance = u128\<close>.  They are natural numbers here and every addition and
    multiplication that can leave the range is wrapped explicitly, as the release build does.
\<close>

abbreviation u32 :: "nat \<Rightarrow> nat" where "u32 n \<equiv> n mod 2 ^ 32"
abbreviation u64 :: "nat \<Rightarrow> nat" where "u64 n \<equiv> n mod 2 ^ 64"
abbreviation u128 :: "nat \<Rightarrow> nat" where "u128 n \<equiv> n mod 2 ^ 128"

text \<open>The difference of two \<^verbatim>\<open>u64\<close> values, which wraps below zero.\<close>

definition sub64 :: "nat \<Rightarrow> nat \<Rightarrow> nat" where
  "sub64 a b = u64 (a + (2 ^ 64 - b))"

lemma sub64_ge: "b \<le> a \<Longrightarrow> a < 2 ^ 64 \<Longrightarrow> sub64 a b = a - b"
  by (simp add: sub64_def mod_if)

text \<open>\<^verbatim>\<open>assert!\<close>: a failing one panics.\<close>

definition assert :: "bool \<Rightarrow> unit option" where
  "assert c = (if c then Some () else None)"

lemma assert_simps [simp]: "assert True = Some ()" "assert False = None"
  by (simp_all add: assert_def)

lemma bind_assert: "Option.bind (assert c) f = (if c then f () else None)"
  by (simp add: assert_def)


section \<open>system\<close>

record 'a System =
  sys_account_nonce :: "'a \<rightharpoonup> nat"
  sys_block_hash :: "nat \<rightharpoonup> hash"
  sys_extrinsic_index :: "nat option"
  sys_extrinsic_data :: "nat \<rightharpoonup> byte list"
  sys_random_seed :: "hash option"
  sys_number :: "nat option"
  sys_parent_hash :: "hash option"
  sys_extrinsics_root :: "hash option"
  sys_digest :: "byte list list"

record header =
  hd_parent_hash :: hash
  hd_number :: nat
  hd_state_root :: hash
  hd_extrinsics_root :: hash
  hd_digest :: "byte list list"

definition account_nonce :: "('a, 'z) System_scheme \<Rightarrow> 'a \<Rightarrow> nat" where
  "account_nonce s who = (case sys_account_nonce s who of Some n \<Rightarrow> n | None \<Rightarrow> 0)"

text \<open>
  The eighty-one block numbers the seed is drawn from: the parent's number counted down,
  stopping at zero.
\<close>

fun random_numbers :: "nat \<Rightarrow> nat \<Rightarrow> nat list" where
  "random_numbers 0 c = []"
| "random_numbers (Suc k) c = (let c' = (if c > 0 then c - 1 else c) in c' # random_numbers k c')"

definition option_list :: "'v option list \<Rightarrow> 'v list option" where
  "option_list vs = (if None \<in> set vs then None else Some (map the vs))"

definition calculate_random :: "('a, 'z) System_scheme \<Rightarrow> hash option" where
  "calculate_random s = do {
    n \<leftarrow> sys_number s;
    assert (n > 0);
    hashes \<leftarrow> option_list (map (sys_block_hash s) (random_numbers 81 (n - 1)));
    Some (triplet_mix hashes)
  }"

definition initialise :: "nat \<Rightarrow> hash \<Rightarrow> hash \<Rightarrow> ('a, 'z) System_scheme \<Rightarrow> ('a, 'z) System_scheme option" where
  "initialise number parent_hash txs_root s =
    (let s1 = s\<lparr>sys_number := Some number,
                sys_parent_hash := Some parent_hash,
                sys_block_hash := (sys_block_hash s)(sub64 number 1 \<mapsto> parent_hash),
                sys_extrinsics_root := Some txs_root\<rparr> in
     do {
       seed \<leftarrow> calculate_random s1;
       Some (s1\<lparr>sys_random_seed := Some seed, sys_extrinsic_index := Some 0\<rparr>)
     })"

text \<open>
  The root of the whole storage is computed by the host (\<^verbatim>\<open>runtime_io::storage_root\<close>) from all
  of the state, so it is a function of it.
\<close>

definition finalise :: "(('a, 'z) System_scheme \<Rightarrow> hash) \<Rightarrow> ('a, 'z) System_scheme \<Rightarrow>
    (header \<times> ('a, 'z) System_scheme) option" where
  "finalise storage_root s = do {
    number \<leftarrow> sys_number s;
    parent_hash \<leftarrow> sys_parent_hash s;
    extrinsics_root \<leftarrow> sys_extrinsics_root s;
    let s' = s\<lparr>sys_random_seed := None, sys_extrinsic_index := None, sys_number := None,
               sys_parent_hash := None, sys_digest := [], sys_extrinsics_root := None\<rparr>;
    Some (\<lparr>hd_parent_hash = parent_hash, hd_number = number, hd_state_root = storage_root s',
           hd_extrinsics_root = extrinsics_root, hd_digest = sys_digest s\<rparr>, s')
  }"

definition deposit_log :: "byte list \<Rightarrow> ('a, 'z) System_scheme \<Rightarrow> ('a, 'z) System_scheme" where
  "deposit_log item s = s\<lparr>sys_digest := sys_digest s @ [item]\<rparr>"

definition inc_account_nonce :: "'a \<Rightarrow> ('a, 'z) System_scheme \<Rightarrow> ('a, 'z) System_scheme" where
  "inc_account_nonce who s =
    s\<lparr>sys_account_nonce := (sys_account_nonce s)(who \<mapsto> u32 (account_nonce s who + 1))\<rparr>"

definition note_extrinsic :: "byte list \<Rightarrow> ('a, 'z) System_scheme \<Rightarrow> ('a, 'z) System_scheme option" where
  "note_extrinsic encoded_xt s = do {
    i \<leftarrow> sys_extrinsic_index s;
    Some (s\<lparr>sys_extrinsic_data := (sys_extrinsic_data s)(i \<mapsto> encoded_xt)\<rparr>)
  }"

text \<open>\<^verbatim>\<open>ExtrinsicData::take\<close> of every index below the current one; an absent one panics.\<close>

fun take_extrinsics :: "nat \<Rightarrow> nat \<Rightarrow> ('a, 'z) System_scheme \<Rightarrow>
    (byte list list \<times> ('a, 'z) System_scheme) option" where
  "take_extrinsics 0 i s = Some ([], s)"
| "take_extrinsics (Suc k) i s = do {
    xt \<leftarrow> sys_extrinsic_data s i;
    (xts, s') \<leftarrow> take_extrinsics k (i + 1) (s\<lparr>sys_extrinsic_data := (sys_extrinsic_data s)(i := None)\<rparr>);
    Some (xt # xts, s')
  }"

definition derive_extrinsics :: "(byte list list \<Rightarrow> hash) \<Rightarrow> ('a, 'z) System_scheme \<Rightarrow>
    ('a, 'z) System_scheme option" where
  "derive_extrinsics enumerated_trie_root s = do {
    n \<leftarrow> sys_extrinsic_index s;
    (xts, s') \<leftarrow> take_extrinsics n 0 s;
    Some (s'\<lparr>sys_extrinsics_root := Some (enumerated_trie_root xts)\<rparr>)
  }"


section \<open>consensus\<close>

record ('a, 'k) Consensus = "'a System" +
  con_auth_at :: "nat \<rightharpoonup> 'k"
  con_auth_len :: "nat option"
  con_code :: "byte list option"

text \<open>
  \<^verbatim>\<open>AuthorityStorageVec\<close>: the items under \<^verbatim>\<open>:auth:\<close> and the index, and their number under
  \<^verbatim>\<open>:auth:len\<close>.  \<open>dk\<close> is \<^verbatim>\<open>SessionKey::default()\<close>, read for an absent item.
\<close>

definition sv_count :: "('a, 'k, 'z) Consensus_scheme \<Rightarrow> nat" where
  "sv_count s = (case con_auth_len s of Some n \<Rightarrow> n | None \<Rightarrow> 0)"

definition sv_item :: "'k \<Rightarrow> ('a, 'k, 'z) Consensus_scheme \<Rightarrow> nat \<Rightarrow> 'k" where
  "sv_item dk s i = (case con_auth_at s i of Some k \<Rightarrow> k | None \<Rightarrow> dk)"

definition sv_items :: "'k \<Rightarrow> ('a, 'k, 'z) Consensus_scheme \<Rightarrow> 'k list" where
  "sv_items dk s = map (sv_item dk s) [0..<sv_count s]"

definition sv_clear_item :: "nat \<Rightarrow> ('a, 'k, 'z) Consensus_scheme \<Rightarrow> ('a, 'k, 'z) Consensus_scheme" where
  "sv_clear_item i s = (if i < sv_count s then s\<lparr>con_auth_at := (con_auth_at s)(i := None)\<rparr> else s)"

definition sv_set_count :: "nat \<Rightarrow> ('a, 'k, 'z) Consensus_scheme \<Rightarrow> ('a, 'k, 'z) Consensus_scheme" where
  "sv_set_count cnt s = (fold sv_clear_item [cnt..<sv_count s] s)\<lparr>con_auth_len := Some cnt\<rparr>"

definition sv_set_item :: "nat \<Rightarrow> 'k \<Rightarrow> ('a, 'k, 'z) Consensus_scheme \<Rightarrow> ('a, 'k, 'z) Consensus_scheme" where
  "sv_set_item i k s = (if i < sv_count s then s\<lparr>con_auth_at := (con_auth_at s)(i \<mapsto> k)\<rparr> else s)"

fun sv_put_items :: "nat \<Rightarrow> 'k list \<Rightarrow> ('a, 'k, 'z) Consensus_scheme \<Rightarrow>
    (nat \<times> ('a, 'k, 'z) Consensus_scheme) option" where
  "sv_put_items cnt [] s = Some (cnt, s)"
| "sv_put_items cnt (k # ks) s =
    (if cnt + 1 < 2 ^ 32
     then sv_put_items (cnt + 1) ks (s\<lparr>con_auth_at := (con_auth_at s)(cnt \<mapsto> k)\<rparr>)
     else None)"

definition sv_set_items :: "'k list \<Rightarrow> ('a, 'k, 'z) Consensus_scheme \<Rightarrow> ('a, 'k, 'z) Consensus_scheme option" where
  "sv_set_items ks s = do {
    (cnt, s') \<leftarrow> sv_put_items 0 ks s;
    Some (sv_set_count cnt s')
  }"

definition set_code :: "byte list \<Rightarrow> ('a, 'k, 'z) Consensus_scheme \<Rightarrow> ('a, 'k, 'z) Consensus_scheme" where
  "set_code new s = s\<lparr>con_code := Some new\<rparr>"

definition authorities :: "'k \<Rightarrow> ('a, 'k, 'z) Consensus_scheme \<Rightarrow> 'k list" where
  "authorities dk s = sv_items dk s"

definition set_authorities :: "'k list \<Rightarrow> ('a, 'k, 'z) Consensus_scheme \<Rightarrow> ('a, 'k, 'z) Consensus_scheme option" where
  "set_authorities ks s = sv_set_items ks s"

definition set_authority :: "nat \<Rightarrow> 'k \<Rightarrow> ('a, 'k, 'z) Consensus_scheme \<Rightarrow> ('a, 'k, 'z) Consensus_scheme" where
  "set_authority index key s = sv_set_item index key s"


section \<open>timestamp\<close>

record ('a, 'k) Timestamp = "('a, 'k) Consensus" +
  tim_now :: nat
  tim_block_period :: nat
  tim_did_update :: "bool option"

definition timestamp_get :: "('a, 'k, 'z) Timestamp_scheme \<Rightarrow> nat" where
  "timestamp_get s = tim_now s"

text \<open>
  \<^verbatim>\<open>Call::set\<close>.  \<open>da\<close> is \<^verbatim>\<open>AccountId::default()\<close>, the sender of an unsigned extrinsic, and \<open>pos\<close>
  is \<^verbatim>\<open>TIMESTAMP_SET_POSITION\<close>.
\<close>

definition timestamp_set :: "'a \<Rightarrow> nat \<Rightarrow> 'a \<Rightarrow> nat \<Rightarrow> ('a, 'k, 'z) Timestamp_scheme \<Rightarrow>
    ('a, 'k, 'z) Timestamp_scheme option" where
  "timestamp_set da pos aux now s = do {
    assert (aux = da);
    assert (tim_did_update s = None);
    i \<leftarrow> sys_extrinsic_index s;
    assert (i = pos);
    assert (tim_now s = 0 \<or> now \<ge> u64 (tim_now s + tim_block_period s));
    Some (s\<lparr>tim_now := now, tim_did_update := Some True\<rparr>)
  }"

definition timestamp_execute :: "('a, 'k, 'z) Timestamp_scheme \<Rightarrow> ('a, 'k, 'z) Timestamp_scheme option" where
  "timestamp_execute s =
    (if tim_did_update s = Some True then Some (s\<lparr>tim_did_update := None\<rparr>) else None)"

section \<open>The authorities\<close>

lemma sv_put_items_spec:
  assumes "n + length ks < 2 ^ 32"
  shows "\<exists>s'. sv_put_items n ks s = Some (n + length ks, s') \<and>
    (\<forall>i. con_auth_at s' i = (if n \<le> i \<and> i < n + length ks then Some (ks ! (i - n)) else con_auth_at s i))"
  using assms
proof (induction ks arbitrary: n s)
  case (Cons k ks)
  let ?t = "s\<lparr>con_auth_at := (con_auth_at s)(n \<mapsto> k)\<rparr>"
  have "n + 1 + length ks < 2 ^ 32" using Cons.prems by simp
  from Cons.IH [OF this, of ?t]
  obtain s' where s': "sv_put_items (n + 1) ks ?t = Some (n + 1 + length ks, s')"
    "\<forall>i. con_auth_at s' i = (if n + 1 \<le> i \<and> i < n + 1 + length ks then Some (ks ! (i - (n + 1)))
      else con_auth_at ?t i)" by blast
  have "con_auth_at s' i = (if n \<le> i \<and> i < n + length (k # ks) then Some ((k # ks) ! (i - n)) else con_auth_at s i)" for i
    using spec [OF s'(2), of i] by (cases "i = n") (auto simp: nth_Cons')
  then show ?case using s'(1) Cons.prems by auto
qed auto

lemma sv_clear_items:
  "con_auth_len (fold sv_clear_item is s) = con_auth_len s \<and>
   (\<forall>i. i \<notin> set is \<longrightarrow> con_auth_at (fold sv_clear_item is s) i = con_auth_at s i)"
  by (induction "is" arbitrary: s) (auto simp: sv_clear_item_def)

text \<open>What \<^verbatim>\<open>set_authorities\<close> stores is what \<^verbatim>\<open>authorities\<close> returns.\<close>

lemma set_authorities_get:
  assumes "length ks < 2 ^ 32"
  shows "\<exists>s'. set_authorities ks s = Some s' \<and> authorities dk s' = ks"
proof -
  obtain t where t: "sv_put_items 0 ks s = Some (length ks, t)"
    "\<And>i. con_auth_at t i = (if i < length ks then Some (ks ! i) else con_auth_at s i)"
    using sv_put_items_spec [of 0 ks s] assms by auto
  let ?u = "sv_set_count (length ks) t"
  have at: "con_auth_at ?u i = Some (ks ! i)" if "i < length ks" for i
    using that sv_clear_items [of "[length ks..<sv_count t]" t] t(2) by (simp add: sv_set_count_def)
  have "authorities dk ?u = ks"
  proof (rule nth_equalityI)
    show len: "length (authorities dk ?u) = length ks"
      by (simp add: authorities_def sv_items_def sv_count_def sv_set_count_def)
    show "authorities dk ?u ! i = ks ! i" if "i < length (authorities dk ?u)" for i
    proof -
      have "i < sv_count ?u" "i < length ks" using that len by (simp_all add: authorities_def sv_items_def)
      then show ?thesis by (simp add: authorities_def sv_items_def sv_item_def at)
    qed
  qed
  then show ?thesis using t(1) by (simp add: set_authorities_def sv_set_items_def)
qed

lemma set_authorities_Some: "set_authorities ks s = Some s' \<Longrightarrow> length ks < 2 ^ 32 \<Longrightarrow> authorities dk s' = ks"
  using set_authorities_get [of ks s dk] by auto

text \<open>Only the authorities change.\<close>

lemma set_authorities_frame:
  assumes "set_authorities ks s = Some s'"
  obtains f n where "s' = s\<lparr>con_auth_at := f, con_auth_len := n\<rparr>"
proof -
  have put: "\<exists>f. t = s\<lparr>con_auth_at := f\<rparr>" if "sv_put_items n ks s = Some (c, t)"
    for n c ks and s t :: "('a, 'b, 'c) Consensus_scheme"
    using that
  proof (induction ks arbitrary: n s)
    case Nil
    then show ?case by (intro exI [of _ "con_auth_at s"]) simp
  next
    case (Cons k ks)
    then show ?case by (fastforce split: if_splits)
  qed
  have clear: "\<exists>f. fold sv_clear_item is s = s\<lparr>con_auth_at := f\<rparr>" for "is" and s :: "('a, 'b, 'c) Consensus_scheme"
  proof (induction "is" arbitrary: s)
    case Nil
    then show ?case by (intro exI [of _ "con_auth_at s"]) simp
  next
    case (Cons i "is")
    show ?case using Cons.IH [of "sv_clear_item i s"] by (auto simp: sv_clear_item_def split: if_splits)
  qed
  obtain c t where t: "sv_put_items 0 ks s = Some (c, t)" "s' = sv_set_count c t"
    using assms by (auto simp: set_authorities_def sv_set_items_def bind_eq_Some_conv)
  obtain f where f: "t = s\<lparr>con_auth_at := f\<rparr>" using put [OF t(1)] by blast
  obtain g where g: "fold sv_clear_item [c..<sv_count t] t = t\<lparr>con_auth_at := g\<rparr>" using clear by blast
  have "s' = s\<lparr>con_auth_at := g, con_auth_len := Some c\<rparr>" using t(2) f g by (simp add: sv_set_count_def)
  then show ?thesis by (rule that)
qed

end
