(* ===== verification/Session.thy ===== *)
theory Session
  imports Runtime_System
begin

text \<open>
  The \<^verbatim>\<open>session\<close> module (\<^verbatim>\<open>src/substrate/runtime/session/src/lib.rs\<close>): validators, session
  keys, rotation at the end of a session or when validation is broken.  The hook
  \<^verbatim>\<open>T::OnSessionChange\<close> is an argument of the rotation; the runtime passes \<^verbatim>\<open>staking\<close>'s.
\<close>

record ('a, 'k) Session = "('a, 'k) Timestamp" +
  ses_validators :: "'a list"
  ses_session_length :: nat
  ses_current_index :: nat
  ses_current_start :: nat
  ses_broken_percent_late :: nat
  ses_last_length_change :: "nat option"
  ses_next_key_for :: "'a \<rightharpoonup> 'k"
  ses_next_session_length :: "nat option"

type_synonym ('a, 'k, 'z) ses = "('a, 'k, 'z) Session_scheme"
type_synonym ('a, 'k, 'z) session_hook = "bool \<Rightarrow> nat \<Rightarrow> ('a, 'k, 'z) ses \<Rightarrow> ('a, 'k, 'z) ses option"

definition validator_count :: "('a, 'k, 'z) ses \<Rightarrow> nat" where
  "validator_count s = u32 (length (ses_validators s))"

definition last_length_change :: "('a, 'k, 'z) ses \<Rightarrow> nat" where
  "last_length_change s = (case ses_last_length_change s of Some n \<Rightarrow> n | None \<Rightarrow> 0)"

definition set_key :: "'a \<Rightarrow> 'k \<Rightarrow> ('a, 'k, 'z) ses \<Rightarrow> ('a, 'k, 'z) ses" where
  "set_key aux key s = s\<lparr>ses_next_key_for := (ses_next_key_for s)(aux \<mapsto> key)\<rparr>"

definition set_length :: "nat \<Rightarrow> ('a, 'k, 'z) ses \<Rightarrow> ('a, 'k, 'z) ses" where
  "set_length new s = s\<lparr>ses_next_session_length := Some new\<rparr>"

definition set_validators :: "('a \<Rightarrow> 'k) \<Rightarrow> 'a list \<Rightarrow> ('a, 'k, 'z) ses \<Rightarrow> ('a, 'k, 'z) ses option" where
  "set_validators convert new s = set_authorities (map convert new) (s\<lparr>ses_validators := new\<rparr>)"

definition ideal_session_duration :: "('a, 'k, 'z) ses \<Rightarrow> nat" where
  "ideal_session_duration s = u64 (ses_session_length s * tim_block_period s)"

text \<open>Remainders and quotients by zero panic.\<close>

definition blocks_remaining :: "('a, 'k, 'z) ses \<Rightarrow> nat option" where
  "blocks_remaining s =
    (let len = ses_session_length s; length_minus_1 = sub64 len 1 in
     do {
       block_number \<leftarrow> sys_number s;
       assert (len \<noteq> 0);
       Some (sub64 length_minus_1
         (u64 (sub64 block_number (last_length_change s) + length_minus_1) mod len))
     })"

definition broken_validation :: "('a, 'k, 'z) ses \<Rightarrow> bool option" where
  "broken_validation s = do {
    remaining \<leftarrow> blocks_remaining s;
    Some (u64 (timestamp_get s + u64 (remaining * tim_block_period s)) >
      u64 (ses_current_start s +
        u64 (ideal_session_duration s * u64 (100 + ses_broken_percent_late s)) div 100))
  }"

text \<open>The keys set for the next session, taken over by the current validators.\<close>

fun update_keys :: "nat \<Rightarrow> 'a list \<Rightarrow> ('a, 'k, 'z) ses \<Rightarrow> ('a, 'k, 'z) ses" where
  "update_keys i [] s = s"
| "update_keys i (v # vs) s = update_keys (i + 1) vs
    (case ses_next_key_for s v of
       None \<Rightarrow> s
     | Some n \<Rightarrow> set_authority (u32 i) n (s\<lparr>ses_next_key_for := (ses_next_key_for s)(v := None)\<rparr>))"

text \<open>A pending session length is taken and comes into force at the current block.\<close>

definition enact_length :: "('a, 'k, 'z) ses \<Rightarrow> ('a, 'k, 'z) ses option" where
  "enact_length s = (case ses_next_session_length s of
      None \<Rightarrow> Some s
    | Some next_len \<Rightarrow> do {
        block_number \<leftarrow> sys_number s;
        Some (s\<lparr>ses_next_session_length := None, ses_session_length := next_len,
                ses_last_length_change := Some block_number\<rparr>)
      })"

definition rotate_session :: "('a, 'k, 'z) session_hook \<Rightarrow> bool \<Rightarrow> ('a, 'k, 'z) ses \<Rightarrow> ('a, 'k, 'z) ses option" where
  "rotate_session on_session_change normal_rotation s =
    (let now = timestamp_get s;
         time_elapsed = sub64 now (ses_current_start s);
         s1 = s\<lparr>ses_current_index := u64 (ses_current_index s + 1), ses_current_start := now\<rparr> in
     do {
       s2 \<leftarrow> enact_length s1;
       s3 \<leftarrow> on_session_change normal_rotation time_elapsed s2;
       Some (update_keys 0 (ses_validators s3) s3)
     })"

definition force_new_session :: "('a, 'k, 'z) session_hook \<Rightarrow> bool \<Rightarrow> ('a, 'k, 'z) ses \<Rightarrow> ('a, 'k, 'z) ses option" where
  "force_new_session on_session_change normal_rotation s = rotate_session on_session_change normal_rotation s"

definition check_rotate_session :: "('a, 'k, 'z) session_hook \<Rightarrow> ('a, 'k, 'z) ses \<Rightarrow> ('a, 'k, 'z) ses option" where
  "check_rotate_session on_session_change s = do {
    block_number \<leftarrow> sys_number s;
    assert (ses_session_length s \<noteq> 0);
    let is_final_block = (sub64 block_number (last_length_change s) mod ses_session_length s = 0);
    broken \<leftarrow> broken_validation s;
    if is_final_block \<or> broken then rotate_session on_session_change (\<not> broken) s else Some s
  }"


section \<open>When sessions end\<close>

text \<open>
  C30.  \<^verbatim>\<open>blocks_remaining\<close> is what its comment says, the number of blocks until the scheduled end of the
  session: zero at the block that ends it and less than the session length otherwise.  The hook
  that runs after every block rotates the session exactly when that number is zero or
  validation is broken, and the rotation counts as normal exactly when it is not broken.
\<close>

theorem session_rotates_on_time:
  assumes "sys_number s = Some n" "last_length_change s \<le> n" "n < 2 ^ 63"
    "0 < ses_session_length s" "ses_session_length s < 2 ^ 63"
  shows "\<exists>k broken. blocks_remaining s = Some k \<and> broken_validation s = Some broken \<and>
    k < ses_session_length s \<and>
    (n + k - last_length_change s) mod ses_session_length s = 0 \<and>
    (\<forall>j < k. (n + j - last_length_change s) mod ses_session_length s \<noteq> 0) \<and>
    check_rotate_session hook s =
      (if k = 0 \<or> broken then rotate_session hook (\<not> broken) s else Some s)"
proof -
  define len where "len = ses_session_length s"
  define d where "d = n - last_length_change s"
  define k where "k = len - 1 - (d + (len - 1)) mod len"
  have len: "0 < len" "len < 2 ^ 63" and d: "d < 2 ^ 63" using assms by (simp_all add: len_def d_def)
  have s1: "sub64 n (last_length_change s) = d" using assms by (simp add: sub64_ge d_def)
  have s2: "sub64 len 1 = len - 1" using len by (simp add: sub64_ge)
  have "u64 (d + (len - 1)) = d + (len - 1)" using len d by simp
  moreover have "sub64 (len - 1) ((d + (len - 1)) mod len) = k"
  proof -
    have "(d + (len - 1)) mod len \<le> len - 1" using mod_less_divisor [OF len(1), of "d + (len - 1)"] by linarith
    moreover have "len - 1 < 2 ^ 64" using len by simp
    ultimately show ?thesis unfolding k_def by (rule sub64_ge)
  qed
  ultimately have br: "blocks_remaining s = Some k"
    using len assms(1) s1 s2 by (simp add: blocks_remaining_def len_def [symmetric] Let_def)
  obtain broken where bv: "broken_validation s = Some broken" using br by (simp add: broken_validation_def)
  have k: "k = (if d mod len = 0 then 0 else len - d mod len)"
  proof (cases "d mod len = 0")
    case True
    then have "(d + (len - 1)) mod len = (0 + (len - 1)) mod len"
      by (metis mod_add_left_eq)
    then have "(d + (len - 1)) mod len = len - 1" using len by simp
    then show ?thesis using True by (simp add: k_def)
  next
    case False
    have "d + (len - 1) = (d - 1) + len" using False len by (cases d) auto
    then have "(d + (len - 1)) mod len = (d - 1) mod len" by simp
    also have "\<dots> = d mod len - 1"
      using False by (metis Suc_pred' diff_Suc_1 mod_Suc mod_0 neq0_conv)
    finally show ?thesis using False by (simp add: k_def)
  qed
  have dj: "n + j - last_length_change s = d + j" for j using assms(2) by (simp add: d_def)
  have zero: "(d + k) mod len = 0"
  proof (cases "d mod len = 0")
    case False
    have "(d + (len - d mod len)) mod len = (d mod len + (len - d mod len)) mod len" by (simp add: mod_add_left_eq)
    then show ?thesis using False k len by simp
  qed (use k in simp)
  have first: "(d + j) mod len \<noteq> 0" if "j < k" for j
  proof -
    have m: "d mod len \<noteq> 0" "j < len - d mod len" using that k by (auto split: if_splits)
    then have "(d + j) mod len = d mod len + j"
      using mod_less [of "d mod len + j" len] by (simp add: mod_add_left_eq [symmetric, of d] less_diff_conv add.commute)
    then show ?thesis using m by simp
  qed
  have "d mod len = 0 \<longleftrightarrow> k = 0" using k mod_less_divisor [OF len(1), of d] by simp
  then have rot: "check_rotate_session hook s = (if k = 0 \<or> broken then rotate_session hook (\<not> broken) s else Some s)"
    using assms(1) len s1 bv by (simp add: check_rotate_session_def len_def [symmetric] Let_def)
  have "k < len" using k len by (auto split: if_splits)
  then show ?thesis
    unfolding len_def [symmetric] dj
    by (intro exI [of _ k] exI [of _ broken] conjI allI impI) (rule br bv zero rot first | assumption)+
qed

text \<open>Updating keys touches the pending keys and the authorities only.\<close>

lemma update_keys_validators: "ses_validators (update_keys i vs s) = ses_validators s"
  by (induction vs arbitrary: i s) (simp_all add: set_authority_def sv_set_item_def split: option.split)

lemma update_keys_spec:
  assumes "distinct vs" "sv_count s = i + length vs" "i + length vs < 2 ^ 32"
  shows "sv_count (update_keys i vs s) = sv_count s \<and>
    (\<forall>j. sv_item dk (update_keys i vs s) j =
      (if i \<le> j \<and> j < i + length vs
       then (case ses_next_key_for s (vs ! (j - i)) of Some k \<Rightarrow> k | None \<Rightarrow> sv_item dk s j)
       else sv_item dk s j)) \<and>
    ses_next_key_for (update_keys i vs s) = (\<lambda>v. if v \<in> set vs then None else ses_next_key_for s v)"
  using assms
proof (induction vs arbitrary: i s)
  case (Cons v vs)
  define t where "t = (case ses_next_key_for s v of None \<Rightarrow> s
     | Some n \<Rightarrow> set_authority (u32 i) n (s\<lparr>ses_next_key_for := (ses_next_key_for s)(v := None)\<rparr>))"
  have cnt: "sv_count t = sv_count s"
    by (simp add: t_def set_authority_def sv_set_item_def sv_count_def split: option.split)
  have item: "sv_item dk t j = (if j = i then (case ses_next_key_for s v of Some k \<Rightarrow> k | None \<Rightarrow> sv_item dk s j) else sv_item dk s j)" for j
    using Cons.prems by (auto simp: t_def set_authority_def sv_set_item_def sv_item_def sv_count_def split: option.splits)
  have keys: "ses_next_key_for t = (ses_next_key_for s)(v := None)"
    by (auto simp: t_def set_authority_def sv_set_item_def fun_eq_iff split: option.split)
  have "sv_count t = (i + 1) + length vs" "(i + 1) + length vs < 2 ^ 32" "distinct vs"
    using Cons.prems cnt by simp_all
  note IH = Cons.IH [OF this(3,1,2)]
  have upd: "update_keys i (v # vs) s = update_keys (i + 1) vs t" by (simp add: t_def)
  have "sv_item dk (update_keys (i + 1) vs t) j =
      (if i \<le> j \<and> j < i + length (v # vs)
       then (case ses_next_key_for s ((v # vs) ! (j - i)) of Some k \<Rightarrow> k | None \<Rightarrow> sv_item dk s j)
       else sv_item dk s j)" for j
  proof (cases "j = i")
    case True
    then show ?thesis using IH item [of i] by (simp cong: option.case_cong)
  next
    case False
    have "(vs ! (j - (i + 1))) \<noteq> v" if "i + 1 \<le> j" "j < i + 1 + length vs"
      using Cons.prems(1) that by (metis add.commute distinct.simps(2) less_diff_conv2 nth_mem)
    then show ?thesis using False IH item keys by (auto simp: nth_Cons' split: option.splits)
  qed
  moreover have "ses_next_key_for (update_keys (i + 1) vs t) = (\<lambda>u. if u \<in> set (v # vs) then None else ses_next_key_for s u)"
    using IH keys by (auto simp: fun_eq_iff)
  ultimately show ?case using IH cnt upd by (simp del: update_keys.simps)
qed auto

text \<open>
  After a rotation every validator is represented by the key it had set for the next session, or
  else by the authority the hook left in its place, and the keys that took effect are used up.
\<close>

lemma rotate_session_keys:
  assumes "rotate_session hook normal s = Some s'"
  obtains u where
    "\<And>dk. distinct (ses_validators u) \<Longrightarrow> length (authorities dk u) = length (ses_validators u) \<Longrightarrow>
      length (ses_validators u) < 2 ^ 32 \<Longrightarrow>
      authorities dk s' = map (\<lambda>(v, a). case ses_next_key_for u v of Some k \<Rightarrow> k | None \<Rightarrow> a)
        (zip (ses_validators u) (authorities dk u)) \<and>
      ses_next_key_for s' = (\<lambda>v. if v \<in> set (ses_validators u) then None else ses_next_key_for u v)"
    "\<exists>t e. hook normal e t = Some u \<and> ses_next_key_for t = ses_next_key_for s" "ses_validators s' = ses_validators u"
proof -
  obtain t u where t: "enact_length (s\<lparr>ses_current_index := u64 (ses_current_index s + 1), ses_current_start := timestamp_get s\<rparr>) = Some t"
    and u: "hook normal (sub64 (timestamp_get s) (ses_current_start s)) t = Some u"
    and s': "s' = update_keys 0 (ses_validators u) u"
    using assms by (auto simp: rotate_session_def Let_def bind_eq_Some_conv)
  have k: "ses_next_key_for t = ses_next_key_for s"
    using t by (auto simp: enact_length_def bind_eq_Some_conv split: option.splits)
  have "authorities dk s' = map (\<lambda>(v, a). case ses_next_key_for u v of Some k \<Rightarrow> k | None \<Rightarrow> a)
        (zip (ses_validators u) (authorities dk u)) \<and>
      ses_next_key_for s' = (\<lambda>v. if v \<in> set (ses_validators u) then None else ses_next_key_for u v)"
    if d: "distinct (ses_validators u)" and len: "length (authorities dk u) = length (ses_validators u)"
      and b: "length (ses_validators u) < 2 ^ 32" for dk
  proof -
    have c: "sv_count u = 0 + length (ses_validators u)" using len by (simp add: authorities_def sv_items_def)
    have "0 + length (ses_validators u) < 2 ^ 32" using b by simp
    note sp = update_keys_spec [OF d c this, of dk]
    have cnt: "sv_count s' = length (ses_validators u)" using sp c by (simp add: s')
    have it: "sv_item dk s' j = (case ses_next_key_for u (ses_validators u ! j) of Some k \<Rightarrow> k | None \<Rightarrow> sv_item dk u j)"
      if "j < length (ses_validators u)" for j
      using sp that by (simp add: s')
    have "authorities dk s' = map (\<lambda>(v, a). case ses_next_key_for u v of Some k \<Rightarrow> k | None \<Rightarrow> a)
        (zip (ses_validators u) (authorities dk u))"
      using c by (intro nth_equalityI) (simp_all add: authorities_def sv_items_def cnt it)
    then show ?thesis using sp by (simp add: s')
  qed
  moreover have "\<exists>t e. hook normal e t = Some u \<and> ses_next_key_for t = ses_next_key_for s" using u k by blast
  moreover have "ses_validators s' = ses_validators u" by (simp add: s' update_keys_validators)
  ultimately show ?thesis by (rule that)
qed

text \<open>A session of ten blocks in its seventh, changed last at block twenty.\<close>

definition sample_session :: "(nat, nat) Session" where
  "sample_session = \<lparr>sys_account_nonce = Map.empty, sys_block_hash = Map.empty,
     sys_extrinsic_index = Some 0, sys_extrinsic_data = Map.empty, sys_random_seed = None,
     sys_number = Some 27, sys_parent_hash = None, sys_extrinsics_root = None, sys_digest = [],
     con_auth_at = Map.empty, con_auth_len = Some 0, con_code = None,
     tim_now = 35, tim_block_period = 5, tim_did_update = None,
     ses_validators = [], ses_session_length = 10, ses_current_index = 2, ses_current_start = 0,
     ses_broken_percent_late = 30, ses_last_length_change = Some 20, ses_next_key_for = Map.empty,
     ses_next_session_length = None\<rparr>"

theorem session_rotates_on_time_witness:
  "blocks_remaining sample_session = Some 3 \<and> broken_validation sample_session = Some False \<and>
   check_rotate_session (\<lambda>_ _ s. Some s) sample_session = Some sample_session"
proof -
  have "blocks_remaining sample_session = Some 3" "broken_validation sample_session = Some False"
    by (simp_all add: sample_session_def blocks_remaining_def broken_validation_def last_length_change_def
        sub64_def ideal_session_duration_def timestamp_get_def)
  moreover have "sys_number sample_session = Some 27" "last_length_change sample_session \<le> 27"
    "0 < ses_session_length sample_session" "ses_session_length sample_session < 2 ^ 63"
    by (simp_all add: sample_session_def last_length_change_def)
  ultimately show ?thesis
    using session_rotates_on_time [of sample_session 27 "\<lambda>_ _ s. Some s"] by auto
qed

end
