(* ===== verification/Staking.thy ===== *)
theory Staking
  imports Session
begin

text \<open>
  The \<^verbatim>\<open>staking\<close> module: accounts, balances and transfers, contract accounts and the overlay
  they run in, staking and nomination, rewards and slashes at session changes, and the choice
  of validators at era changes.  Sources: \<^verbatim>\<open>src/substrate/runtime/staking/src/lib.rs\<close>,
  \<^verbatim>\<open>account_db.rs\<close>, \<^verbatim>\<open>double_map.rs\<close> and \<^verbatim>\<open>address.rs\<close>.

  An error is the message string of the source.  A dispatchable operation returns its result and
  the new state; \<^const>\<open>None\<close> is a panic or a loop that does not end.
\<close>

type_synonym 's outcome = "((string + unit) \<times> 's) option"


section \<open>Storage\<close>

record ('a, 'k) Staking = "('a, 'k) Session" +
  sta_bonding_duration :: nat
  sta_validator_count :: nat
  sta_sessions_per_era :: nat
  sta_total_stake :: nat
  sta_transaction_base_fee :: nat
  sta_transaction_byte_fee :: nat
  sta_existential_deposit :: nat
  sta_reclaim_rebate :: nat
  sta_transfer_fee :: nat
  sta_creation_fee :: nat
  sta_contract_fee :: nat
  sta_session_reward :: nat
  sta_early_era_slash :: nat
  sta_current_era :: nat
  sta_intentions :: "'a list"
  sta_nominating :: "'a \<rightharpoonup> 'a"
  sta_nominators_for :: "'a \<rightharpoonup> 'a list"
  sta_current_nominators_for :: "'a \<rightharpoonup> 'a list"
  sta_next_sessions_per_era :: "nat option"
  sta_last_era_length_change :: "nat option"
  sta_stake_threshold :: "nat option"
  sta_next_enum_set :: nat
  sta_enum_set :: "nat \<rightharpoonup> 'a list"
  sta_free_balance :: "'a \<rightharpoonup> nat"
  sta_reserved_balance :: "'a \<rightharpoonup> nat"
  sta_bondage :: "'a \<rightharpoonup> nat"
  sta_code_of :: "'a \<rightharpoonup> byte list"
  sta_storage_of :: "'a \<Rightarrow> byte list \<rightharpoonup> byte list"

type_synonym ('a, 'k, 'z) sta = "('a, 'k, 'z) Staking_scheme"

text \<open>Reading a map through its default.\<close>

definition or_default :: "'v \<Rightarrow> 'v option \<Rightarrow> 'v" where
  "or_default d v = (case v of Some x \<Rightarrow> x | None \<Rightarrow> d)"

lemma or_default_simps [simp]: "or_default d (Some x) = x" "or_default d None = d"
  by (simp_all add: or_default_def)

definition free_balance :: "('a, 'k, 'z) sta \<Rightarrow> 'a \<Rightarrow> nat" where
  "free_balance s who = or_default 0 (sta_free_balance s who)"

definition reserved_balance :: "('a, 'k, 'z) sta \<Rightarrow> 'a \<Rightarrow> nat" where
  "reserved_balance s who = or_default 0 (sta_reserved_balance s who)"

definition bondage :: "('a, 'k, 'z) sta \<Rightarrow> 'a \<Rightarrow> nat" where
  "bondage s who = or_default 0 (sta_bondage s who)"

definition nominators_for :: "('a, 'k, 'z) sta \<Rightarrow> 'a \<Rightarrow> 'a list" where
  "nominators_for s who = or_default [] (sta_nominators_for s who)"

definition current_nominators_for :: "('a, 'k, 'z) sta \<Rightarrow> 'a \<Rightarrow> 'a list" where
  "current_nominators_for s who = or_default [] (sta_current_nominators_for s who)"

definition enum_set :: "('a, 'k, 'z) sta \<Rightarrow> nat \<Rightarrow> 'a list" where
  "enum_set s i = or_default [] (sta_enum_set s i)"


section \<open>Immutables\<close>

definition ENUM_SET_SIZE :: nat where "ENUM_SET_SIZE = 64"
definition RECLAIM_INDEX_MAGIC :: nat where "RECLAIM_INDEX_MAGIC = 105"

definition max_block_number :: nat where "max_block_number = 2 ^ 64 - 1"

datatype lock_status = Liquid | LockedUntil nat | Staked

definition era_length :: "('a, 'k, 'z) sta \<Rightarrow> nat" where
  "era_length s = u64 (sta_sessions_per_era s * ses_session_length s)"

definition voting_balance :: "('a, 'k, 'z) sta \<Rightarrow> 'a \<Rightarrow> nat" where
  "voting_balance s who = u128 (free_balance s who + reserved_balance s who)"

definition can_slash :: "('a, 'k, 'z) sta \<Rightarrow> 'a \<Rightarrow> nat \<Rightarrow> bool" where
  "can_slash s who amount \<longleftrightarrow> free_balance s who \<ge> amount"

definition unlock_block :: "('a, 'k, 'z) sta \<Rightarrow> 'a \<Rightarrow> lock_status option" where
  "unlock_block s who =
    (let i = bondage s who in
     if i = max_block_number then Some Staked
     else do {
       block_number \<leftarrow> sys_number s;
       Some (if i \<le> block_number then Liquid else LockedUntil i)
     })"

definition can_reserve :: "('a, 'k, 'z) sta \<Rightarrow> 'a \<Rightarrow> nat \<Rightarrow> bool option" where
  "can_reserve s who amount = do {
    l \<leftarrow> unlock_block s who;
    Some (case l of Liquid \<Rightarrow> free_balance s who \<ge> amount | _ \<Rightarrow> False)
  }"

text \<open>Account indices: sixty-four accounts to an enumeration set.\<close>

datatype ('a, 'i) address = Id 'a | Index 'i

definition lookup_index :: "('a, 'k, 'z) sta \<Rightarrow> nat \<Rightarrow> 'a option" where
  "lookup_index s index =
    (let st = enum_set s (index div ENUM_SET_SIZE); i = index mod ENUM_SET_SIZE in
     if i < length st then Some (st ! i) else None)"

definition lookup :: "('a, 'k, 'z) sta \<Rightarrow> ('a, nat) address \<Rightarrow> string + 'a" where
  "lookup s a = (case a of
      Id i \<Rightarrow> Inr i
    | Index i \<Rightarrow> (case lookup_index s i of Some x \<Rightarrow> Inr x | None \<Rightarrow> Inl ''invalid account index''))"

definition can_reclaim :: "('a, 'k, 'z) sta \<Rightarrow> nat \<Rightarrow> bool" where
  "can_reclaim s try_index =
    (let try_set = enum_set s (try_index div ENUM_SET_SIZE); i = try_index mod ENUM_SET_SIZE in
     i < length try_set \<and> voting_balance s (try_set ! i) = 0)"

definition nomination_balance :: "('a, 'k, 'z) sta \<Rightarrow> 'a \<Rightarrow> nat" where
  "nomination_balance s who =
    foldl (\<lambda>acc x. u128 (acc + x)) 0 (map (voting_balance s) (nominators_for s who))"


section \<open>Staking and nominating\<close>

text \<open>\<^verbatim>\<open>Vec::swap_remove\<close>: the last element takes the place of the removed one.\<close>

definition swap_remove :: "'x list \<Rightarrow> nat \<Rightarrow> 'x list" where
  "swap_remove xs i = butlast (xs[i := last xs])"

definition get_at :: "'x list \<Rightarrow> nat \<Rightarrow> 'x option" where
  "get_at xs i = (if i < length xs then Some (xs ! i) else None)"

definition stake :: "'a \<Rightarrow> ('a, 'k, 'z) sta \<Rightarrow> (string + unit) \<times> ('a, 'k, 'z) sta" where
  "stake aux s =
    (if sta_nominating s aux \<noteq> None then (Inl ''Cannot stake if already nominating.'', s)
     else if aux \<in> set (sta_intentions s) then (Inl ''Cannot stake if already staked.'', s)
     else (Inr (), s\<lparr>sta_intentions := sta_intentions s @ [aux],
                     sta_bondage := (sta_bondage s)(aux \<mapsto> max_block_number)\<rparr>))"

definition unstake :: "'a \<Rightarrow> nat \<Rightarrow> ('a, 'k, 'z) sta \<Rightarrow> (string + unit) \<times> ('a, 'k, 'z) sta" where
  "unstake aux position s =
    (if get_at (sta_intentions s) position \<noteq> Some aux then (Inl ''Invalid index'', s)
     else (Inr (), s\<lparr>sta_intentions := swap_remove (sta_intentions s) position,
                     sta_bondage := (sta_bondage s)
                       (aux \<mapsto> u64 (sta_current_era s + sta_bonding_duration s))\<rparr>))"

definition nominate :: "'a \<Rightarrow> ('a, nat) address \<Rightarrow> ('a, 'k, 'z) sta \<Rightarrow> (string + unit) \<times> ('a, 'k, 'z) sta" where
  "nominate aux target s = (case lookup s target of
      Inl e \<Rightarrow> (Inl e, s)
    | Inr target \<Rightarrow>
        if sta_nominating s aux \<noteq> None then (Inl ''Cannot nominate if already nominating.'', s)
        else if aux \<in> set (sta_intentions s) then (Inl ''Cannot nominate if already staked.'', s)
        else (Inr (), s\<lparr>sta_nominators_for := (sta_nominators_for s)(target \<mapsto> nominators_for s target @ [aux]),
                        sta_nominating := (sta_nominating s)(aux \<mapsto> target),
                        sta_bondage := (sta_bondage s)(aux \<mapsto> max_block_number)\<rparr>))"

definition unnominate :: "'a \<Rightarrow> nat \<Rightarrow> ('a, 'k, 'z) sta \<Rightarrow> (string + unit) \<times> ('a, 'k, 'z) sta" where
  "unnominate source target_index s = (case sta_nominating s source of
      None \<Rightarrow> (Inl ''Account must be nominating'', s)
    | Some target \<Rightarrow>
        let t = nominators_for s target in
        if get_at t target_index \<noteq> Some source then (Inl ''Invalid target index'', s)
        else (Inr (), s\<lparr>sta_nominators_for := (sta_nominators_for s)(target \<mapsto> swap_remove t target_index),
                        sta_nominating := (sta_nominating s)(source := None),
                        sta_bondage := (sta_bondage s)
                          (source \<mapsto> u64 (sta_current_era s + sta_bonding_duration s))\<rparr>))"

definition set_sessions_per_era :: "nat \<Rightarrow> ('a, 'k, 'z) sta \<Rightarrow> ('a, 'k, 'z) sta" where
  "set_sessions_per_era new s = s\<lparr>sta_next_sessions_per_era := Some new\<rparr>"

definition set_bonding_duration :: "nat \<Rightarrow> ('a, 'k, 'z) sta \<Rightarrow> ('a, 'k, 'z) sta" where
  "set_bonding_duration new s = s\<lparr>sta_bonding_duration := new\<rparr>"

definition set_validator_count :: "nat \<Rightarrow> ('a, 'k, 'z) sta \<Rightarrow> ('a, 'k, 'z) sta" where
  "set_validator_count new s = s\<lparr>sta_validator_count := new\<rparr>"


section \<open>Balances\<close>

definition on_free_too_low :: "'a \<Rightarrow> ('a, 'k, 'z) sta \<Rightarrow> ('a, 'k, 'z) sta" where
  "on_free_too_low who s =
    (let s1 = s\<lparr>sta_free_balance := (sta_free_balance s)(who := None),
                sta_bondage := (sta_bondage s)(who := None),
                sta_code_of := (sta_code_of s)(who := None),
                sta_storage_of := (sta_storage_of s)(who := (\<lambda>_. None))\<rparr> in
     if reserved_balance s1 who = 0
     then s1\<lparr>sys_account_nonce := (sys_account_nonce s1)(who := None)\<rparr> else s1)"

definition on_reserved_too_low :: "'a \<Rightarrow> ('a, 'k, 'z) sta \<Rightarrow> ('a, 'k, 'z) sta" where
  "on_reserved_too_low who s =
    (let s1 = s\<lparr>sta_reserved_balance := (sta_reserved_balance s)(who := None)\<rparr> in
     if free_balance s1 who = 0
     then s1\<lparr>sys_account_nonce := (sys_account_nonce s1)(who := None)\<rparr> else s1)"

definition set_reserved_balance :: "'a \<Rightarrow> nat \<Rightarrow> ('a, 'k, 'z) sta \<Rightarrow> bool \<times> ('a, 'k, 'z) sta" where
  "set_reserved_balance who balance s =
    (if balance < sta_existential_deposit s then (False, on_reserved_too_low who s)
     else (True, s\<lparr>sta_reserved_balance := (sta_reserved_balance s)(who \<mapsto> balance)\<rparr>))"

definition set_free_balance :: "'a \<Rightarrow> nat \<Rightarrow> ('a, 'k, 'z) sta \<Rightarrow> bool \<times> ('a, 'k, 'z) sta" where
  "set_free_balance who balance s =
    (if balance < sta_existential_deposit s then (False, on_free_too_low who s)
     else (True, s\<lparr>sta_free_balance := (sta_free_balance s)(who \<mapsto> balance)\<rparr>))"

definition slash_reserved :: "'a \<Rightarrow> nat \<Rightarrow> ('a, 'k, 'z) sta \<Rightarrow> nat option \<times> ('a, 'k, 'z) sta" where
  "slash_reserved who amount s =
    (let b = reserved_balance s who; sl = min b amount in
     (if amount = sl then None else Some (amount - sl), snd (set_reserved_balance who (b - sl) s)))"

definition slash :: "'a \<Rightarrow> nat \<Rightarrow> ('a, 'k, 'z) sta \<Rightarrow> nat option \<times> ('a, 'k, 'z) sta" where
  "slash who amount s =
    (let fb = free_balance s who; free_slash = min fb amount;
         s1 = snd (set_free_balance who (fb - free_slash) s) in
     if free_slash < amount then slash_reserved who (amount - free_slash) s1 else (None, s1))"

definition reward :: "'a \<Rightarrow> nat \<Rightarrow> ('a, 'k, 'z) sta \<Rightarrow> (string + unit) \<times> ('a, 'k, 'z) sta" where
  "reward who amount s =
    (if voting_balance s who = 0 then (Inl ''beneficiary account must pre-exist'', s)
     else (Inr (), snd (set_free_balance who (u128 (free_balance s who + amount)) s)))"

definition reserve :: "'a \<Rightarrow> nat \<Rightarrow> ('a, 'k, 'z) sta \<Rightarrow> ('a, 'k, 'z) sta outcome" where
  "reserve who amount s =
    (let b = free_balance s who in
     if b < amount then Some (Inl ''not enough free funds'', s)
     else do {
       l \<leftarrow> unlock_block s who;
       Some (if l \<noteq> Liquid then (Inl ''free funds are still bonded'', s)
             else (Inr (), snd (set_free_balance who (b - amount)
                    (snd (set_reserved_balance who (u128 (reserved_balance s who + amount)) s)))))
     })"

definition unreserve :: "'a \<Rightarrow> nat \<Rightarrow> ('a, 'k, 'z) sta \<Rightarrow> nat option \<times> ('a, 'k, 'z) sta" where
  "unreserve who amount s =
    (let b = reserved_balance s who; actual = min b amount;
         s1 = snd (set_free_balance who (u128 (free_balance s who + actual)) s) in
     (if actual = amount then None else Some (amount - actual),
      snd (set_reserved_balance who (b - actual) s1)))"

definition transfer_reserved :: "'a \<Rightarrow> 'a \<Rightarrow> nat \<Rightarrow> ('a, 'k, 'z) sta \<Rightarrow>
    (string + nat option) \<times> ('a, 'k, 'z) sta" where
  "transfer_reserved slashed beneficiary amount s =
    (if voting_balance s beneficiary = 0 then (Inl ''beneficiary account must pre-exist'', s)
     else
       let b = reserved_balance s slashed; sl = min b amount;
           s1 = snd (set_free_balance beneficiary (u128 (free_balance s beneficiary + sl)) s) in
       (Inr (if amount = sl then None else Some (amount - sl)),
        snd (set_reserved_balance slashed (b - sl) s1)))"

definition make_payment :: "'a \<Rightarrow> nat \<Rightarrow> ('a, 'k, 'z) sta \<Rightarrow> (string + unit) \<times> ('a, 'k, 'z) sta" where
  "make_payment transactor encoded_len s =
    (let b = free_balance s transactor;
         fee = u128 (sta_transaction_base_fee s + u128 (sta_transaction_byte_fee s * encoded_len)) in
     if b < fee then (Inl ''not enough funds for transaction fee'', s)
     else (Inr (), s\<lparr>sta_free_balance := (sta_free_balance s)(transactor \<mapsto> b - fee)\<rparr>))"


section \<open>New accounts\<close>

datatype new_account_outcome = NoHint | GoodHint | BadHint

text \<open>The defensive search for an enumeration set that is not full.\<close>

partial_function (option) free_set_from :: "(nat \<Rightarrow> 'a list) \<Rightarrow> nat \<Rightarrow> nat option" where
  "free_set_from sets set_index =
    (if length (sets set_index) < ENUM_SET_SIZE then Some set_index
     else free_set_from sets (u64 (set_index + 1)))"

text \<open>
  The index that the starting balance of a new account may name for reuse: the balance modulo
  the quantised number of accounts times 256 (\<^verbatim>\<open>None\<close> when that product wraps to zero, where the
  remainder panics).
\<close>

definition maybe_try_index :: "nat \<Rightarrow> nat \<Rightarrow> nat option" where
  "maybe_try_index next_set_index balance =
    (let quantized = u64 (u64 (u64 (next_set_index * ENUM_SET_SIZE) div 256 + 1) * 256);
         modulus = u64 (quantized * 256) in
     if modulus = 0 then None else Some (u64 (balance mod modulus)))"

text \<open>Reuse of a dead index: the set whose entry is overwritten, or the outcome for the fall back.\<close>

definition try_reclaim :: "'a \<Rightarrow> nat \<Rightarrow> ('a, 'k, 'z) sta \<Rightarrow> new_account_outcome \<times> ('a, 'k, 'z) sta" where
  "try_reclaim who maybe_index s =
    (if maybe_index mod 256 = RECLAIM_INDEX_MAGIC then
       let try_index = maybe_index div 256;
           set_index = try_index div ENUM_SET_SIZE;
           try_set = enum_set s set_index;
           item_index = try_index mod ENUM_SET_SIZE in
       if item_index < length try_set \<and> voting_balance s (try_set ! item_index) = 0
       then (GoodHint, s\<lparr>sta_enum_set := (sta_enum_set s)(set_index \<mapsto> try_set[item_index := who])\<rparr>)
       else (BadHint, s)
     else (NoHint, s))"

definition new_account :: "'a \<Rightarrow> nat \<Rightarrow> ('a, 'k, 'z) sta \<Rightarrow> (new_account_outcome \<times> ('a, 'k, 'z) sta) option" where
  "new_account who balance s = do {
    maybe_index \<leftarrow> maybe_try_index (sta_next_enum_set s) balance;
    (case try_reclaim who maybe_index s of
       (GoodHint, s') \<Rightarrow> Some (GoodHint, s')
     | (ret, _) \<Rightarrow> do {
         set_index \<leftarrow> free_set_from (enum_set s) (sta_next_enum_set s);
         let st = enum_set s set_index @ [who];
         let s1 = (if length st = ENUM_SET_SIZE then s\<lparr>sta_next_enum_set := u64 (set_index + 1)\<rparr> else s);
         Some (ret, s1\<lparr>sta_enum_set := (sta_enum_set s1)(set_index \<mapsto> st)\<rparr>)
       })
  }"


section \<open>Account databases\<close>

record change_entry =
  ce_balance :: "nat option"
  ce_code :: "byte list option"
  ce_storage :: "(byte list, byte list option) btmap"

definition default_entry :: change_entry where
  "default_entry = \<lparr>ce_balance = None, ce_code = None, ce_storage = []\<rparr>"

definition contract_created :: "nat \<Rightarrow> byte list \<Rightarrow> change_entry" where
  "contract_created b c = \<lparr>ce_balance = Some b, ce_code = Some c, ce_storage = []\<rparr>"

definition balance_changed :: "nat \<Rightarrow> change_entry" where
  "balance_changed b = \<lparr>ce_balance = Some b, ce_code = None, ce_storage = []\<rparr>"

type_synonym 'a changes = "('a, change_entry) btmap"

text \<open>
  An \<^verbatim>\<open>AccountDb\<close> is the storage itself or an overlay of local changes on another one.
\<close>

datatype 'a account_db = DirectAccountDb | OverlayAccountDb "'a changes" "'a account_db"

fun db_get_storage :: "('a, 'k, 'z) sta \<Rightarrow> 'a account_db \<Rightarrow> 'a \<Rightarrow> byte list \<Rightarrow> byte list option" where
  "db_get_storage s DirectAccountDb account location = sta_storage_of s account location"
| "db_get_storage s (OverlayAccountDb local underlying) account location =
    (case Option.bind (map_of local account) (\<lambda>a. map_of (ce_storage a) location) of
       Some v \<Rightarrow> v
     | None \<Rightarrow> db_get_storage s underlying account location)"

fun db_get_code :: "('a, 'k, 'z) sta \<Rightarrow> 'a account_db \<Rightarrow> 'a \<Rightarrow> byte list" where
  "db_get_code s DirectAccountDb account = or_default [] (sta_code_of s account)"
| "db_get_code s (OverlayAccountDb local underlying) account =
    (case Option.bind (map_of local account) ce_code of
       Some c \<Rightarrow> c
     | None \<Rightarrow> db_get_code s underlying account)"

fun db_get_balance :: "('a, 'k, 'z) sta \<Rightarrow> 'a account_db \<Rightarrow> 'a \<Rightarrow> nat" where
  "db_get_balance s DirectAccountDb account = free_balance s account"
| "db_get_balance s (OverlayAccountDb local underlying) account =
    (case Option.bind (map_of local account) ce_balance of
       Some b \<Rightarrow> b
     | None \<Rightarrow> db_get_balance s underlying account)"

text \<open>Committing one account's changes to the storage, and all of them in key order.\<close>

definition merge_storage :: "'a \<Rightarrow> (byte list \<times> byte list option) \<Rightarrow> ('a, 'k, 'z) sta \<Rightarrow> ('a, 'k, 'z) sta" where
  "merge_storage address kv s =
    s\<lparr>sta_storage_of := (sta_storage_of s)(address := (sta_storage_of s address)(fst kv := snd kv))\<rparr>"

definition merge_rest :: "'a \<Rightarrow> change_entry \<Rightarrow> ('a, 'k, 'z) sta \<Rightarrow> ('a, 'k, 'z) sta" where
  "merge_rest address changed s =
    fold (merge_storage address) (ce_storage changed)
      (case ce_code changed of
         Some c \<Rightarrow> s\<lparr>sta_code_of := (sta_code_of s)(address \<mapsto> c)\<rparr>
       | None \<Rightarrow> s)"

definition merge_entry :: "'a \<times> change_entry \<Rightarrow> ('a, 'k, 'z) sta \<Rightarrow> ('a, 'k, 'z) sta option" where
  "merge_entry entry s = (case entry of (address, changed) \<Rightarrow>
    (case ce_balance changed of
       None \<Rightarrow> Some (merge_rest address changed s)
     | Some balance \<Rightarrow>
         if balance < sta_existential_deposit s then Some (on_free_too_low address s)
         else if sta_free_balance s address = None then do {
           (result, s1) \<leftarrow> new_account address balance s;
           let credit = (if result = GoodHint then u128 (balance + sta_reclaim_rebate s1) else balance);
           Some (merge_rest address changed
             (s1\<lparr>sta_free_balance := (sta_free_balance s1)(address \<mapsto> credit)\<rparr>))
         }
         else Some (merge_rest address changed
             (s\<lparr>sta_free_balance := (sta_free_balance s)(address \<mapsto> balance)\<rparr>))))"

fun merge_entries :: "('a \<times> change_entry) list \<Rightarrow> ('a, 'k, 'z) sta \<Rightarrow> ('a, 'k, 'z) sta option" where
  "merge_entries [] s = Some s"
| "merge_entries (e # es) s = do { s1 \<leftarrow> merge_entry e s; merge_entries es s1 }"

definition direct_merge :: "('a::linorder) changes \<Rightarrow> ('a, 'k, 'z) sta \<Rightarrow> ('a, 'k, 'z) sta option" where
  "direct_merge changes s = merge_entries (sort_key fst changes) s"

text \<open>The overlay's own operations.\<close>

definition entry_of :: "'a changes \<Rightarrow> 'a \<Rightarrow> change_entry" where
  "entry_of local account = or_default default_entry (map_of local account)"

definition overlay_set_storage :: "'a \<Rightarrow> byte list \<Rightarrow> byte list option \<Rightarrow> 'a changes \<Rightarrow> 'a changes" where
  "overlay_set_storage account location v local =
    (let e = entry_of local account in
     AList.update account (e\<lparr>ce_storage := AList.update location v (ce_storage e)\<rparr>) local)"

definition overlay_set_balance :: "'a \<Rightarrow> nat \<Rightarrow> 'a changes \<Rightarrow> 'a changes" where
  "overlay_set_balance account balance local =
    AList.update account ((entry_of local account)\<lparr>ce_balance := Some balance\<rparr>) local"

definition overlay_merge_entry :: "'a \<times> change_entry \<Rightarrow> 'a changes \<Rightarrow> 'a changes" where
  "overlay_merge_entry entry local = (case entry of (address, changed) \<Rightarrow>
    (case map_of local address of
       Some v \<Rightarrow> AList.update address
         \<lparr>ce_balance = (if ce_balance changed \<noteq> None then ce_balance changed else ce_balance v),
          ce_code = (if ce_code changed \<noteq> None then ce_code changed else ce_code v),
          ce_storage = fold (\<lambda>(k, x). AList.update k x) (ce_storage changed) (ce_storage v)\<rparr> local
     | None \<Rightarrow> AList.update address changed local))"

definition overlay_merge :: "('a::linorder) changes \<Rightarrow> 'a changes \<Rightarrow> 'a changes" where
  "overlay_merge changes local = fold overlay_merge_entry (sort_key fst changes) local"


section \<open>Transfers and contracts\<close>

text \<open>
  The address of a new contract: the hash of the hash of its code followed by its creator.  \<open>hash\<close>
  is the hash function, \<open>encode\<close> the encoding of account ids, and account ids are made from hashes.
\<close>

definition contract_address_for :: "(byte list \<Rightarrow> byte list) \<Rightarrow> ('a \<Rightarrow> byte list) \<Rightarrow> (byte list \<Rightarrow> 'a) \<Rightarrow>
    byte list \<Rightarrow> 'a \<Rightarrow> 'a" where
  "contract_address_for hash encode from_hash code origin = from_hash (hash (hash code @ encode origin))"

text \<open>Below, the argument \<open>address_for\<close> stands for this function at the runtime's hash.\<close>

definition effect_create :: "(byte list \<Rightarrow> 'a \<Rightarrow> 'a) \<Rightarrow> 'a \<Rightarrow> byte list \<Rightarrow> nat \<Rightarrow>
    ('a, 'k, 'z) sta \<Rightarrow> 'a account_db \<Rightarrow> (string + 'a changes option) option" where
  "effect_create address_for transactor code amount s db =
    (let from_balance = db_get_balance s db transactor;
         liability = u128 (amount + sta_contract_fee s) in
     if from_balance < liability then Some (Inl ''balance too low to send value'')
     else if amount < sta_existential_deposit s then Some (Inl ''value too low to create account'')
     else do {
       block_number \<leftarrow> sys_number s;
       if bondage s transactor > block_number then Some (Inl ''bondage too high to send value'')
       else
         let dest = address_for code transactor in
         if dest = transactor then Some (Inr None)
         else Some (Inr (Some (AList.update transactor (balance_changed (from_balance - liability))
                [(dest, contract_created amount code)])))
     })"

text \<open>
  Running a contract (\<^verbatim>\<open>contract::execute\<close>, a WebAssembly interpreter) is the parameter
  \<open>execute\<close>: given the code, the executing account and the gas limit it turns the local changes
  of the overlay into new ones, and says whether the run succeeded.
\<close>

type_synonym ('a, 'k, 'z) contract_executor =
  "byte list \<Rightarrow> 'a \<Rightarrow> nat \<Rightarrow> ('a, 'k, 'z) sta \<Rightarrow> 'a account_db \<Rightarrow> 'a changes \<Rightarrow> bool \<times> 'a changes"

definition effect_transfer :: "('a, 'k, 'z) contract_executor \<Rightarrow> 'a \<Rightarrow> 'a \<Rightarrow> nat \<Rightarrow>
    ('a, 'k, 'z) sta \<Rightarrow> 'a account_db \<Rightarrow> (string + 'a changes option) option" where
  "effect_transfer execute transactor dest amount s db =
    (let would_create = (db_get_balance s db transactor = 0);
         fee = (if would_create then sta_creation_fee s else sta_transfer_fee s);
         liability = u128 (amount + fee);
         from_balance = db_get_balance s db transactor in
     if from_balance < liability then Some (Inl ''balance too low to send value'')
     else if would_create \<and> amount < sta_existential_deposit s
       then Some (Inl ''value too low to create account'')
     else do {
       block_number \<leftarrow> sys_number s;
       if bondage s transactor > block_number then Some (Inl ''bondage too high to send value'')
       else
         let to_balance = db_get_balance s db dest in
         if u128 (to_balance + amount) \<le> to_balance
           then Some (Inl ''destination balance too high to receive value'')
         else
           let local = (if transactor \<noteq> dest
                 then overlay_set_balance dest (u128 (to_balance + amount))
                   (overlay_set_balance transactor (from_balance - liability) [])
                 else []);
               dest_code = db_get_code s (OverlayAccountDb local db) dest;
               (should_commit, local') =
                 (if dest_code = [] then (True, local)
                  else execute dest_code dest 100000 s db local) in
           Some (Inr (if should_commit then Some local' else None))
     })"

definition transfer :: "('a::linorder, 'k, 'z) contract_executor \<Rightarrow> 'a \<Rightarrow> ('a, nat) address \<Rightarrow> nat \<Rightarrow>
    ('a, 'k, 'z) sta \<Rightarrow> ('a, 'k, 'z) sta outcome" where
  "transfer execute aux dest amount s = (case lookup s dest of
      Inl e \<Rightarrow> Some (Inl e, s)
    | Inr dest \<Rightarrow> do {
        r \<leftarrow> effect_transfer execute aux dest amount s DirectAccountDb;
        (case r of
           Inl e \<Rightarrow> Some (Inl e, s)
         | Inr None \<Rightarrow> Some (Inr (), s)
         | Inr (Some commit) \<Rightarrow> do { s' \<leftarrow> direct_merge commit s; Some (Inr (), s') })
      })"

definition create :: "(byte list \<Rightarrow> 'a \<Rightarrow> 'a::linorder) \<Rightarrow> 'a \<Rightarrow> byte list \<Rightarrow> nat \<Rightarrow>
    ('a, 'k, 'z) sta \<Rightarrow> ('a, 'k, 'z) sta outcome" where
  "create address_for aux code amount s = do {
    r \<leftarrow> effect_create address_for aux code amount s DirectAccountDb;
    (case r of
       Inl e \<Rightarrow> Some (Inl e, s)
     | Inr None \<Rightarrow> Some (Inr (), s)
     | Inr (Some commit) \<Rightarrow> do { s' \<leftarrow> direct_merge commit s; Some (Inr (), s') })
  }"

text \<open>
  \<^verbatim>\<open>StakingExt\<close>: what a running contract can do to its overlay.  A failing create or transfer
  is silently dropped; only a missing block number, impossible inside a block, would panic.
\<close>

definition ext_set_storage :: "'a \<Rightarrow> byte list \<Rightarrow> byte list option \<Rightarrow> 'a changes \<Rightarrow> 'a changes" where
  "ext_set_storage account key v local = overlay_set_storage account key v local"

definition ext_commit :: "(string + 'a changes option) option \<Rightarrow> ('a::linorder) changes \<Rightarrow> 'a changes option" where
  "ext_commit r local = (case r of
      None \<Rightarrow> None
    | Some (Inr (Some commit_state)) \<Rightarrow> Some (overlay_merge commit_state local)
    | Some _ \<Rightarrow> Some local)"

definition ext_create :: "(byte list \<Rightarrow> 'a \<Rightarrow> 'a::linorder) \<Rightarrow> 'a \<Rightarrow> byte list \<Rightarrow> nat \<Rightarrow>
    ('a, 'k, 'z) sta \<Rightarrow> 'a account_db \<Rightarrow> 'a changes \<Rightarrow> 'a changes option" where
  "ext_create address_for account code amount s db local =
    ext_commit (effect_create address_for account code amount s (OverlayAccountDb local db)) local"

definition ext_transfer :: "('a::linorder, 'k, 'z) contract_executor \<Rightarrow> 'a \<Rightarrow> 'a \<Rightarrow> nat \<Rightarrow>
    ('a, 'k, 'z) sta \<Rightarrow> 'a account_db \<Rightarrow> 'a changes \<Rightarrow> 'a changes option" where
  "ext_transfer execute account to amount s db local =
    ext_commit (effect_transfer execute account to amount s (OverlayAccountDb local db)) local"


section \<open>Sessions and eras\<close>

text \<open>
  \<^verbatim>\<open>b * reward / tot\<close> with the wrapping product of the source; the caller has checked that
  the total is not zero.
\<close>

definition safe_mul_rational :: "nat \<Rightarrow> nat \<Rightarrow> nat \<Rightarrow> nat" where
  "safe_mul_rational amount tot b = u128 (b * amount) div tot"

definition sum_balances :: "('a, 'k, 'z) sta \<Rightarrow> nat \<Rightarrow> 'a list \<Rightarrow> nat" where
  "sum_balances s init noms = foldl (\<lambda>acc x. u128 (acc + x)) init (map (voting_balance s) noms)"

definition reward_one :: "nat \<Rightarrow> nat \<Rightarrow> 'a \<Rightarrow> ('a, 'k, 'z) sta \<Rightarrow> ('a, 'k, 'z) sta" where
  "reward_one amount tot n s = snd (reward n (safe_mul_rational amount tot (voting_balance s n)) s)"

definition reward_validator :: "nat \<Rightarrow> 'a \<Rightarrow> ('a, 'k, 'z) sta \<Rightarrow> ('a, 'k, 'z) sta" where
  "reward_validator amount v s =
    (let noms = current_nominators_for s v;
         tot = sum_balances s (voting_balance s v) noms in
     if tot = 0 then s
     else reward_one amount tot v (fold (reward_one amount tot) noms s))"

definition slash_one :: "nat \<Rightarrow> nat \<Rightarrow> 'a \<Rightarrow> ('a, 'k, 'z) sta \<Rightarrow> ('a, 'k, 'z) sta" where
  "slash_one rem tot n s = snd (slash n (safe_mul_rational rem tot (voting_balance s n)) s)"

definition slash_validator :: "nat \<Rightarrow> 'a \<Rightarrow> ('a, 'k, 'z) sta \<Rightarrow> ('a, 'k, 'z) sta" where
  "slash_validator early_era_slash v s = (case slash v early_era_slash s of
      (None, s1) \<Rightarrow> s1
    | (Some rem, s1) \<Rightarrow>
        let noms = current_nominators_for s1 v; tot = sum_balances s1 0 noms in
        if tot = 0 then s1 else fold (slash_one rem tot) noms s1)"

definition enact_era_length :: "('a, 'k, 'z) sta \<Rightarrow> ('a, 'k, 'z) sta" where
  "enact_era_length s = (case sta_next_sessions_per_era s of
      None \<Rightarrow> s
    | Some next_spe \<Rightarrow>
        if next_spe \<noteq> sta_sessions_per_era s
        then s\<lparr>sta_sessions_per_era := next_spe, sta_last_era_length_change := Some (ses_current_index s)\<rparr>
        else s)"

text \<open>
  The would-be validators in the order of their total backing.  The source's sort is unstable;
  the model sorts stably, and no theorem depends on the order of equal backings.
\<close>

definition ranked_intentions :: "('a, 'k, 'z) sta \<Rightarrow> (nat \<times> 'a) list" where
  "ranked_intentions s =
    rev (sort_key fst (rev (map (\<lambda>v. (u128 (voting_balance s v + nomination_balance s v), v)) (sta_intentions s))))"

definition elect :: "('a, 'k, 'z) sta \<Rightarrow> 'a list \<times> ('a, 'k, 'z) sta" where
  "elect s =
    (let ranked = ranked_intentions s;
         threshold = (if length ranked > 0
           then fst (ranked ! min (sta_validator_count s) (length ranked - 1)) else 0);
         vals = take (sta_validator_count s) (map snd ranked);
         cleared = fold (\<lambda>v m. m(v := None)) (ses_validators s) (sta_current_nominators_for s) in
     (vals, s\<lparr>sta_stake_threshold := Some threshold,
              sta_current_nominators_for := fold (\<lambda>v m. m(v \<mapsto> nominators_for s v)) vals cleared\<rparr>))"

definition new_era :: "('a \<Rightarrow> 'k) \<Rightarrow> ('a, 'k, 'z) sta \<Rightarrow> ('a, 'k, 'z) sta option" where
  "new_era convert s =
    (case elect (enact_era_length (s\<lparr>sta_current_era := u64 (sta_current_era s + 1)\<rparr>)) of
      (vals, s1) \<Rightarrow> set_validators convert vals s1)"

definition new_session :: "('a \<Rightarrow> 'k) \<Rightarrow> bool \<Rightarrow> nat \<Rightarrow> ('a, 'k, 'z) sta \<Rightarrow> ('a, 'k, 'z) sta option" where
  "new_session convert normal_rotation actual_elapsed s =
    (let session_index = ses_current_index s;
         ideal_elapsed = ideal_session_duration s in
     do {
       assert (normal_rotation \<longrightarrow> max actual_elapsed ideal_elapsed \<noteq> 0);
       let per65536 = u64 (65536 * ideal_elapsed) div max actual_elapsed ideal_elapsed;
       let amount = u128 (sta_session_reward s * per65536) div 65536;
       let s1 = (if normal_rotation
         then fold (reward_validator amount) (ses_validators s) s
         else fold (slash_validator (sta_early_era_slash s)) (ses_validators s) s);
       assert (sta_sessions_per_era s1 \<noteq> 0);
       if sub64 session_index (or_default 0 (sta_last_era_length_change s1)) mod sta_sessions_per_era s1 = 0
          \<or> \<not> normal_rotation
       then new_era convert s1 else Some s1
     })"

definition force_new_era :: "('a \<Rightarrow> 'k) \<Rightarrow> ('a, 'k, 'z) sta \<Rightarrow> ('a, 'k, 'z) sta option" where
  "force_new_era convert s = rotate_session (new_session convert) False s"

section \<open>Dispatch\<close>

datatype 'a staking_call =
    Call_transfer "('a, nat) address" nat
  | Call_stake
  | Call_unstake nat
  | Call_nominate "('a, nat) address"
  | Call_unnominate nat

datatype staking_priv_call =
    Priv_set_sessions_per_era nat
  | Priv_set_bonding_duration nat
  | Priv_set_validator_count nat
  | Priv_force_new_era

definition staking_dispatch :: "('a::linorder, 'k, 'z) contract_executor \<Rightarrow> 'a \<Rightarrow> 'a staking_call \<Rightarrow>
    ('a, 'k, 'z) sta \<Rightarrow> ('a, 'k, 'z) sta outcome" where
  "staking_dispatch execute aux call s = (case call of
      Call_transfer dest amount \<Rightarrow> transfer execute aux dest amount s
    | Call_stake \<Rightarrow> Some (stake aux s)
    | Call_unstake position \<Rightarrow> Some (unstake aux position s)
    | Call_nominate target \<Rightarrow> Some (nominate aux target s)
    | Call_unnominate target_index \<Rightarrow> Some (unnominate aux target_index s))"

definition staking_priv_dispatch :: "('a \<Rightarrow> 'k) \<Rightarrow> staking_priv_call \<Rightarrow> ('a, 'k, 'z) sta \<Rightarrow>
    ('a, 'k, 'z) sta option" where
  "staking_priv_dispatch convert call s = (case call of
      Priv_set_sessions_per_era new \<Rightarrow> Some (set_sessions_per_era new s)
    | Priv_set_bonding_duration new \<Rightarrow> Some (set_bonding_duration new s)
    | Priv_set_validator_count new \<Rightarrow> Some (set_validator_count new s)
    | Priv_force_new_era \<Rightarrow> force_new_era convert s)"


section \<open>Genesis\<close>

record 'a staking_config =
  gc_sessions_per_era :: nat
  gc_current_era :: nat
  gc_balances :: "('a \<times> nat) list"
  gc_intentions :: "'a list"
  gc_validator_count :: nat
  gc_bonding_duration :: nat
  gc_transaction_base_fee :: nat
  gc_transaction_byte_fee :: nat
  gc_transfer_fee :: nat
  gc_creation_fee :: nat
  gc_contract_fee :: nat
  gc_reclaim_rebate :: nat
  gc_existential_deposit :: nat
  gc_session_reward :: nat
  gc_early_era_slash :: nat

definition simple_config :: "nat staking_config" where
  "simple_config = \<lparr>gc_sessions_per_era = 2, gc_current_era = 0, gc_balances = [(1, 111)],
    gc_intentions = [1, 2, 3], gc_validator_count = 3, gc_bonding_duration = 0,
    gc_transaction_base_fee = 0, gc_transaction_byte_fee = 0, gc_transfer_fee = 0, gc_creation_fee = 0,
    gc_contract_fee = 0, gc_reclaim_rebate = 0, gc_existential_deposit = 0, gc_session_reward = 0,
    gc_early_era_slash = 0\<rparr>"

definition extended_config :: "nat staking_config" where
  "extended_config = \<lparr>gc_sessions_per_era = 3, gc_current_era = 1,
    gc_balances = [(1, 10), (2, 20), (3, 30), (4, 40), (5, 50), (6, 60), (7, 1)],
    gc_intentions = [1, 2, 3], gc_validator_count = 3, gc_bonding_duration = 0,
    gc_transaction_base_fee = 1, gc_transaction_byte_fee = 0, gc_transfer_fee = 0, gc_creation_fee = 0,
    gc_contract_fee = 0, gc_reclaim_rebate = 0, gc_existential_deposit = 0, gc_session_reward = 0,
    gc_early_era_slash = 0\<rparr>"

definition default_config :: "'a staking_config" where
  "default_config = \<lparr>gc_sessions_per_era = 1000, gc_current_era = 0, gc_balances = [],
    gc_intentions = [], gc_validator_count = 0, gc_bonding_duration = 1000,
    gc_transaction_base_fee = 0, gc_transaction_byte_fee = 0, gc_transfer_fee = 0, gc_creation_fee = 0,
    gc_contract_fee = 0, gc_reclaim_rebate = 0, gc_existential_deposit = 0, gc_session_reward = 0,
    gc_early_era_slash = 0\<rparr>"

text \<open>
  The enumeration sets of genesis, sixty-four accounts each, and the balances, a later entry for
  the same account replacing an earlier one.
\<close>

definition genesis_enum_set :: "'a list \<Rightarrow> nat \<rightharpoonup> 'a list" where
  "genesis_enum_set ids i =
    (if i < (length ids + ENUM_SET_SIZE - 1) div ENUM_SET_SIZE
     then Some (take ENUM_SET_SIZE (drop (i * ENUM_SET_SIZE) ids)) else None)"

definition genesis_balances :: "('a \<times> nat) list \<Rightarrow> 'a \<rightharpoonup> nat" where
  "genesis_balances bs = fold (\<lambda>(who, b) m. m(who \<mapsto> b)) bs Map.empty"

text \<open>The hash of which every byte is 69, stored as the genesis block's hash.\<close>

definition genesis_hash :: hash where
  "genesis_hash = of_nat (foldl (\<lambda>acc _. acc * 256 + 69) 0 [0..<32])"

text \<open>
  \<^verbatim>\<open>build_storage\<close> of the configurations of \<^verbatim>\<open>system\<close>, \<^verbatim>\<open>consensus\<close>, \<^verbatim>\<open>timestamp\<close>, \<^verbatim>\<open>session\<close> and
  \<^verbatim>\<open>staking\<close>.  The \<^verbatim>\<open>u64\<close> validator count of the configuration is stored in eight bytes and
  read back as a \<^verbatim>\<open>u32\<close>: its low half.
\<close>

definition build_storage :: "'k list \<Rightarrow> byte list \<Rightarrow> nat \<Rightarrow> nat \<Rightarrow> 'a list \<Rightarrow> nat \<Rightarrow> 'a staking_config \<Rightarrow>
    ('a, 'k) Staking" where
  "build_storage auths code period session_length vals percent_late c =
    (let ids = map fst (gc_balances c) in
    \<lparr>sys_account_nonce = Map.empty, sys_block_hash = [0 \<mapsto> genesis_hash],
     sys_extrinsic_index = Some 0, sys_extrinsic_data = Map.empty, sys_random_seed = Some 0,
     sys_number = Some 1, sys_parent_hash = Some genesis_hash, sys_extrinsics_root = None,
     sys_digest = [],
     con_auth_at = (\<lambda>i. get_at auths i), con_auth_len = Some (u32 (length auths)),
     con_code = Some code,
     tim_now = 0, tim_block_period = period, tim_did_update = None,
     ses_validators = vals, ses_session_length = session_length, ses_current_index = 0,
     ses_current_start = 0, ses_broken_percent_late = percent_late, ses_last_length_change = None,
     ses_next_key_for = Map.empty, ses_next_session_length = None,
     sta_bonding_duration = gc_bonding_duration c,
     sta_validator_count = u32 (gc_validator_count c),
     sta_sessions_per_era = gc_sessions_per_era c,
     sta_total_stake = foldl (\<lambda>acc (_, n). u128 (acc + n)) 0 (gc_balances c),
     sta_transaction_base_fee = gc_transaction_base_fee c,
     sta_transaction_byte_fee = gc_transaction_byte_fee c,
     sta_existential_deposit = gc_existential_deposit c,
     sta_reclaim_rebate = gc_reclaim_rebate c, sta_transfer_fee = gc_transfer_fee c,
     sta_creation_fee = gc_creation_fee c, sta_contract_fee = gc_contract_fee c,
     sta_session_reward = gc_session_reward c, sta_early_era_slash = gc_early_era_slash c,
     sta_current_era = gc_current_era c, sta_intentions = gc_intentions c,
     sta_nominating = Map.empty, sta_nominators_for = Map.empty,
     sta_current_nominators_for = Map.empty, sta_next_sessions_per_era = None,
     sta_last_era_length_change = None, sta_stake_threshold = None,
     sta_next_enum_set = length (gc_balances c) div ENUM_SET_SIZE,
     sta_enum_set = genesis_enum_set ids, sta_free_balance = genesis_balances (gc_balances c),
     sta_reserved_balance = Map.empty, sta_bondage = Map.empty, sta_code_of = Map.empty,
     sta_storage_of = (\<lambda>_ _. None)\<rparr>)"

end
