(* ===== verification/Staking_Proofs.thy ===== *)
theory Staking_Proofs
  imports Staking
begin

text \<open>
  Properties of the \<^verbatim>\<open>staking\<close> module: the records of stakers and nominators stay consistent
  under everything the module can be asked to do; account indices; committing an overlay to the
  storage; the token supply under transfers and the contracts they run; the balance
  operations of other modules against a specification; the election at an era change; the address
  codec; and where the code departs from what its comments say.
\<close>


section \<open>Stakers and nominators\<close>

text \<open>
  The records of who stakes and who nominates whom agree: nobody is listed twice, nominators are
  listed exactly under their nominee, and nobody stakes and nominates at once.
\<close>

definition nominations_ok :: "('a, 'k, 'z) sta \<Rightarrow> bool" where
  "nominations_ok s \<longleftrightarrow> distinct (sta_intentions s) \<and> (\<forall>t. distinct (nominators_for s t)) \<and>
    (\<forall>a t. a \<in> set (nominators_for s t) \<longleftrightarrow> sta_nominating s a = Some t) \<and>
    (\<forall>a \<in> set (sta_intentions s). sta_nominating s a = None)"

text \<open>Everything that can change the state of the module from outside.\<close>

inductive staking_step :: "('a::linorder \<Rightarrow> 'k) \<Rightarrow> ('a, 'k, 'z) contract_executor \<Rightarrow>
    ('a, 'k, 'z) sta \<Rightarrow> ('a, 'k, 'z) sta \<Rightarrow> bool"
  for convert :: "'a::linorder \<Rightarrow> 'k" and execute :: "('a, 'k, 'z) contract_executor" where
  step_call: "staking_dispatch execute aux call s = Some (r, s') \<Longrightarrow> staking_step convert execute s s'"
| step_priv: "staking_priv_dispatch convert call s = Some s' \<Longrightarrow> staking_step convert execute s s'"
| step_session: "check_rotate_session (new_session convert) s = Some s' \<Longrightarrow> staking_step convert execute s s'"
| step_payment: "make_payment who n s = (r, s') \<Longrightarrow> staking_step convert execute s s'"
| step_slash: "slash who n s = (r', s') \<Longrightarrow> staking_step convert execute s s'"
| step_reserve: "reserve who n s = Some (r, s') \<Longrightarrow> staking_step convert execute s s'"
| step_unreserve: "unreserve who n s = (r', s') \<Longrightarrow> staking_step convert execute s s'"
| step_slash_reserved: "slash_reserved who n s = (r', s') \<Longrightarrow> staking_step convert execute s s'"
| step_transfer_reserved: "transfer_reserved who to n s = (r'', s') \<Longrightarrow> staking_step convert execute s s'"

definition same_stakers :: "('a, 'k, 'z) sta \<Rightarrow> ('a, 'k, 'z) sta \<Rightarrow> bool" where
  "same_stakers s s' \<longleftrightarrow> sta_intentions s' = sta_intentions s \<and> sta_nominating s' = sta_nominating s \<and>
    sta_nominators_for s' = sta_nominators_for s"

named_theorems stakers_intro \<open>operations that leave stakers and nominators alone\<close>

lemma same_stakers_refl [stakers_intro]: "same_stakers s s"
  by (simp add: same_stakers_def)

lemma same_stakers_trans: "same_stakers s t \<Longrightarrow> same_stakers t u \<Longrightarrow> same_stakers s u"
  by (simp add: same_stakers_def)

lemma same_stakers_ok: "same_stakers s s' \<Longrightarrow> nominations_ok s \<Longrightarrow> nominations_ok s'"
  by (simp add: same_stakers_def nominations_ok_def nominators_for_def)

lemma same_stakers_fold [stakers_intro]:
  assumes "\<And>x s. same_stakers s (f x s)"
  shows "same_stakers s (fold f xs s)"
  by (induction xs arbitrary: s) (auto intro: assms same_stakers_trans same_stakers_refl)

lemma same_stakers_set_free [stakers_intro]: "same_stakers s (snd (set_free_balance who b s))"
  by (simp add: same_stakers_def set_free_balance_def on_free_too_low_def Let_def)

lemma same_stakers_set_reserved [stakers_intro]: "same_stakers s (snd (set_reserved_balance who b s))"
  by (simp add: same_stakers_def set_reserved_balance_def on_reserved_too_low_def Let_def)

lemma same_stakers_free_too_low [stakers_intro]: "same_stakers s (on_free_too_low who s)"
  by (simp add: same_stakers_def on_free_too_low_def Let_def)

lemma same_stakers_slash_reserved [stakers_intro]: "same_stakers s (snd (slash_reserved who n s))"
  by (simp add: slash_reserved_def Let_def stakers_intro)

lemma same_stakers_slash [stakers_intro]: "same_stakers s (snd (slash who n s))"
proof -
  have "same_stakers s (snd (slash_reserved who m (snd (set_free_balance who b s))))" for m b
    by (rule same_stakers_trans [OF same_stakers_set_free same_stakers_slash_reserved])
  then show ?thesis by (simp add: slash_def Let_def stakers_intro)
qed

lemma same_stakers_reward [stakers_intro]: "same_stakers s (snd (reward who n s))"
  by (simp add: reward_def stakers_intro)

lemma same_stakers_unreserve [stakers_intro]: "same_stakers s (snd (unreserve who n s))"
  by (simp add: unreserve_def Let_def)
    (rule same_stakers_trans [OF same_stakers_set_free same_stakers_set_reserved])

lemma same_stakers_transfer_reserved [stakers_intro]: "same_stakers s (snd (transfer_reserved who to n s))"
  by (auto simp: transfer_reserved_def Let_def stakers_intro
      intro: same_stakers_trans [OF same_stakers_set_free same_stakers_set_reserved])

lemma same_stakers_reserve: "reserve who n s = Some (r, s') \<Longrightarrow> same_stakers s s'"
  by (auto simp: reserve_def Let_def stakers_intro bind_eq_Some_conv split: if_splits
      intro: same_stakers_trans [OF same_stakers_set_reserved same_stakers_set_free])

lemma same_stakers_payment [stakers_intro]: "same_stakers s (snd (make_payment who n s))"
  by (simp add: make_payment_def Let_def same_stakers_def)

lemma same_stakers_try_reclaim: "try_reclaim who i s = (r, s') \<Longrightarrow> same_stakers s s'"
  by (auto simp: try_reclaim_def Let_def same_stakers_def split: if_splits)

lemma same_stakers_new_account:
  assumes "new_account who b s = Some (r, s')"
  shows "same_stakers s s'"
proof -
  obtain i where i: "maybe_try_index (sta_next_enum_set s) b = Some i"
    using assms by (auto simp: new_account_def bind_eq_Some_conv)
  obtain r1 s1 where r1: "try_reclaim who i s = (r1, s1)" by fastforce
  show ?thesis
  proof (cases "r1 = GoodHint")
    case True
    then show ?thesis using assms i r1 same_stakers_try_reclaim by (auto simp: new_account_def)
  next
    case False
    then show ?thesis using assms i r1
      by (cases r1) (auto simp: new_account_def Let_def same_stakers_def bind_eq_Some_conv)
  qed
qed

lemma same_stakers_merge_rest [stakers_intro]: "same_stakers s (merge_rest a e s)"
proof -
  have "same_stakers s (merge_storage a kv s)" for kv s
    by (simp add: merge_storage_def same_stakers_def)
  then have "same_stakers t (fold (merge_storage a) kvs t)" for kvs t
    by (rule same_stakers_fold)
  moreover have "same_stakers s (case ce_code e of Some c \<Rightarrow> s\<lparr>sta_code_of := (sta_code_of s)(a \<mapsto> c)\<rparr> | None \<Rightarrow> s)"
    by (simp add: same_stakers_def split: option.split)
  ultimately show ?thesis unfolding merge_rest_def using same_stakers_trans by blast
qed

lemma same_stakers_free_rest: "same_stakers s (merge_rest a e (s\<lparr>sta_free_balance := f\<rparr>))"
  by (rule same_stakers_trans [OF _ same_stakers_merge_rest]) (simp add: same_stakers_def)

lemma same_stakers_merge_entry: "merge_entry ae s = Some s' \<Longrightarrow> same_stakers s s'"
  by (cases ae) (auto simp: merge_entry_def Let_def bind_eq_Some_conv
      intro: stakers_intro same_stakers_free_rest same_stakers_trans [OF same_stakers_new_account]
      split: option.splits if_splits)

lemma same_stakers_merge: "merge_entries es s = Some s' \<Longrightarrow> same_stakers s s'"
  by (induction es arbitrary: s)
    (auto simp: bind_eq_Some_conv stakers_intro dest: same_stakers_merge_entry intro: same_stakers_trans)

lemma same_stakers_transfer: "transfer execute aux dest n s = Some (r, s') \<Longrightarrow> same_stakers s s'"
  by (auto simp: transfer_def direct_merge_def stakers_intro
      dest!: same_stakers_merge split: sum.splits option.splits Option.bind_splits)

lemma set_authorities_stakers:
  assumes "set_authorities ks (s :: ('a, 'k, 'z) sta) = Some s'"
  shows "same_stakers s s'"
proof -
  have put: "sv_put_items n ks s = Some (c, s') \<Longrightarrow> same_stakers s s'" for n c ks and s s' :: "('a, 'k, 'z) sta"
    by (induction ks arbitrary: n s) (auto simp: same_stakers_def split: if_splits)
  have cnt: "same_stakers s (sv_set_count n s)" for n and s :: "('a, 'k, 'z) sta"
  proof -
    have "same_stakers s (sv_clear_item i s)" for i and s :: "('a, 'k, 'z) sta"
      by (simp add: sv_clear_item_def same_stakers_def)
    then have "same_stakers s (fold sv_clear_item is s)" for "is" and s :: "('a, 'k, 'z) sta"
      by (rule same_stakers_fold)
    then show ?thesis by (simp add: sv_set_count_def same_stakers_def)
  qed
  show ?thesis
    using assms by (auto simp: set_authorities_def sv_set_items_def bind_eq_Some_conv
        intro: same_stakers_trans [OF put cnt])
qed

lemma same_stakers_elect: "elect s = (vals, s') \<Longrightarrow> same_stakers s s'"
  by (auto simp: elect_def Let_def same_stakers_def)

lemma same_stakers_new_era:
  assumes "new_era convert s = Some s'"
  shows "same_stakers s s'"
proof -
  let ?s0 = "enact_era_length (s\<lparr>sta_current_era := u64 (sta_current_era s + 1)\<rparr>)"
  obtain vals s1 where e: "elect ?s0 = (vals, s1)" by fastforce
  have "same_stakers s ?s0"
    by (simp add: enact_era_length_def same_stakers_def split: option.split)
  moreover have "same_stakers s1 (s1\<lparr>ses_validators := vals\<rparr>)" by (simp add: same_stakers_def)
  moreover have "same_stakers (s1\<lparr>ses_validators := vals\<rparr>) s'"
    using assms e set_authorities_stakers by (simp add: new_era_def set_validators_def)
  ultimately show ?thesis using same_stakers_elect [OF e] same_stakers_trans by blast
qed

lemma same_stakers_reward_one: "same_stakers s (reward_one a t n s)"
  by (simp add: reward_one_def stakers_intro)

lemma same_stakers_slash_one: "same_stakers s (slash_one a t n s)"
  by (simp add: slash_one_def stakers_intro)

lemma same_stakers_reward_validator: "same_stakers s (reward_validator a v s)"
proof -
  have "same_stakers s (reward_one b c v (fold (reward_one b c) ns s))" for b c ns
    by (rule same_stakers_trans [OF same_stakers_fold same_stakers_reward_one])
      (rule same_stakers_reward_one)
  then show ?thesis by (simp add: reward_validator_def Let_def stakers_intro)
qed

lemma same_stakers_slash_validator: "same_stakers s (slash_validator a v s)"
proof -
  obtain r t where r: "slash v a s = (r, t)" by fastforce
  then have t: "same_stakers s t" using same_stakers_slash [of s v a] by simp
  have "same_stakers t (fold (slash_one b c) ns t)" for b c ns
    by (rule same_stakers_fold) (rule same_stakers_slash_one)
  then show ?thesis using r t same_stakers_trans [OF t]
    by (auto simp: slash_validator_def Let_def split: option.splits)
qed

lemma same_stakers_new_session:
  assumes "new_session convert n e s = Some s'"
  shows "same_stakers s s'"
proof -
  define t where "t = (if n
    then fold (reward_validator (u128 (sta_session_reward s * (u64 (65536 * ideal_session_duration s) div
           max e (ideal_session_duration s))) div 65536)) (ses_validators s) s
    else fold (slash_validator (sta_early_era_slash s)) (ses_validators s) s)"
  have "same_stakers s t"
    unfolding t_def
    by (auto intro: same_stakers_fold same_stakers_reward_validator same_stakers_slash_validator)
  moreover have "s' = t \<or> new_era convert t = Some s'"
    using assms unfolding new_session_def Let_def t_def [symmetric] by (auto simp: bind_assert split: if_splits)
  ultimately show ?thesis using same_stakers_new_era same_stakers_trans by blast
qed

lemma same_stakers_update_keys: "same_stakers s (update_keys i vs s)"
proof (induction vs arbitrary: i s)
  case (Cons v vs)
  have "same_stakers s (case ses_next_key_for s v of None \<Rightarrow> s
     | Some n \<Rightarrow> set_authority (u32 i) n (s\<lparr>ses_next_key_for := (ses_next_key_for s)(v := None)\<rparr>))"
    by (simp add: same_stakers_def set_authority_def sv_set_item_def split: option.split)
  then show ?case using Cons.IH same_stakers_trans by (simp del: One_nat_def) blast
qed (simp add: stakers_intro)

lemma same_stakers_enact_length: "enact_length s = Some t \<Longrightarrow> same_stakers s t"
  by (auto simp: enact_length_def same_stakers_def bind_eq_Some_conv split: option.splits)

lemma same_stakers_rotate:
  assumes "rotate_session (new_session convert) n s = Some s'"
  shows "same_stakers s s'"
proof -
  let ?s1 = "s\<lparr>ses_current_index := u64 (ses_current_index s + 1), ses_current_start := timestamp_get s\<rparr>"
  obtain t u where t: "enact_length ?s1 = Some t"
    and u: "new_session convert n (sub64 (timestamp_get s) (ses_current_start s)) t = Some u"
    and s': "s' = update_keys 0 (ses_validators u) u"
    using assms by (auto simp: rotate_session_def Let_def bind_eq_Some_conv)
  have "same_stakers s ?s1" by (simp add: same_stakers_def)
  then have "same_stakers s u"
    using same_stakers_enact_length [OF t] same_stakers_new_session [OF u] same_stakers_trans by blast
  then show ?thesis using same_stakers_update_keys same_stakers_trans s' by blast
qed

lemma set_swap_remove:
  "distinct xs \<Longrightarrow> i < length xs \<Longrightarrow> distinct (swap_remove xs i) \<and> set (swap_remove xs i) = set xs - {xs ! i}"
proof -
  assume d: "distinct xs" and i: "i < length xs"
  then obtain ys y where xs: "xs = ys @ [y]" by (metis length_0_conv not_less_zero rev_exhaust)
  show ?thesis
  proof (cases "i = length ys")
    case True
    then show ?thesis using d by (auto simp: swap_remove_def xs)
  next
    case False
    then have i: "i < length ys" using i xs by simp
    then have "swap_remove xs i = ys[i := y]" by (simp add: swap_remove_def xs list_update_append)
    moreover have "distinct (ys[i := y])" using d by (intro distinct_list_update) (auto simp: xs)
    moreover have "set (ys[i := y]) = insert y (set ys - {ys ! i})"
      using d i by (intro set_update_distinct) (auto simp: xs)
    ultimately show ?thesis using d i by (auto simp: xs nth_append)
  qed
qed

lemma get_at_Some: "get_at xs i = Some x \<longleftrightarrow> i < length xs \<and> xs ! i = x"
  by (auto simp: get_at_def)

lemma nominations_stake: "nominations_ok s \<Longrightarrow> nominations_ok (snd (stake aux s))"
  by (auto simp: stake_def nominations_ok_def nominators_for_def)

lemma nominations_unstake: "nominations_ok s \<Longrightarrow> nominations_ok (snd (unstake aux p s))"
  using set_swap_remove [of "sta_intentions s" p]
  by (auto simp: unstake_def nominations_ok_def nominators_for_def get_at_Some split: if_splits)

lemma nominations_nominate: "nominations_ok s \<Longrightarrow> nominations_ok (snd (nominate aux t s))"
  by (auto simp: nominate_def nominations_ok_def nominators_for_def split: sum.splits if_splits)

lemma nominations_unnominate:
  assumes "nominations_ok s"
  shows "nominations_ok (snd (unnominate aux p s))"
proof (cases "sta_nominating s aux")
  case (Some t)
  have "distinct (swap_remove (nominators_for s t) p) \<and>
      set (swap_remove (nominators_for s t) p) = set (nominators_for s t) - {nominators_for s t ! p}"
    if "p < length (nominators_for s t)"
    using assms that by (intro set_swap_remove) (simp_all add: nominations_ok_def)
  then show ?thesis
    using assms Some
    by (auto simp: unnominate_def nominations_ok_def nominators_for_def get_at_Some Let_def split: if_splits)
qed (use assms in \<open>simp add: unnominate_def\<close>)

lemma nominations_step:
  assumes "staking_step convert execute s s'" "nominations_ok s"
  shows "nominations_ok s'"
  using assms
proof cases
  case (step_call aux call r)
  show ?thesis
  proof (cases call)
    case (Call_transfer dest n)
    then have "same_stakers s s'" using step_call same_stakers_transfer by (simp add: staking_dispatch_def)
    then show ?thesis using assms(2) same_stakers_ok by blast
  next
    case Call_stake
    then show ?thesis using step_call nominations_stake [OF assms(2), of aux] by (simp add: staking_dispatch_def)
  next
    case (Call_unstake p)
    then show ?thesis using step_call nominations_unstake [OF assms(2), of aux p] by (simp add: staking_dispatch_def)
  next
    case (Call_nominate t)
    then show ?thesis using step_call nominations_nominate [OF assms(2), of aux t] by (simp add: staking_dispatch_def)
  next
    case (Call_unnominate p)
    then show ?thesis using step_call nominations_unnominate [OF assms(2), of aux p] by (simp add: staking_dispatch_def)
  qed
next
  case (step_priv call)
  have "same_stakers s s'"
    using step_priv same_stakers_rotate
    by (cases call) (auto simp: staking_priv_dispatch_def force_new_era_def same_stakers_def
        set_sessions_per_era_def set_bonding_duration_def set_validator_count_def)
  then show ?thesis using assms(2) same_stakers_ok by blast
next
  case step_session
  then have "same_stakers s s'"
    using same_stakers_rotate
    by (auto simp: check_rotate_session_def Let_def bind_eq_Some_conv stakers_intro split: if_splits)
  then show ?thesis using assms(2) same_stakers_ok by blast
next
  case (step_reserve who n r)
  then show ?thesis using assms(2) by (metis same_stakers_reserve same_stakers_ok)
qed (use assms(2) same_stakers_ok stakers_intro in \<open>metis snd_conv\<close>)+

text \<open>
  C26.  Whatever calls, privileged calls, session changes, fee payments and balance operations of
  the other modules follow each other, in any order, the records of stakers and nominators
  keep agreeing: no account is listed twice, an account is in the nominator list of
  exactly the one account it nominates, and no staker nominates.
\<close>

theorem nominations_consistent:
  assumes "nominations_ok s" "(staking_step convert execute)\<^sup>*\<^sup>* s s'"
  shows "nominations_ok s'"
  using assms(2,1) by (induction rule: rtranclp_induct) (auto intro: nominations_step)

text \<open>From the \<^verbatim>\<open>simple\<close> genesis, account five nominates one and account three stops staking.\<close>

definition sample_state :: "(nat, nat) Staking" where
  "sample_state = build_storage [1, 2, 3] [] 5 10 [1, 2, 3] 30 simple_config"

lemmas sample_defs = sample_state_def build_storage_def simple_config_def

theorem nominations_consistent_witness:
  "nominations_ok sample_state \<and>
   (staking_step id (\<lambda>_ _ _ _ _ l. (True, l)))\<^sup>*\<^sup>* sample_state
     (snd (unstake 3 2 (snd (nominate 5 (Id 1) sample_state)))) \<and>
   nominations_ok (snd (unstake 3 2 (snd (nominate 5 (Id 1) sample_state)))) \<and>
   sta_intentions (snd (unstake 3 2 (snd (nominate 5 (Id 1) sample_state)))) = [1, 2] \<and>
   nominators_for (snd (unstake 3 2 (snd (nominate 5 (Id 1) sample_state)))) 1 = [5]"
proof -
  let ?t = "snd (nominate 5 (Id 1) sample_state)"
  have ok: "nominations_ok sample_state"
    by (simp add: sample_defs nominations_ok_def nominators_for_def)
  have s1: "staking_step id (\<lambda>_ _ _ _ _ l. (True, l)) sample_state ?t"
    by (rule step_call [of _ 5 "Call_nominate (Id 1)" _ "fst (nominate 5 (Id 1) sample_state)"])
      (simp add: staking_dispatch_def)
  have s2: "staking_step id (\<lambda>_ _ _ _ _ l. (True, l)) ?t (snd (unstake 3 2 ?t))"
    by (rule step_call [of _ 3 "Call_unstake 2" _ "fst (unstake 3 2 ?t)"]) (simp add: staking_dispatch_def)
  have run: "(staking_step id (\<lambda>_ _ _ _ _ l. (True, l)))\<^sup>*\<^sup>* sample_state (snd (unstake 3 2 ?t))"
    using s1 s2 by (meson converse_rtranclp_into_rtranclp rtranclp.rtrancl_refl)
  show ?thesis
    using ok run nominations_consistent [OF ok run]
    by (simp add: nominate_def unstake_def lookup_def sample_defs get_at_def nominators_for_def swap_remove_def)
qed

section \<open>Account indices\<close>

text \<open>
  The enumeration sets: full below the next free set, which has room, and empty above it.
\<close>

definition enum_ok :: "('a, 'k, 'z) sta \<Rightarrow> bool" where
  "enum_ok s \<longleftrightarrow> (\<forall>i < sta_next_enum_set s. length (enum_set s i) = ENUM_SET_SIZE) \<and>
    length (enum_set s (sta_next_enum_set s)) < ENUM_SET_SIZE \<and>
    (\<forall>i > sta_next_enum_set s. enum_set s i = [])"

lemma free_set_from_next: "length (sets i) < ENUM_SET_SIZE \<Longrightarrow> free_set_from sets i = Some i"
  by (subst free_set_from.simps) simp

lemma maybe_try_index_total:
  assumes "n < 2 ^ 40"
  shows "\<exists>i. maybe_try_index n b = Some i"
proof -
  define q where "q = n * 64 div 256 + 1"
  have q: "0 < q" "q < 2 ^ 40" using assms by (simp_all add: q_def)
  have e1: "u64 (n * ENUM_SET_SIZE) div 256 + 1 = q"
    using assms by (simp add: ENUM_SET_SIZE_def q_def)
  have e2: "u64 q = q" "u64 (q * 256) = q * 256" "u64 (q * 256 * 256) = q * 256 * 256"
    using q by simp_all
  have e3: "q * 256 * 256 \<noteq> 0" using q by simp
  show ?thesis unfolding maybe_try_index_def Let_def e1 e2 using e3 by (simp only: if_False) blast
qed

lemma index_split: "j div 64 = k div 64 \<and> j mod 64 = k mod 64 \<longleftrightarrow> j = (k :: nat)"
  by (metis div_mult_mod_eq)

text \<open>Overwriting or appending one entry of a set changes what one index looks up.\<close>

lemma lookup_index_overwrite:
  assumes "idx mod 64 < length (enum_set s (idx div 64))"
    and "s' = s\<lparr>sta_enum_set := (sta_enum_set s)(idx div 64 \<mapsto> (enum_set s (idx div 64))[idx mod 64 := who])\<rparr>"
  shows "lookup_index s' j = (if j = idx then Some who else lookup_index s j)"
  using assms index_split [of j idx]
  by (auto simp: lookup_index_def Let_def enum_set_def ENUM_SET_SIZE_def nth_list_update split: if_splits)

lemma lookup_index_append:
  assumes "length (enum_set s k) < 64"
    and "sta_enum_set s' = (sta_enum_set s)(k \<mapsto> enum_set s k @ [who])"
  shows "lookup_index s' j = (if j = 64 * k + length (enum_set s k) then Some who else lookup_index s j)"
proof -
  let ?idx = "64 * k + length (enum_set s k)"
  have "?idx div 64 = k" "?idx mod 64 = length (enum_set s k)" using assms(1) by simp_all
  then show ?thesis
    using assms index_split [of j ?idx]
    by (auto simp: lookup_index_def Let_def enum_set_def ENUM_SET_SIZE_def nth_append)
qed

lemma new_account_total:
  assumes "enum_ok s" "sta_next_enum_set s < 2 ^ 40"
  shows "\<exists>r s'. new_account who b s = Some (r, s')"
proof -
  obtain mi where mi: "maybe_try_index (sta_next_enum_set s) b = Some mi"
    using maybe_try_index_total [OF assms(2)] by blast
  have free: "free_set_from (enum_set s) (sta_next_enum_set s) = Some (sta_next_enum_set s)"
    using assms(1) by (intro free_set_from_next) (simp add: enum_ok_def)
  obtain r s1 where "try_reclaim who mi s = (r, s1)" by fastforce
  then show ?thesis using mi free by (cases r) (simp_all add: new_account_def Let_def)
qed

text \<open>
  C29.  Registering an account always ends (the defensive loop for a set with room stops at once)
  and gives the account an index: either a free index, or, when the starting balance names one,
  the index of a dead account.  No other index changes its account and the sets stay packed.
  The bound on the number of sets keeps the index arithmetic from wrapping.
\<close>

theorem new_account_index:
  assumes "enum_ok s" "sta_next_enum_set s < 2 ^ 40"
  shows "\<exists>outcome s' idx. new_account who balance s = Some (outcome, s') \<and> enum_ok s' \<and>
    lookup_index s' idx = Some who \<and> (\<forall>j. j \<noteq> idx \<longrightarrow> lookup_index s' j = lookup_index s j) \<and>
    (if outcome = GoodHint then can_reclaim s idx else lookup_index s idx = None)"
proof -
  obtain mi where mi: "maybe_try_index (sta_next_enum_set s) balance = Some mi"
    using maybe_try_index_total [OF assms(2)] by blast
  obtain r1 s1 where r1: "try_reclaim who mi s = (r1, s1)" by fastforce
  show ?thesis
  proof (cases "r1 = GoodHint")
    case True
    define idx where "idx = mi div 256"
    have len: "idx mod 64 < length (enum_set s (idx div 64))"
      and dead: "voting_balance s (enum_set s (idx div 64) ! (idx mod 64)) = 0"
      and s1: "s1 = s\<lparr>sta_enum_set := (sta_enum_set s)(idx div 64 \<mapsto> (enum_set s (idx div 64))[idx mod 64 := who])\<rparr>"
      using r1 True by (auto simp: try_reclaim_def Let_def ENUM_SET_SIZE_def idx_def split: if_splits)
    have "enum_ok s1" using assms(1) len by (auto simp: enum_ok_def s1 enum_set_def)
    moreover have "can_reclaim s idx" using len dead by (simp add: can_reclaim_def ENUM_SET_SIZE_def)
    moreover have "new_account who balance s = Some (GoodHint, s1)"
      using True r1 mi by (simp add: new_account_def)
    ultimately show ?thesis
      using lookup_index_overwrite [OF len s1] True by (intro exI [of _ GoodHint] exI [of _ s1] exI [of _ idx]) simp
  next
    case False
    define k where "k = sta_next_enum_set s"
    have len: "length (enum_set s k) < 64" using assms(1) by (simp add: enum_ok_def k_def ENUM_SET_SIZE_def)
    then have free: "free_set_from (enum_set s) k = Some k"
      by (intro free_set_from_next) (simp add: ENUM_SET_SIZE_def)
    define s2 where "s2 = (if length (enum_set s k @ [who]) = ENUM_SET_SIZE
      then s\<lparr>sta_next_enum_set := u64 (k + 1)\<rparr> else s)"
    define s3 where "s3 = s2\<lparr>sta_enum_set := (sta_enum_set s2)(k \<mapsto> enum_set s k @ [who])\<rparr>"
    have na: "new_account who balance s = Some (r1, s3)"
      using False r1 mi free
      by (cases r1) (simp_all add: new_account_def k_def [symmetric] s2_def s3_def)
    have "u64 (k + 1) = k + 1" using assms(2) by (simp add: k_def)
    then have "enum_ok s3"
      using assms(1) len
      by (auto simp: enum_ok_def s3_def s2_def enum_set_def ENUM_SET_SIZE_def k_def less_Suc_eq)
    moreover have "sta_enum_set s3 = (sta_enum_set s)(k \<mapsto> enum_set s k @ [who])"
      by (simp add: s3_def s2_def)
    note lookup_index_append [OF len this]
    moreover have "lookup_index s (64 * k + length (enum_set s k)) = None"
      using len by (simp add: lookup_index_def Let_def ENUM_SET_SIZE_def)
    ultimately show ?thesis
      using na False by (intro exI [of _ r1] exI [of _ s3] exI [of _ "64 * k + length (enum_set s k)"]) simp
  qed
qed

theorem new_account_index_witness:
  "enum_ok sample_state \<and>
   (\<exists>outcome s' idx. new_account 9 500 sample_state = Some (outcome, s') \<and> enum_ok s' \<and>
      lookup_index s' idx = Some 9 \<and>
      (\<forall>j. j \<noteq> idx \<longrightarrow> lookup_index s' j = lookup_index sample_state j) \<and>
      (if outcome = GoodHint then can_reclaim sample_state idx else lookup_index sample_state idx = None))"
proof -
  have ok: "enum_ok sample_state"
    by (simp add: enum_ok_def sample_defs enum_set_def genesis_enum_set_def ENUM_SET_SIZE_def)
  have "sta_next_enum_set sample_state < 2 ^ 40" by (simp add: sample_defs ENUM_SET_SIZE_def)
  then show ?thesis using ok new_account_index [of sample_state 9 500] by blast
qed

section \<open>Committing an overlay\<close>

definition changes_ok :: "'a changes \<Rightarrow> bool" where
  "changes_ok local \<longleftrightarrow> keys_distinct local \<and> (\<forall>(a, e) \<in> set local. keys_distinct (ce_storage e))"

text \<open>What the storage holds of one account.\<close>

definition account_view :: "('a, 'k, 'z) sta \<Rightarrow> 'a \<Rightarrow> nat option \<times> byte list option \<times> (byte list \<rightharpoonup> byte list)" where
  "account_view s a = (sta_free_balance s a, sta_code_of s a, sta_storage_of s a)"

definition same_params :: "('a, 'k, 'z) sta \<Rightarrow> ('a, 'k, 'z) sta \<Rightarrow> bool" where
  "same_params s s' \<longleftrightarrow> sta_existential_deposit s' = sta_existential_deposit s \<and>
    sta_reclaim_rebate s' = sta_reclaim_rebate s"

definition reaped :: "nat \<Rightarrow> change_entry \<Rightarrow> bool" where
  "reaped ed e \<longleftrightarrow> (case ce_balance e of Some b \<Rightarrow> b < ed | None \<Rightarrow> False)"

text \<open>What an entry does to its account.\<close>

definition entry_effect :: "('a, 'k, 'z) sta \<Rightarrow> change_entry \<Rightarrow> 'a \<Rightarrow> ('a, 'k, 'z) sta \<Rightarrow> bool" where
  "entry_effect s e a s' \<longleftrightarrow>
    (if reaped (sta_existential_deposit s) e then account_view s' a = (None, None, \<lambda>_. None)
     else sta_code_of s' a = (case ce_code e of Some c \<Rightarrow> Some c | None \<Rightarrow> sta_code_of s a) \<and>
       sta_storage_of s' a = (\<lambda>k. case map_of (ce_storage e) k of Some v \<Rightarrow> v | None \<Rightarrow> sta_storage_of s a k) \<and>
       (case ce_balance e of
          None \<Rightarrow> sta_free_balance s' a = sta_free_balance s a
        | Some b \<Rightarrow> sta_free_balance s' a = Some b \<or>
            sta_free_balance s a = None \<and> sta_free_balance s' a = Some (u128 (b + sta_reclaim_rebate s))))"

lemma new_account_frame:
  assumes "new_account who b s = Some (r, s')"
  shows "account_view s' a = account_view s a" "same_params s s'"
    "sta_reserved_balance s' = sta_reserved_balance s" "sta_bondage s' = sta_bondage s"
proof -
  obtain i where i: "maybe_try_index (sta_next_enum_set s) b = Some i"
    using assms by (auto simp: new_account_def bind_eq_Some_conv)
  obtain r1 s1 where r1: "try_reclaim who i s = (r1, s1)" by fastforce
  have "(account_view s' a = account_view s a \<and> same_params s s') \<and>
    sta_reserved_balance s' = sta_reserved_balance s \<and> sta_bondage s' = sta_bondage s"
  proof (cases "r1 = GoodHint")
    case True
    then show ?thesis using assms i r1
      by (auto simp: new_account_def try_reclaim_def Let_def account_view_def same_params_def split: if_splits)
  next
    case False
    then show ?thesis using assms i r1
      by (cases r1) (auto simp: new_account_def Let_def account_view_def same_params_def bind_eq_Some_conv)
  qed
  then show "account_view s' a = account_view s a" "same_params s s'"
    "sta_reserved_balance s' = sta_reserved_balance s" "sta_bondage s' = sta_bondage s" by simp_all
qed

lemma merge_storage_fold:
  assumes "keys_distinct kvs"
  shows "sta_storage_of (fold (merge_storage a) kvs s) b =
      (if b = a then (\<lambda>k. case map_of kvs k of Some v \<Rightarrow> v | None \<Rightarrow> sta_storage_of s a k) else sta_storage_of s b)"
    and "sta_code_of (fold (merge_storage a) kvs s) = sta_code_of s"
    and "sta_free_balance (fold (merge_storage a) kvs s) = sta_free_balance s"
    and "same_params s (fold (merge_storage a) kvs s)"
proof -
  have "sta_code_of (fold (merge_storage a) kvs s) = sta_code_of s \<and>
    sta_free_balance (fold (merge_storage a) kvs s) = sta_free_balance s \<and>
    same_params s (fold (merge_storage a) kvs s)"
    by (induction kvs arbitrary: s) (simp_all add: merge_storage_def same_params_def)
  then show "sta_code_of (fold (merge_storage a) kvs s) = sta_code_of s"
    "sta_free_balance (fold (merge_storage a) kvs s) = sta_free_balance s"
    "same_params s (fold (merge_storage a) kvs s)" by simp_all
  show "sta_storage_of (fold (merge_storage a) kvs s) b =
      (if b = a then (\<lambda>k. case map_of kvs k of Some v \<Rightarrow> v | None \<Rightarrow> sta_storage_of s a k) else sta_storage_of s b)"
    using assms
  proof (induction kvs arbitrary: s)
    case (Cons kv kvs)
    obtain k v where kv: "kv = (k, v)" by fastforce
    then have "map_of kvs k = None" "keys_distinct kvs"
      using Cons.prems by (simp_all add: keys_distinct_def map_of_eq_None_iff)
    then show ?case using Cons.IH [of "merge_storage a kv s"] kv
      by (auto simp: merge_storage_def fun_eq_iff split: option.split)
  qed (simp add: fun_eq_iff)
qed

lemma merge_rest_view:
  assumes "keys_distinct (ce_storage e)"
  shows "account_view (merge_rest a e s) b = (if b = a then
      (sta_free_balance s a,
       (case ce_code e of Some c \<Rightarrow> Some c | None \<Rightarrow> sta_code_of s a),
       (\<lambda>k. case map_of (ce_storage e) k of Some v \<Rightarrow> v | None \<Rightarrow> sta_storage_of s a k))
     else account_view s b)"
    and "same_params s (merge_rest a e s)"
  by (simp_all add: merge_rest_def account_view_def same_params_def merge_storage_fold(1-3) [OF assms]
      merge_storage_fold(4) [OF assms, unfolded same_params_def] split: option.split cong: option.case_cong)

lemma merge_rest_credit:
  assumes "keys_distinct (ce_storage e)" and v: "\<And>b. account_view s1 b = account_view s b" and "same_params s s1"
    and s': "s' = merge_rest a e (s1\<lparr>sta_free_balance := (sta_free_balance s1)(a \<mapsto> c)\<rparr>)"
  shows "account_view s' b = (if b = a then
      (Some c, (case ce_code e of Some c \<Rightarrow> Some c | None \<Rightarrow> sta_code_of s a),
       (\<lambda>k. case map_of (ce_storage e) k of Some v \<Rightarrow> v | None \<Rightarrow> sta_storage_of s a k))
     else account_view s b)"
    and "same_params s s'"
proof -
  have cs: "sta_code_of s1 = sta_code_of s" "sta_storage_of s1 = sta_storage_of s" "sta_free_balance s1 = sta_free_balance s"
    using v by (auto simp: account_view_def)
  show "account_view s' b = (if b = a then
      (Some c, (case ce_code e of Some c \<Rightarrow> Some c | None \<Rightarrow> sta_code_of s a),
       (\<lambda>k. case map_of (ce_storage e) k of Some v \<Rightarrow> v | None \<Rightarrow> sta_storage_of s a k))
     else account_view s b)"
    unfolding s' merge_rest_view(1) [OF assms(1)] by (simp add: account_view_def cs cong: option.case_cong)
  show "same_params s s'"
    using assms(3) merge_rest_view(2) [OF assms(1), of "s1\<lparr>sta_free_balance := (sta_free_balance s1)(a \<mapsto> c)\<rparr>" a]
    by (simp add: s' same_params_def)
qed

lemma merge_entry_effect:
  assumes "merge_entry (a, e) s = Some s'" "keys_distinct (ce_storage e)"
  shows "entry_effect s e a s' \<and> (\<forall>b. b \<noteq> a \<longrightarrow> account_view s' b = account_view s b) \<and> same_params s s'"
proof -
  note rest = merge_rest_view [OF assms(2)]
  consider (none) "ce_balance e = None" "s' = merge_rest a e s"
    | (reap) b where "ce_balance e = Some b" "b < sta_existential_deposit s" "s' = on_free_too_low a s"
    | (new) b r s1 c where "ce_balance e = Some b" "\<not> b < sta_existential_deposit s" "sta_free_balance s a = None"
        "new_account a b s = Some (r, s1)" "c = b \<or> c = u128 (b + sta_reclaim_rebate s1)"
        "s' = merge_rest a e (s1\<lparr>sta_free_balance := (sta_free_balance s1)(a \<mapsto> c)\<rparr>)"
    | (old) b where "ce_balance e = Some b" "\<not> b < sta_existential_deposit s"
        "s' = merge_rest a e (s\<lparr>sta_free_balance := (sta_free_balance s)(a \<mapsto> b)\<rparr>)"
    using assms(1) by (auto simp: merge_entry_def Let_def bind_eq_Some_conv split: option.splits if_splits)
  then show ?thesis
  proof cases
    case none
    then show ?thesis using rest(1) [of a s a, unfolded account_view_def] rest(2) [of s a]
      by (simp add: entry_effect_def reaped_def rest(1) [of a s])
  next
    case reap
    then show ?thesis
      by (simp add: entry_effect_def reaped_def account_view_def on_free_too_low_def Let_def same_params_def)
  next
    case new
    note fr = new_account_frame [OF new(4)]
    note cr = merge_rest_credit [OF assms(2) fr(1,2) new(6)]
    show ?thesis
      using new(1-5) fr(2) cr(1) [of a, unfolded account_view_def] cr(2)
      by (auto simp: entry_effect_def reaped_def cr(1) same_params_def)
  next
    case old
    have "same_params s s" by (simp add: same_params_def)
    note cr = merge_rest_credit [OF assms(2) refl this old(3)]
    show ?thesis
      using old(1,2) cr(1) [of a, unfolded account_view_def] cr(2)
      by (auto simp: entry_effect_def reaped_def cr(1) same_params_def)
  qed
qed

lemma entry_effect_cong:
  "account_view s a = account_view t a \<Longrightarrow> account_view s' a = account_view t' a \<Longrightarrow> same_params s t \<Longrightarrow>
   entry_effect s e a s' = entry_effect t e a t'"
  by (simp add: entry_effect_def account_view_def same_params_def cong: option.case_cong)

lemma merge_entries_effect:
  assumes "merge_entries es s = Some s'" "changes_ok es"
  shows "(\<forall>a. case map_of es a of None \<Rightarrow> account_view s' a = account_view s a
    | Some e \<Rightarrow> entry_effect s e a s') \<and> same_params s s'"
  using assms
proof (induction es arbitrary: s)
  case (Cons ae es)
  obtain a e where ae: "ae = (a, e)" by fastforce
  obtain s1 where s1: "merge_entry (a, e) s = Some s1" "merge_entries es s1 = Some s'"
    using Cons.prems(1) by (auto simp: ae bind_eq_Some_conv)
  have ok: "changes_ok es" "keys_distinct (ce_storage e)" and fresh: "map_of es a = None"
    using Cons.prems(2) by (auto simp: changes_ok_def ae keys_distinct_def map_of_eq_None_iff)
  note head = merge_entry_effect [OF s1(1) ok(2)]
  note tail = Cons.IH [OF s1(2) ok(1)]
  show ?case
  proof (intro conjI allI)
    show "same_params s s'" using head tail by (simp add: same_params_def)
    fix b
    show "case map_of (ae # es) b of None \<Rightarrow> account_view s' b = account_view s b | Some e \<Rightarrow> entry_effect s e b s'"
    proof (cases "b = a")
      case True
      then have "account_view s' a = account_view s1 a" using spec [OF conjunct1 [OF tail], of a] fresh by simp
      then show ?thesis
        using True head entry_effect_cong [of s a s s1 s' e] by (simp add: ae same_params_def)
    next
      case False
      then have "account_view s1 b = account_view s b" using head by blast
      then show ?thesis
        using False spec [OF conjunct1 [OF tail], of b] head entry_effect_cong [of s1 b s s' s']
        by (auto simp: ae same_params_def split: option.splits)
    qed
  qed
qed (simp add: same_params_def)

lemma changes_ok_sort: "changes_ok es \<Longrightarrow> changes_ok (sort_key fst es) \<and> map_of (sort_key fst es) = map_of es"
proof -
  assume ok: "changes_ok es"
  have "mset (map fst (sort_key fst es)) = mset (map fst es)" by simp
  then have d: "distinct (map fst (sort_key fst es))"
    using ok mset_eq_imp_distinct_iff unfolding changes_ok_def keys_distinct_def by blast
  have "map_of (sort_key fst es) a = map_of es a" for a
  proof -
    have "map_of (sort_key fst es) a = Some e \<longleftrightarrow> map_of es a = Some e" for e
      using d ok by (simp add: changes_ok_def keys_distinct_def)
    then show ?thesis by (metis not_Some_eq)
  qed
  then show ?thesis using d ok by (auto simp: changes_ok_def keys_distinct_def)
qed

text \<open>
  C25.  Committing the changes of an overlay makes the storage read what the overlay showed: the
  code and every storage entry exactly, and the balance too, except that an account created with
  a balance naming a dead index may in addition be credited the reclaim rebate.  An account whose
  balance the changes leave below the existential deposit is gone altogether.
\<close>

theorem overlay_commit:
  assumes "changes_ok local" "direct_merge local s = Some s'"
  shows "\<forall>a. if map_option (reaped (sta_existential_deposit s)) (map_of local a) = Some True
    then account_view s' a = (None, None, \<lambda>_. None)
    else db_get_code s' DirectAccountDb a = db_get_code s (OverlayAccountDb local DirectAccountDb) a \<and>
      db_get_storage s' DirectAccountDb a = db_get_storage s (OverlayAccountDb local DirectAccountDb) a \<and>
      (db_get_balance s' DirectAccountDb a = db_get_balance s (OverlayAccountDb local DirectAccountDb) a \<or>
       sta_free_balance s a = None \<and>
       db_get_balance s' DirectAccountDb a =
         u128 (db_get_balance s (OverlayAccountDb local DirectAccountDb) a + sta_reclaim_rebate s))"
proof
  fix a
  have "case map_of local a of None \<Rightarrow> account_view s' a = account_view s a | Some e \<Rightarrow> entry_effect s e a s'"
    using merge_entries_effect [of "sort_key fst local" s s'] changes_ok_sort [OF assms(1)] assms(2)
    by (simp add: direct_merge_def)
  then show "if map_option (reaped (sta_existential_deposit s)) (map_of local a) = Some True
    then account_view s' a = (None, None, \<lambda>_. None)
    else db_get_code s' DirectAccountDb a = db_get_code s (OverlayAccountDb local DirectAccountDb) a \<and>
      db_get_storage s' DirectAccountDb a = db_get_storage s (OverlayAccountDb local DirectAccountDb) a \<and>
      (db_get_balance s' DirectAccountDb a = db_get_balance s (OverlayAccountDb local DirectAccountDb) a \<or>
       sta_free_balance s a = None \<and>
       db_get_balance s' DirectAccountDb a =
         u128 (db_get_balance s (OverlayAccountDb local DirectAccountDb) a + sta_reclaim_rebate s))"
    by (auto simp: entry_effect_def account_view_def free_balance_def fun_eq_iff
        split: option.splits if_splits)
qed

text \<open>An overlay that empties account one into the new account nine, which has code.\<close>

theorem overlay_commit_witness:
  "\<exists>s'. changes_ok [(9 :: nat, contract_created 100 [1]), (1, balance_changed 11)] \<and>
   direct_merge [(9, contract_created 100 [1]), (1, balance_changed 11)] sample_state = Some s' \<and>
   db_get_code s' DirectAccountDb 9 = [1] \<and> db_get_balance s' DirectAccountDb 1 = 11"
proof -
  let ?l = "[(9 :: nat, contract_created 100 [1]), (1, balance_changed 11)]"
  have ok: "changes_ok ?l" by (simp add: changes_ok_def keys_distinct_def contract_created_def balance_changed_def)
  have "\<exists>s'. direct_merge ?l sample_state = Some s'"
  proof -
    have st: "sort_key fst ?l = [(1, balance_changed 11), (9, contract_created 100 [1])]"
      by (simp add: balance_changed_def contract_created_def)
    define s1 where "s1 = sample_state\<lparr>sta_free_balance := (sta_free_balance sample_state)(1 \<mapsto> 11)\<rparr>"
    have m1: "merge_entry (1, balance_changed 11) sample_state = Some s1"
      by (simp add: merge_entry_def balance_changed_def s1_def merge_rest_def sample_defs genesis_balances_def)
    have ok1: "enum_ok s1" "sta_next_enum_set s1 < 2 ^ 40"
      by (simp_all add: enum_ok_def s1_def sample_defs enum_set_def genesis_enum_set_def ENUM_SET_SIZE_def)
    obtain r s2 where "new_account 9 100 s1 = Some (r, s2)"
      using new_account_total [OF ok1] by blast
    moreover have "\<not> 100 < sta_existential_deposit s1" "sta_free_balance s1 9 = None"
      by (simp_all add: s1_def sample_defs genesis_balances_def)
    ultimately have "\<exists>s3. merge_entry (9, contract_created 100 [1]) s1 = Some s3"
      by (simp add: merge_entry_def contract_created_def Let_def)
    then show ?thesis using m1 by (auto simp: direct_merge_def st)
  qed
  then obtain s' where s': "direct_merge ?l sample_state = Some s'" by blast
  show ?thesis
    using ok s' spec [OF overlay_commit [OF ok s'], of 9] spec [OF overlay_commit [OF ok s'], of 1]
    by (auto simp: reaped_def contract_created_def balance_changed_def sample_defs genesis_balances_def)
qed

section \<open>The token supply under transfers and contracts\<close>

definition issuance :: "('a::finite, 'k, 'z) sta \<Rightarrow> 'a account_db \<Rightarrow> nat" where
  "issuance s db = (\<Sum>a\<in>UNIV. db_get_balance s db a)"

text \<open>
  What the code of an account \<open>acc\<close> can make of the local changes of its overlay over \<open>db\<close>: any
  sequence of storage writes, creations and transfers through \<^verbatim>\<open>StakingExt\<close>, where a transfer to a
  contract runs that contract in turn on an overlay over the current one.  Amounts are restricted
  to those whose sum with the fee stays in range.
\<close>

inductive contract_run :: "(byte list \<Rightarrow> 'a \<Rightarrow> 'a::linorder) \<Rightarrow> ('a, 'k, 'z) sta \<Rightarrow> 'a account_db \<Rightarrow> 'a \<Rightarrow>
    'a changes \<Rightarrow> 'a changes \<Rightarrow> bool"
  for address_for :: "byte list \<Rightarrow> 'a \<Rightarrow> 'a::linorder" and s :: "('a, 'k, 'z) sta" where
  run_done: "contract_run address_for s db acc l l"
| run_seq: "contract_run address_for s db acc l l' \<Longrightarrow>
    contract_run address_for s db acc l' l'' \<Longrightarrow> contract_run address_for s db acc l l''"
| run_storage: "contract_run address_for s db acc l (ext_set_storage acc k v l)"
| run_create: "amount + sta_contract_fee s < 2 ^ 128 \<Longrightarrow>
    ext_create address_for acc code amount s db l = Some l' \<Longrightarrow>
    contract_run address_for s db acc l l'"
| run_transfer: "amount + max (sta_creation_fee s) (sta_transfer_fee s) < 2 ^ 128 \<Longrightarrow>
    ext_transfer execute acc to amount s db l = Some l' \<Longrightarrow>
    (\<And>code gas m. contract_run address_for s (OverlayAccountDb l db) to m
      (snd (execute code to gas s (OverlayAccountDb l db) m))) \<Longrightarrow>
    contract_run address_for s db acc l l'"

lemma db_balance_set:
  "db_get_balance s (OverlayAccountDb (overlay_set_balance a b l) db) x =
    (if x = a then b else db_get_balance s (OverlayAccountDb l db) x)"
  by (simp add: overlay_set_balance_def map_of_update)

lemma db_balance_storage:
  "db_get_balance s (OverlayAccountDb (overlay_set_storage a k v l) db) x = db_get_balance s (OverlayAccountDb l db) x"
  by (cases "map_of l a")
    (auto simp: overlay_set_storage_def Let_def map_of_update entry_of_def default_entry_def)

lemma db_balance_empty: "db_get_balance s (OverlayAccountDb [] db) x = db_get_balance s db x"
  by simp

lemma overlay_merge_entry_lookup:
  "Option.bind (map_of (overlay_merge_entry (a, e) l) x) ce_balance =
    (if x = a \<and> ce_balance e \<noteq> None then ce_balance e else Option.bind (map_of l x) ce_balance)"
  by (auto simp: overlay_merge_entry_def map_of_update split: option.split)

lemma overlay_merge_fold_lookup:
  "keys_distinct es \<Longrightarrow> Option.bind (map_of (fold overlay_merge_entry es l) x) ce_balance =
    (case Option.bind (map_of es x) ce_balance of Some b \<Rightarrow> Some b | None \<Rightarrow> Option.bind (map_of l x) ce_balance)"
proof (induction es arbitrary: l)
  case (Cons ae es)
  obtain a e where ae: "ae = (a, e)" by fastforce
  have "keys_distinct es" "map_of es a = None"
    using Cons.prems by (simp_all add: ae keys_distinct_def map_of_eq_None_iff)
  then show ?case
    using Cons.IH [of "overlay_merge_entry ae l"]
    by (auto simp: ae overlay_merge_entry_lookup split: option.split)
qed simp

lemma keys_distinct_sort: "keys_distinct es \<Longrightarrow> keys_distinct (sort_key fst es)"
proof -
  assume "keys_distinct es"
  moreover have "mset (map fst (sort_key fst es)) = mset (map fst es)" by simp
  ultimately show ?thesis using mset_eq_imp_distinct_iff unfolding keys_distinct_def by blast
qed

lemma map_of_sort: "keys_distinct es \<Longrightarrow> map_of (sort_key fst es) x = map_of es x"
proof -
  assume k: "keys_distinct es"
  then have "map_of (sort_key fst es) x = Some e \<longleftrightarrow> map_of es x = Some e" for e
    by (simp add: map_of_Some_iff keys_distinct_sort)
  then show ?thesis by (metis not_Some_eq)
qed

text \<open>Merging changes into an overlay is the same, to a reader, as stacking them on top of it.\<close>

lemma overlay_merge_stack:
  assumes "keys_distinct ch"
  shows "db_get_balance s (OverlayAccountDb (overlay_merge ch l) db) x =
    db_get_balance s (OverlayAccountDb ch (OverlayAccountDb l db)) x"
  using overlay_merge_fold_lookup [OF keys_distinct_sort [OF assms], of l x] map_of_sort [OF assms, of x]
  by (simp add: overlay_merge_def split: option.splits)

lemma keys_distinct_overlay_merge: "keys_distinct l \<Longrightarrow> keys_distinct (overlay_merge ch l)"
proof -
  have "keys_distinct l \<Longrightarrow> keys_distinct (fold overlay_merge_entry es l)" for es
    by (induction es arbitrary: l) (auto simp: overlay_merge_entry_def split: option.split)
  then show "keys_distinct l \<Longrightarrow> keys_distinct (overlay_merge ch l)" by (simp add: overlay_merge_def)
qed

text \<open>Changing the balances of two accounts.\<close>

lemma sum_change_two:
  fixes f g :: "'a::finite \<Rightarrow> nat"
  assumes "a \<noteq> b" "\<And>x. x \<noteq> a \<Longrightarrow> x \<noteq> b \<Longrightarrow> g x = f x"
  shows "(\<Sum>x\<in>UNIV. g x) + (f a + f b) = (\<Sum>x\<in>UNIV. f x) + (g a + g b)"
proof -
  have split: "(\<Sum>x\<in>UNIV. h x) = h a + (h b + (\<Sum>x\<in>UNIV - {a} - {b}. h x))" for h :: "'a \<Rightarrow> nat"
    using assms(1) by (simp add: sum.remove [of UNIV a] sum.remove [of "UNIV - {a}" b])
  have "(\<Sum>x\<in>UNIV - {a} - {b}. g x) = (\<Sum>x\<in>UNIV - {a} - {b}. f x)"
    using assms(2) by (intro sum.cong) auto
  then show ?thesis using split [of f] split [of g] by simp
qed

lemma balance_le_supply: "db_get_balance s db (a::'a::finite) \<le> issuance s db"
  unfolding issuance_def by (rule member_le_sum) auto

lemma supply_cong: "(\<And>x. db_get_balance s d1 x = db_get_balance s d2 x) \<Longrightarrow> issuance s d1 = issuance s d2"
  by (simp add: issuance_def)

text \<open>What running a contract must guarantee for the transfer that started it.\<close>

definition supply_safe :: "('a::finite, 'k, 'z) sta \<Rightarrow> 'a account_db \<Rightarrow> 'a changes \<Rightarrow> 'a changes \<Rightarrow> bool" where
  "supply_safe s db l l' \<longleftrightarrow> (keys_distinct l \<longrightarrow> issuance s (OverlayAccountDb l db) < 2 ^ 128 \<longrightarrow>
    keys_distinct l' \<and> issuance s (OverlayAccountDb l' db) \<le> issuance s (OverlayAccountDb l db))"

lemma effect_create_supply:
  fixes s :: "('a::{finite, linorder}, 'k, 'z) sta"
  assumes "effect_create caf t code amount s db = Some (Inr (Some ch))"
    and "amount + sta_contract_fee s < 2 ^ 128"
  shows "keys_distinct ch \<and> issuance s (OverlayAccountDb ch db) + sta_contract_fee s \<le> issuance s db"
proof -
  define d where "d = caf code t"
  have ge: "amount + sta_contract_fee s \<le> db_get_balance s db t" and ne: "d \<noteq> t"
    and ch: "ch = AList.update t (balance_changed (db_get_balance s db t - (amount + sta_contract_fee s)))
      [(d, contract_created amount code)]"
    using assms by (auto simp: effect_create_def Let_def d_def bind_eq_Some_conv split: if_splits)
  let ?g = "db_get_balance s (OverlayAccountDb ch db)"
  have g: "?g x = (if x = t then db_get_balance s db t - (amount + sta_contract_fee s) else if x = d then amount
      else db_get_balance s db x)" for x
    using ne by (simp add: ch balance_changed_def contract_created_def)
  have "issuance s (OverlayAccountDb ch db) + (db_get_balance s db t + db_get_balance s db d) =
      issuance s db + (?g t + ?g d)"
    unfolding issuance_def using ne g by (intro sum_change_two) auto
  then show ?thesis using ge ne g [of t] g [of d] by (simp add: ch keys_distinct_def)
qed

lemma effect_transfer_supply:
  fixes s :: "('a::{finite, linorder}, 'k, 'z) sta"
  assumes eff: "effect_transfer execute t d amount s db = Some (Inr (Some ch))"
    and range: "amount + max (sta_creation_fee s) (sta_transfer_fee s) < 2 ^ 128"
    and safe: "\<And>code gas m. supply_safe s db m (snd (execute code d gas s db m))"
    and sup: "issuance s db < 2 ^ 128"
  shows "keys_distinct ch \<and> issuance s (OverlayAccountDb ch db) +
    (if t = d then 0 else if db_get_balance s db t = 0 then sta_creation_fee s else sta_transfer_fee s)
    \<le> issuance s db"
proof -
  define fee where "fee = (if db_get_balance s db t = 0 then sta_creation_fee s else sta_transfer_fee s)"
  define l where "l = (if t \<noteq> d
    then overlay_set_balance d (u128 (db_get_balance s db d + amount))
      (overlay_set_balance t (db_get_balance s db t - u128 (amount + fee)) []) else [])"
  have liability: "u128 (amount + fee) = amount + fee" using range by (simp add: fee_def)
  have ge: "amount + fee \<le> db_get_balance s db t"
    and grow: "db_get_balance s db d < u128 (db_get_balance s db d + amount)"
    and ch: "ch = l \<or> (\<exists>code b. execute code d 100000 s db l = (b, ch))"
    using eff liability unfolding effect_transfer_def Let_def fee_def [symmetric] l_def [symmetric]
    by (auto simp: bind_eq_Some_conv split: if_splits prod.splits)
  have small: "amount < 2 ^ 128" "db_get_balance s db d < 2 ^ 128"
    using range balance_le_supply [of s db d] sup by simp_all
  then have to: "u128 (db_get_balance s db d + amount) = db_get_balance s db d + amount"
    using grow by (auto simp: mod_if split: if_splits)
  have kd: "keys_distinct l" by (simp add: l_def overlay_set_balance_def keys_distinct_def)
  have sup_l: "issuance s (OverlayAccountDb l db) + (if t = d then 0 else fee) \<le> issuance s db"
  proof (cases "t = d")
    case True
    then show ?thesis by (simp add: l_def issuance_def)
  next
    case False
    let ?g = "db_get_balance s (OverlayAccountDb l db)"
    have g: "?g x = (if x = d then db_get_balance s db d + amount
        else if x = t then db_get_balance s db t - (amount + fee) else db_get_balance s db x)" for x
      using False to liability by (simp add: l_def overlay_set_balance_def)
    have "issuance s (OverlayAccountDb l db) + (db_get_balance s db t + db_get_balance s db d) =
        issuance s db + (?g t + ?g d)"
      unfolding issuance_def using False g by (intro sum_change_two) auto
    then show ?thesis using ge False g [of t] g [of d] by simp
  qed
  have "keys_distinct ch \<and> issuance s (OverlayAccountDb ch db) \<le> issuance s (OverlayAccountDb l db)"
  proof (cases "ch = l")
    case False
    then obtain code b where "execute code d 100000 s db l = (b, ch)" using ch by blast
    then have "supply_safe s db l ch" using safe [of l code 100000] by simp
    then show ?thesis using kd sup_l sup unfolding supply_safe_def by linarith
  qed (use kd in simp)
  then show ?thesis using sup_l unfolding fee_def by linarith
qed

lemma ext_commit_supply:
  fixes s :: "('a::{finite, linorder}, 'k, 'z) sta"
  assumes "ext_commit r l = Some l'" "keys_distinct l"
    and "\<And>ch. r = Some (Inr (Some ch)) \<Longrightarrow>
      keys_distinct ch \<and> issuance s (OverlayAccountDb ch (OverlayAccountDb l db)) \<le> issuance s (OverlayAccountDb l db)"
  shows "keys_distinct l' \<and> issuance s (OverlayAccountDb l' db) \<le> issuance s (OverlayAccountDb l db)"
proof (cases "\<exists>ch. r = Some (Inr (Some ch))")
  case True
  then obtain ch where ch: "r = Some (Inr (Some ch))" by blast
  then have l': "l' = overlay_merge ch l" using assms(1) by (simp add: ext_commit_def)
  have "issuance s (OverlayAccountDb l' db) = issuance s (OverlayAccountDb ch (OverlayAccountDb l db))"
    unfolding l' by (rule supply_cong) (rule overlay_merge_stack, use assms(3) [OF ch] in blast)
  then show ?thesis using assms(2,3) ch l' keys_distinct_overlay_merge by metis
next
  case False
  then have "l' = l" using assms(1) by (auto simp: ext_commit_def split: option.splits sum.splits)
  then show ?thesis using assms(2) by simp
qed

lemma contract_run_supply:
  fixes s :: "('a::{finite, linorder}, 'k, 'z) sta"
  assumes "contract_run caf s db acc l l'"
  shows "supply_safe s db l l'"
  using assms
proof (induction rule: contract_run.induct)
  case (run_done db acc l)
  show ?case by (simp add: supply_safe_def)
next
  case (run_seq db acc l l' l'')
  then show ?case unfolding supply_safe_def by (meson le_less_trans order_trans)
next
  case (run_storage db acc l k v)
  have "issuance s (OverlayAccountDb (ext_set_storage acc k v l) db) = issuance s (OverlayAccountDb l db)"
    unfolding ext_set_storage_def by (rule supply_cong) (rule db_balance_storage)
  then show ?case by (simp add: supply_safe_def ext_set_storage_def overlay_set_storage_def Let_def)
next
  case (run_create amount acc code db l l')
  show ?case
    unfolding supply_safe_def
  proof (intro impI)
    assume kd: "keys_distinct l"
    show "keys_distinct l' \<and> issuance s (OverlayAccountDb l' db) \<le> issuance s (OverlayAccountDb l db)"
      using run_create(2) kd unfolding ext_create_def
    proof (rule ext_commit_supply)
      fix ch assume "effect_create caf acc code amount s (OverlayAccountDb l db) = Some (Inr (Some ch))"
      then show "keys_distinct ch \<and>
          issuance s (OverlayAccountDb ch (OverlayAccountDb l db)) \<le> issuance s (OverlayAccountDb l db)"
        using effect_create_supply [OF _ run_create(1)] by fastforce
    qed
  qed
next
  case (run_transfer amount execute acc to db l l')
  show ?case
    unfolding supply_safe_def
  proof (intro impI)
    assume kd: "keys_distinct l" and sup: "issuance s (OverlayAccountDb l db) < 2 ^ 128"
    show "keys_distinct l' \<and> issuance s (OverlayAccountDb l' db) \<le> issuance s (OverlayAccountDb l db)"
      using run_transfer(2) kd unfolding ext_transfer_def
    proof (rule ext_commit_supply)
      fix ch assume "effect_transfer execute acc to amount s (OverlayAccountDb l db) = Some (Inr (Some ch))"
      from effect_transfer_supply [OF this run_transfer(1) _ sup] run_transfer(4)
      show "keys_distinct ch \<and>
          issuance s (OverlayAccountDb ch (OverlayAccountDb l db)) \<le> issuance s (OverlayAccountDb l db)"
        by fastforce
    qed
  qed
qed


text \<open>Two accounts, one of them a contract that writes to its storage when it is paid.\<close>

definition contract_state :: "(bool, nat) Staking" where
  "contract_state = (build_storage [] [] 5 10 [] 30
    (default_config\<lparr>gc_balances := [(False, 100), (True, 7)], gc_transfer_fee := 2\<rparr>))
    \<lparr>sta_code_of := [True \<mapsto> [1]]\<rparr>"

definition storing_executor :: "('a, 'k, 'z) contract_executor" where
  "storing_executor code acc gas s db l = (True, ext_set_storage acc [1] (Some code) l)"

lemmas contract_defs = contract_state_def build_storage_def default_config_def genesis_balances_def


section \<open>Balance operations against their specification\<close>

text \<open>
  The contract other modules rely on, on the pair of the free and the reserved balance of one
  account: what is slashed, reserved and given back, with a balance below the existential
  deposit \<open>ed\<close> dropping to zero.
\<close>

datatype balance_op = Slash nat | SlashReserved nat | Reserve nat | Unreserve nat

definition keep :: "nat \<Rightarrow> nat \<Rightarrow> nat" where
  "keep ed b = (if b < ed then 0 else b)"

definition remainder :: "nat \<Rightarrow> nat \<Rightarrow> nat option" where
  "remainder amount available = (if amount \<le> available then None else Some (amount - available))"

fun spec_op :: "nat \<Rightarrow> bool \<Rightarrow> balance_op \<Rightarrow> nat \<times> nat \<Rightarrow> (string + nat option) \<times> (nat \<times> nat)" where
  "spec_op ed liquid (Slash v) (f, r) =
    (Inr (remainder v (f + r)), (keep ed (f - v), if v \<le> f then r else keep ed (r - (v - f))))"
| "spec_op ed liquid (SlashReserved v) (f, r) = (Inr (remainder v r), (f, keep ed (r - v)))"
| "spec_op ed liquid (Reserve v) (f, r) =
    (if f < v then (Inl ''not enough free funds'', (f, r))
     else if \<not> liquid then (Inl ''free funds are still bonded'', (f, r))
     else (Inr None, (keep ed (f - v), keep ed (r + v))))"
| "spec_op ed liquid (Unreserve v) (f, r) =
    (Inr (remainder v r), (keep ed (f + min r v), keep ed (r - v)))"

text \<open>What leaves the account by design; the rest of what it loses is dust.\<close>

fun spec_taken :: "balance_op \<Rightarrow> nat \<times> nat \<Rightarrow> nat" where
  "spec_taken (Slash v) (f, r) = min v (f + r)"
| "spec_taken (SlashReserved v) (f, r) = min v r"
| "spec_taken _ _ = 0"

definition balances :: "('a, 'k, 'z) sta \<Rightarrow> 'a \<Rightarrow> nat \<times> nat" where
  "balances s who = (free_balance s who, reserved_balance s who)"

fun apply_op :: "'a \<Rightarrow> balance_op \<Rightarrow> ('a, 'k, 'z) sta \<Rightarrow> ((string + nat option) \<times> ('a, 'k, 'z) sta) option" where
  "apply_op who (Slash v) s = Some (apfst Inr (slash who v s))"
| "apply_op who (SlashReserved v) s = Some (apfst Inr (slash_reserved who v s))"
| "apply_op who (Reserve v) s = map_option (apfst (map_sum id (\<lambda>_. None))) (reserve who v s)"
| "apply_op who (Unreserve v) s = Some (apfst Inr (unreserve who v s))"

lemma balances_set_free:
  "free_balance (snd (set_free_balance who b s)) a = (if a = who then keep (sta_existential_deposit s) b else free_balance s a)"
  "reserved_balance (snd (set_free_balance who b s)) a = reserved_balance s a"
  "sta_existential_deposit (snd (set_free_balance who b s)) = sta_existential_deposit s"
  by (simp_all add: set_free_balance_def on_free_too_low_def Let_def keep_def free_balance_def reserved_balance_def)

lemma balances_set_reserved:
  "reserved_balance (snd (set_reserved_balance who b s)) a =
    (if a = who then keep (sta_existential_deposit s) b else reserved_balance s a)"
  "free_balance (snd (set_reserved_balance who b s)) a = free_balance s a"
  "sta_existential_deposit (snd (set_reserved_balance who b s)) = sta_existential_deposit s"
  by (simp_all add: set_reserved_balance_def on_reserved_too_low_def Let_def keep_def free_balance_def reserved_balance_def)

lemmas balance_simps = balances_set_free balances_set_reserved

lemma slash_reserved_spec:
  "fst (slash_reserved who v s) = remainder v (reserved_balance s who) \<and>
   reserved_balance (snd (slash_reserved who v s)) a =
     (if a = who then keep (sta_existential_deposit s) (reserved_balance s who - v) else reserved_balance s a) \<and>
   free_balance (snd (slash_reserved who v s)) a = free_balance s a"
  by (simp add: slash_reserved_def Let_def balance_simps remainder_def min_def)

lemma slash_spec:
  "fst (slash who v s) = remainder v (free_balance s who + reserved_balance s who) \<and>
   balances (snd (slash who v s)) a = (if a = who
     then snd (spec_op (sta_existential_deposit s) l (Slash v) (balances s who)) else balances s a)"
  using slash_reserved_spec [of who "v - free_balance s who" "snd (set_free_balance who 0 s)" a]
  by (auto simp: slash_def Let_def balance_simps balances_def remainder_def min_def)

lemma spec_dust:
  assumes "ed > 0"
  shows "case (spec_op ed l op (f, r)) of (_, (f', r')) \<Rightarrow>
    f' + r' + spec_taken op (f, r) \<le> f + r \<and> f + r < f' + r' + spec_taken op (f, r) + 2 * ed"
  using assms by (cases op) (auto simp: keep_def remainder_def min_def)

text \<open>
  C28.  The operations other modules use on an account (\<^verbatim>\<open>slash\<close>, \<^verbatim>\<open>slash_reserved\<close>, \<^verbatim>\<open>reserve\<close>,
  \<^verbatim>\<open>unreserve\<close>) implement their specification on the pair of its balances: result value,
  error and new balances agree, no other account changes, and the account loses exactly what is
  taken from it plus dust of less than two existential deposits.
\<close>

theorem balance_ops_refine:
  assumes "free_balance s who + reserved_balance s who < 2 ^ 128" "unlock_block s who = Some l"
    "sta_existential_deposit s > 0"
  shows "\<exists>r s'. apply_op who op s = Some (r, s') \<and>
    (r, balances s' who) = spec_op (sta_existential_deposit s) (l = Liquid) op (balances s who) \<and>
    (\<forall>a. a \<noteq> who \<longrightarrow> balances s' a = balances s a) \<and>
    fst (balances s' who) + snd (balances s' who) + spec_taken op (balances s who)
      \<le> fst (balances s who) + snd (balances s who) \<and>
    fst (balances s who) + snd (balances s who)
      < fst (balances s' who) + snd (balances s' who) + spec_taken op (balances s who)
        + 2 * sta_existential_deposit s"
proof -
  have "\<exists>r s'. apply_op who op s = Some (r, s') \<and>
    (r, balances s' who) = spec_op (sta_existential_deposit s) (l = Liquid) op (balances s who) \<and>
    (\<forall>a. a \<noteq> who \<longrightarrow> balances s' a = balances s a)"
  proof (cases op)
    case (Slash v)
    have "fst (slash who v s) = remainder v (free_balance s who + reserved_balance s who)"
      "\<And>a. balances (snd (slash who v s)) a = (if a = who
        then snd (spec_op (sta_existential_deposit s) (l = Liquid) (Slash v) (balances s who)) else balances s a)"
      using slash_spec by metis+
    then show ?thesis
      using Slash
      by (intro exI [of _ "Inr (fst (slash who v s))"] exI [of _ "snd (slash who v s)"])
        (simp add: apfst_def map_prod_def case_prod_beta, simp add: balances_def)
  next
    case (SlashReserved v)
    then show ?thesis
      using slash_reserved_spec [of who v s]
      by (intro exI [of _ "Inr (fst (slash_reserved who v s))"] exI [of _ "snd (slash_reserved who v s)"])
        (simp add: apfst_def map_prod_def case_prod_beta balances_def)
  next
    case (Reserve v)
    have "u128 (reserved_balance s who + v) = reserved_balance s who + v" if "\<not> free_balance s who < v"
      using that assms(1) by simp
    then show ?thesis
      using Reserve assms(2) by (auto simp: reserve_def Let_def balances_def balance_simps)
  next
    case (Unreserve v)
    have "u128 (free_balance s who + min (reserved_balance s who) v) = free_balance s who + min (reserved_balance s who) v"
      using assms(1) by (simp add: min_def)
    then show ?thesis
      using Unreserve by (auto simp: unreserve_def Let_def balances_def balance_simps remainder_def min_def)
  qed
  then obtain r s' where *: "apply_op who op s = Some (r, s')"
    "(r, balances s' who) = spec_op (sta_existential_deposit s) (l = Liquid) op (balances s who)"
    "\<forall>a. a \<noteq> who \<longrightarrow> balances s' a = balances s a" by blast
  obtain f t f' t' where b: "balances s who = (f, t)" "balances s' who = (f', t')" by fastforce
  show ?thesis
    using * spec_dust [OF assms(3), where l = "l = Liquid" and op = op and f = f and r = t] unfolding b(1) *(2) [unfolded b, symmetric]
    by (intro exI [of _ r] exI [of _ s']) (simp add: b)
qed

text \<open>A slash of 120 takes all of the free 111 of account one, and nine remain.\<close>

theorem balance_ops_refine_witness:
  "\<exists>r s'. apply_op 1 (Slash 120) (sample_state\<lparr>sta_existential_deposit := 5\<rparr>) = Some (r, s') \<and>
    r = Inr (Some 9) \<and> balances s' 1 = (0, 0)"
proof -
  let ?s = "sample_state\<lparr>sta_existential_deposit := 5\<rparr>"
  have b: "free_balance ?s 1 = 111" "reserved_balance ?s 1 = 0"
    by (simp_all add: sample_defs free_balance_def reserved_balance_def genesis_balances_def)
  moreover have "unlock_block ?s 1 = Some Liquid"
    by (simp add: unlock_block_def bondage_def max_block_number_def sample_defs)
  ultimately show ?thesis
    using balance_ops_refine [of ?s 1 Liquid "Slash 120"]
    by (auto simp: balances_def remainder_def keep_def)
qed



section \<open>Eras\<close>

definition backing :: "('a, 'k, 'z) sta \<Rightarrow> 'a \<Rightarrow> nat" where
  "backing s v = u128 (voting_balance s v + nomination_balance s v)"

lemma ranked_intentions_props:
  "mset (ranked_intentions s) = mset (map (\<lambda>v. (backing s v, v)) (sta_intentions s))"
  "sorted_wrt (\<lambda>x y. fst y \<le> fst x) (ranked_intentions s)"
proof -
  show "mset (ranked_intentions s) = mset (map (\<lambda>v. (backing s v, v)) (sta_intentions s))"
    by (simp add: ranked_intentions_def backing_def)
  have "sorted (map fst (sort_key fst xs))" for xs :: "(nat \<times> 'a) list" by simp
  then show "sorted_wrt (\<lambda>x y. fst y \<le> fst x) (ranked_intentions s)"
    by (simp add: ranked_intentions_def sorted_wrt_rev sorted_map)
qed

lemma ranked_perm:
  assumes "distinct (sta_intentions s)"
  shows "distinct (map snd (ranked_intentions s))" "set (map snd (ranked_intentions s)) = set (sta_intentions s)"
    "length (ranked_intentions s) = length (sta_intentions s)"
    "\<And>x. x \<in> set (ranked_intentions s) \<Longrightarrow> fst x = backing s (snd x)"
proof -
  have m: "mset (map snd (ranked_intentions s)) = mset (sta_intentions s)"
    using arg_cong [OF ranked_intentions_props(1) [of s], of "image_mset snd"]
    by (simp add: image_mset.compositionality comp_def)
  show "distinct (map snd (ranked_intentions s))" using assms mset_eq_imp_distinct_iff [OF m] by simp
  show "set (map snd (ranked_intentions s)) = set (sta_intentions s)" by (rule mset_eq_setD [OF m])
  show "length (ranked_intentions s) = length (sta_intentions s)" using mset_eq_length [OF m] by simp
  show "fst x = backing s (snd x)" if "x \<in> set (ranked_intentions s)" for x
    using that mset_eq_setD [OF ranked_intentions_props(1) [of s]] by auto
qed

text \<open>The first entries of a list ranked downwards are the best.\<close>

lemma ranked_take_best:
  assumes "sorted_wrt (\<lambda>x y. fst y \<le> fst x) r" "\<And>x. x \<in> set r \<Longrightarrow> fst x = f (snd x)" "distinct (map snd r)"
    and "v \<in> set (take n (map snd r))" "w \<in> snd ` set r" "w \<notin> set (take n (map snd r))"
  shows "f w \<le> (f v :: nat)"
proof -
  obtain i where i: "i < n" "i < length r" "v = snd (r ! i)"
    using assms(4) by (auto simp: in_set_conv_nth)
  obtain j where j: "j < length r" "w = snd (r ! j)" using assms(5) by (auto simp: in_set_conv_nth)
  have "\<not> j < n"
  proof
    assume "j < n"
    then have "take n (map snd r) ! j \<in> set (take n (map snd r))" using j(1) by (intro nth_mem) simp
    then show False using assms(6) j \<open>j < n\<close> by simp
  qed
  then have "i < j" using i by simp
  then have "fst (r ! j) \<le> fst (r ! i)" using assms(1) j(1) by (metis sorted_wrt_nth_less)
  then show ?thesis using assms(2) [of "r ! i"] assms(2) [of "r ! j"] i j by simp
qed

lemma fold_nominators:
  "fold (\<lambda>v m. m(v \<mapsto> g v)) vs m x = (if x \<in> set vs then Some (g x) else m x)"
  by (induction vs arbitrary: m) auto

lemma enact_era_length_frame:
  "voting_balance (enact_era_length s) = voting_balance s"
  "nominators_for (enact_era_length s) = nominators_for s"
  "sta_intentions (enact_era_length s) = sta_intentions s"
  "sta_validator_count (enact_era_length s) = sta_validator_count s"
  "sta_current_era (enact_era_length s) = sta_current_era s"
  by (auto simp: enact_era_length_def voting_balance_def free_balance_def reserved_balance_def fun_eq_iff
      nominators_for_def split: option.split)

text \<open>
  C27.  A new era always comes about and elects the best: as many distinct would-be validators as
  there are seats (or candidates), none of them backed by less than one who is not elected; the
  authorities become their session keys, and the nominators in force become the current ones.
\<close>

theorem new_era_elects:
  fixes s :: "('a, 'k, 'z) sta"
  assumes "distinct (sta_intentions s)" "sta_validator_count s < 2 ^ 32"
  shows "\<exists>s'. new_era convert s = Some s' \<and>
    distinct (ses_validators s') \<and> set (ses_validators s') \<subseteq> set (sta_intentions s) \<and>
    length (ses_validators s') = min (sta_validator_count s) (length (sta_intentions s)) \<and>
    (\<forall>v w. v \<in> set (ses_validators s') \<longrightarrow> w \<in> set (sta_intentions s) \<longrightarrow> w \<notin> set (ses_validators s') \<longrightarrow>
      backing s w \<le> backing s v) \<and>
    authorities dk s' = map convert (ses_validators s') \<and>
    (\<forall>v. v \<in> set (ses_validators s') \<longrightarrow> current_nominators_for s' v = nominators_for s v)"
proof -
  define t where "t = enact_era_length (s\<lparr>sta_current_era := u64 (sta_current_era s + 1)\<rparr>)"
  have vb: "voting_balance t = voting_balance s"
    unfolding t_def enact_era_length_frame
    by (simp add: voting_balance_def free_balance_def reserved_balance_def fun_eq_iff)
  have nf: "nominators_for t = nominators_for s"
    unfolding t_def enact_era_length_frame by (simp add: nominators_for_def fun_eq_iff)
  have frame: "backing t = backing s" "nominators_for t = nominators_for s" "sta_intentions t = sta_intentions s"
    "sta_validator_count t = sta_validator_count s"
    by (simp add: backing_def nomination_balance_def fun_eq_iff vb nf, rule nf)
      (simp_all add: t_def enact_era_length_frame)
  define vals where "vals = take (sta_validator_count t) (map snd (ranked_intentions t))"
  obtain u where u: "elect t = (vals, u)" "\<And>v. v \<in> set vals \<Longrightarrow> sta_current_nominators_for u v = Some (nominators_for t v)"
    by (simp add: elect_def Let_def vals_def fold_nominators)
  note ranked = ranked_intentions_props(2) [of t]
  note perm = ranked_perm [of t, unfolded frame, OF assms(1)]
  have best: "backing s w \<le> backing s v" if "v \<in> set vals" "w \<in> set (sta_intentions s)" "w \<notin> set vals" for v w
  proof (rule ranked_take_best [OF ranked perm(4) perm(1)])
    show "v \<in> set (take (sta_validator_count t) (map snd (ranked_intentions t)))" using that(1) unfolding vals_def .
    show "w \<notin> set (take (sta_validator_count t) (map snd (ranked_intentions t)))" using that(3) unfolding vals_def .
    show "w \<in> snd ` set (ranked_intentions t)" using that(2) perm(2) by simp
  qed
  have len: "length vals = min (sta_validator_count s) (length (sta_intentions s))"
    using perm(3) frame by (simp add: vals_def min_def)
  then have "length (map convert vals) < 2 ^ 32" using assms(2) by simp
  then obtain s' where s': "set_authorities (map convert vals) (u\<lparr>ses_validators := vals\<rparr>) = Some s'"
    "authorities dk s' = map convert vals" using set_authorities_get by metis
  obtain f n where f: "s' = u\<lparr>ses_validators := vals, con_auth_at := f, con_auth_len := n\<rparr>"
    by (rule set_authorities_frame [OF s'(1)]) simp
  have v': "ses_validators s' = vals" "sta_current_nominators_for s' = sta_current_nominators_for u"
    by (simp_all add: f)
  have d: "distinct vals" unfolding vals_def using perm(1) by (rule distinct_take)
  have sub: "set vals \<subseteq> set (sta_intentions s)"
    using set_take_subset [of "sta_validator_count t" "map snd (ranked_intentions t)"] perm(2) by (simp only: vals_def)
  have ne: "new_era convert s = Some s'"
    using u(1) s'(1) unfolding new_era_def t_def [symmetric] set_validators_def by simp
  have cn: "current_nominators_for s' v = nominators_for s v" if "v \<in> set vals" for v
    using u(2) [OF that] by (simp add: current_nominators_for_def v' frame)
  show ?thesis
  proof (intro exI [of _ s'] conjI allI impI; (unfold v')?)
    show "new_era convert s = Some s'" by (rule ne)
    show "distinct vals" by (rule d)
    show "set vals \<subseteq> set (sta_intentions s)" by (rule sub)
    show "length vals = min (sta_validator_count s) (length (sta_intentions s))" by (rule len)
    show "authorities dk s' = map convert vals" by (rule s'(2))
    show "backing s w \<le> backing s v" if "v \<in> set vals" "w \<in> set (sta_intentions s)" "w \<notin> set vals" for v w
      using that by (rule best)
    show "current_nominators_for s' v = nominators_for s v" if "v \<in> set vals" for v
      using that by (rule cn)
  qed
qed

text \<open>The genesis intentions compete for two seats.\<close>

theorem new_era_elects_witness:
  "\<exists>s'. new_era id (sample_state\<lparr>sta_validator_count := 2\<rparr>) = Some s' \<and>
    length (ses_validators s') = 2 \<and> 1 \<in> set (ses_validators s') \<and>
    authorities 0 s' = ses_validators s'"
proof -
  let ?s = "sample_state\<lparr>sta_validator_count := 2\<rparr>"
  have i: "sta_intentions ?s = [1, 2, 3]" by (simp add: sample_defs)
  have "distinct (sta_intentions ?s)" "sta_validator_count ?s < 2 ^ 32" by (simp_all add: i)
  from new_era_elects [OF this, of id 0] obtain s' where s': "new_era id ?s = Some s'"
    "distinct (ses_validators s')" "set (ses_validators s') \<subseteq> {1, 2, 3}" "length (ses_validators s') = 2"
    "\<forall>v w. v \<in> set (ses_validators s') \<longrightarrow> w \<in> {1, 2, 3} \<longrightarrow> w \<notin> set (ses_validators s') \<longrightarrow>
      backing ?s w \<le> backing ?s v"
    "authorities 0 s' = ses_validators s'" by (auto simp: i)
  have b: "backing ?s 1 = 111" "backing ?s 2 = 0" "backing ?s 3 = 0"
    by (simp_all add: backing_def voting_balance_def nomination_balance_def free_balance_def
        reserved_balance_def nominators_for_def sample_defs genesis_balances_def)
  have "1 \<in> set (ses_validators s')"
  proof (rule ccontr)
    assume n: "1 \<notin> set (ses_validators s')"
    obtain v where v: "v \<in> set (ses_validators s')" using s'(4) by (cases "ses_validators s'") auto
    then have "v = 2 \<or> v = 3" using s'(3) n by auto
    then show False using s'(5) v n b by auto
  qed
  then show ?thesis using s' by blast
qed

section \<open>The address codec\<close>

definition need_more_than :: "nat \<Rightarrow> nat \<Rightarrow> nat option" where
  "need_more_than a b = (if a < b then Some a else None)"

definition address_decode :: "'a decoder \<Rightarrow> ('a, nat) address decoder" where
  "address_decode dec_id input = do {
    (x, rest) \<leftarrow> read_byte input;
    if x \<le> 0xef then Some (Index (unat x), rest)
    else if x = 0xfc then do {
      (v, rest') \<leftarrow> u16_decode rest;
      n \<leftarrow> need_more_than 0xef (unat v);
      Some (Index n, rest')
    }
    else if x = 0xfd then do {
      (v, rest') \<leftarrow> u32_decode rest;
      n \<leftarrow> need_more_than 0xffff (unat v);
      Some (Index n, rest')
    }
    else if x = 0xfe then do {
      (v, rest') \<leftarrow> u64_decode rest;
      n \<leftarrow> need_more_than 0xffffffff (unat v);
      Some (Index n, rest')
    }
    else if x = 0xff then do {
      (i, rest') \<leftarrow> dec_id rest;
      Some (Id i, rest')
    }
    else None
  }"

definition address_encode :: "'a encoder \<Rightarrow> ('a, nat) address encoder" where
  "address_encode enc_id a = (case a of
      Id i \<Rightarrow> map_option (\<lambda>bs. 255 # bs) (enc_id i)
    | Index i \<Rightarrow>
        if i > 0xffffffff then map_option (\<lambda>bs. 254 # bs) (u64_encode (word_of_nat i))
        else if i > 0xffff then map_option (\<lambda>bs. 253 # bs) (u32_encode (word_of_nat i))
        else if i \<ge> 0xf0 then map_option (\<lambda>bs. 252 # bs) (u16_encode (word_of_nat i))
        else Some [word_of_nat i])"

text \<open>
  An account id survives encoding and decoding, and so does an index of one byte.  Every longer
  index decodes to the bound of its size class instead of the index that was encoded.
\<close>

lemma address_decode_encode:
  assumes "slicable enc_id dec_id" "\<And>i. a = Index i \<Longrightarrow> i < 2 ^ 64" "address_encode enc_id a = Some bs"
  shows "address_decode dec_id (bs @ rest) = Some (case a of Id i \<Rightarrow> Id i
    | Index i \<Rightarrow> Index (if i < 0xf0 then i else if i \<le> 0xffff then 0xef
        else if i \<le> 0xffffffff then 0xffff else 0xffffffff), rest)"
proof (cases a)
  case (Id i)
  then obtain b where b: "enc_id i = Some b" "bs = 255 # b" using assms(3) by (auto simp: address_encode_def)
  then show ?thesis
    using slicable.decode_encode [OF assms(1) b(1), of rest]
    by (simp add: Id address_decode_def read_byte_def word_le_nat_alt)
next
  case (Index i)
  have i: "i < 2 ^ 64" using assms(2) Index by blast
  consider "i < 0xf0" | "0xf0 \<le> i" "i \<le> 0xffff" | "0xffff < i" "i \<le> 0xffffffff" | "0xffffffff < i" by linarith
  then show ?thesis
  proof cases
    case 1
    then have "unat (word_of_nat i :: byte) = i" by (simp add: unat_of_nat)
    then show ?thesis
      using 1 assms(3) Index by (auto simp: address_encode_def address_decode_def read_byte_def word_le_nat_alt)
  next
    case 2
    obtain b where b: "u16_encode (word_of_nat i) = Some b" "bs = 252 # b"
      using 2 assms(3) Index by (auto simp: address_encode_def)
    have "unat (word_of_nat i :: 16 word) = i" using 2 by (simp add: unat_of_nat)
    then show ?thesis
      using 2 b Index u16.decode_encode [OF b(1), of rest]
      by (simp add: address_decode_def read_byte_def word_le_nat_alt need_more_than_def)
  next
    case 3
    obtain b where b: "u32_encode (word_of_nat i) = Some b" "bs = 253 # b"
      using 3 assms(3) Index by (auto simp: address_encode_def)
    have "unat (word_of_nat i :: 32 word) = i" using 3 by (simp add: unat_of_nat)
    then show ?thesis
      using 3 b Index u32.decode_encode [OF b(1), of rest]
      by (simp add: address_decode_def read_byte_def word_le_nat_alt need_more_than_def)
  next
    case 4
    obtain b where b: "u64_encode (word_of_nat i) = Some b" "bs = 254 # b"
      using 4 assms(3) Index by (auto simp: address_encode_def)
    have "unat (word_of_nat i :: 64 word) = i" using i by (simp add: unat_of_nat)
    then show ?thesis
      using 4 b Index u64.decode_encode [OF b(1), of rest]
      by (simp add: address_decode_def read_byte_def word_le_nat_alt need_more_than_def)
  qed
qed



section \<open>Departures from the documented behaviour\<close>

text \<open>
  The liability of a transfer is computed before any range check and wraps: account one pays a
  single token and account nine receives the largest balance there is.
\<close>

lemma transfer_wrap_mints:
  "\<exists>changes. effect_transfer execute 1 9 (2 ^ 128 - 1) (sample_state\<lparr>sta_transfer_fee := 2\<rparr>) DirectAccountDb
      = Some (Inr (Some changes)) \<and>
    db_get_balance sample_state (OverlayAccountDb changes DirectAccountDb) 1 = 110 \<and>
    db_get_balance sample_state (OverlayAccountDb changes DirectAccountDb) 9 = 2 ^ 128 - 1"
  by (simp add: effect_transfer_def free_balance_def bondage_def sample_defs genesis_balances_def
      overlay_set_balance_def entry_of_def default_entry_def Let_def)

text \<open>
  Whether a transfer creates an account is decided from the balance of the sender, so a transfer
  to an account that does not exist pays the transfer fee, not the creation fee, and may
  be smaller than the existential deposit.
\<close>

lemma transfer_to_new_account_fee:
  assumes "db_get_balance s db t \<noteq> 0" "sys_number s = Some n" "bondage s t \<le> n" "db_get_balance s db d = 0"
    "0 < amount" "amount + sta_transfer_fee s \<le> db_get_balance s db t" "db_get_balance s db t < 2 ^ 128"
    "db_get_code s db d = []" "t \<noteq> d"
  shows "\<exists>changes. effect_transfer execute t d amount s db = Some (Inr (Some changes)) \<and>
    db_get_balance s (OverlayAccountDb changes db) t = db_get_balance s db t - (amount + sta_transfer_fee s)"
proof -
  have "u128 (amount + sta_transfer_fee s) = amount + sta_transfer_fee s" "u128 amount = amount"
    using assms by simp_all
  then show ?thesis
    using assms by (simp add: effect_transfer_def Let_def overlay_set_balance_def entry_of_def default_entry_def)
qed

text \<open>
  The bonding duration counts eras, but the block it sets is compared with the block number: as
  soon as the chain is longer than the era index plus the duration, funds are liquid in
  the very block in which staking stops.
\<close>

lemma unstake_liquid_at_once:
  assumes "get_at (sta_intentions s) p = Some aux" "sys_number s = Some n"
    "sta_current_era s + sta_bonding_duration s \<le> n" "n < 2 ^ 64 - 1"
  shows "fst (unstake aux p s) = Inr () \<and> unlock_block (snd (unstake aux p s)) aux = Some Liquid"
  using assms by (simp add: unstake_def unlock_block_def bondage_def max_block_number_def)

text \<open>Paying a fee writes the balance without the existential deposit law.\<close>

lemma make_payment_leaves_dust:
  "free_balance (snd (make_payment 1 0 (sample_state\<lparr>sta_existential_deposit := 50, sta_transaction_base_fee := 100\<rparr>))) 1 = 11"
  by (simp add: make_payment_def free_balance_def sample_defs genesis_balances_def)

text \<open>
  An era change sets the authorities from the account ids of the validators: a validator that
  stays in the set but had taken another session key before loses it.
\<close>

lemma era_change_resets_keys:
  "authorities 0 (sample_state\<lparr>con_auth_at := [0 \<mapsto> 77, 1 \<mapsto> 2, 2 \<mapsto> 3]\<rparr>) = [77, 2, 3] \<and>
   map_option (authorities 0) (rotate_session (new_session id) False
     (sample_state\<lparr>con_auth_at := [0 \<mapsto> 77, 1 \<mapsto> 2, 2 \<mapsto> 3]\<rparr>)) = Some [1, 2, 3]"
proof -
  let ?s = "sample_state\<lparr>con_auth_at := [0 \<mapsto> 77, 1 \<mapsto> 2, 2 \<mapsto> 3]\<rparr>"
  have a: "authorities 0 ?s = [77, 2, 3]"
    by (simp add: authorities_def sv_items_def sv_count_def sv_item_def sample_defs upt_rec)
  have b: "map_option (authorities 0) (rotate_session (new_session id) False ?s) = Some [1, 2, 3]"
    by (simp add: sample_defs rotate_session_def enact_length_def timestamp_get_def sub64_def new_session_def
        slash_validator_def slash_def free_balance_def reserved_balance_def set_free_balance_def genesis_balances_def
        new_era_def enact_era_length_def elect_def ranked_intentions_def voting_balance_def nomination_balance_def
        nominators_for_def set_validators_def set_authorities_def sv_set_items_def sv_set_count_def sv_count_def
        authorities_def sv_items_def sv_item_def upt_rec Let_def)
  show ?thesis using a b by blast
qed

end
