(* ===== verification/Democracy.thy ===== *)
theory Democracy
  imports Staking
begin

text \<open>
  The \<^verbatim>\<open>democracy\<close> module: public proposals with deposits, referenda, their tally and the vote
  thresholds.  Sources: \<^verbatim>\<open>src/substrate/runtime/democracy/src/lib.rs\<close> and
  \<^verbatim>\<open>vote_threshold.rs\<close>.  A proposal is a value of type \<open>'p\<close>; carrying one out
  (\<^verbatim>\<open>Dispatchable::dispatch\<close> of the runtime's privileged calls) is a parameter here.
\<close>


section \<open>Vote thresholds\<close>

datatype vote_threshold = SuperMajorityApprove | SuperMajorityAgainst | SimpleMajority

definition vote_threshold_decode :: "vote_threshold decoder" where
  "vote_threshold_decode input = do {
    (v, rest) \<leftarrow> read_byte input;
    (if v = 0 then Some (SuperMajorityApprove, rest)
     else if v = 1 then Some (SuperMajorityAgainst, rest)
     else if v = 2 then Some (SimpleMajority, rest)
     else None)
  }"

definition vote_threshold_encode :: "vote_threshold encoder" where
  "vote_threshold_encode t = Some [case t of SuperMajorityApprove \<Rightarrow> 0 | SuperMajorityAgainst \<Rightarrow> 1 | SimpleMajority \<Rightarrow> 2]"

text \<open>\<^verbatim>\<open>n1 / d1 < n2 / d2\<close> by continued fractions.  A zero denominator panics.\<close>

function compare_rationals :: "nat \<Rightarrow> nat \<Rightarrow> nat \<Rightarrow> nat \<Rightarrow> bool option" where
  "compare_rationals n1 d1 n2 d2 =
    (if d1 = 0 \<or> d2 = 0 then None
     else
       let q1 = n1 div d1; q2 = n2 div d2 in
       if q1 < q2 then Some True
       else if q2 < q1 then Some False
       else
         let r1 = n1 mod d1; r2 = n2 mod d2 in
         if r2 = 0 then Some False
         else if r1 = 0 then Some True
         else compare_rationals d2 r2 d1 r1)"
  by pat_completeness auto
termination
proof (relation "measure (\<lambda>(n1, d1, n2, d2). d1 + d2)")
  fix n1 d1 n2 d2 q1 q2 r1 r2 :: nat
  assume "\<not> (d1 = 0 \<or> d2 = 0)" "r1 = n1 mod d1" "r2 = n2 mod d2"
  then have "r1 < d1" "r2 < d2" by simp_all
  then show "((d2, r2, d1, r1), n1, d1, n2, d2) \<in> measure (\<lambda>(n1, d1, n2, d2). d1 + d2)" by simp
qed simp

text \<open>\<open>isqrt\<close> is \<^verbatim>\<open>integer_sqrt\<close> of the external crate of that name.\<close>

definition approved :: "(nat \<Rightarrow> nat) \<Rightarrow> vote_threshold \<Rightarrow> nat \<Rightarrow> nat \<Rightarrow> nat \<Rightarrow> bool option" where
  "approved isqrt threshold approve against electorate =
    (let voters = u128 (approve + against);
         sqrt_voters = isqrt voters;
         sqrt_electorate = isqrt electorate in
     if sqrt_voters = 0 then Some False
     else case threshold of
         SuperMajorityApprove \<Rightarrow> compare_rationals against sqrt_voters approve sqrt_electorate
       | SuperMajorityAgainst \<Rightarrow> compare_rationals against sqrt_electorate approve sqrt_voters
       | SimpleMajority \<Rightarrow> Some (approve > against))"


section \<open>Storage\<close>

record ('a, 'k, 'p) Democracy = "('a, 'k) Staking" +
  dem_public_prop_count :: nat
  dem_public_props :: "(nat \<times> 'p \<times> 'a) list"
  dem_deposit_of :: "nat \<rightharpoonup> nat \<times> 'a list"
  dem_launch_period :: nat
  dem_minimum_deposit :: nat
  dem_voting_period :: nat
  dem_referendum_count :: nat
  dem_next_tally :: nat
  dem_referendum_info_of :: "nat \<rightharpoonup> nat \<times> 'p \<times> vote_threshold"
  dem_voters_for :: "nat \<rightharpoonup> 'a list"
  dem_vote_of :: "nat \<times> 'a \<rightharpoonup> bool"

type_synonym ('a, 'k, 'p, 'z) dem = "('a, 'k, 'p, 'z) Democracy_scheme"
type_synonym ('p, 's) dispatcher = "'p \<Rightarrow> 's \<Rightarrow> 's outcome"
type_synonym 'p referendum = "nat \<times> nat \<times> 'p \<times> vote_threshold"

definition locked_for :: "('a, 'k, 'p, 'z) dem \<Rightarrow> nat \<Rightarrow> nat option" where
  "locked_for s prop_index = map_option (\<lambda>(d, l). u128 (d * length l)) (dem_deposit_of s prop_index)"

definition is_active_referendum :: "('a, 'k, 'p, 'z) dem \<Rightarrow> nat \<Rightarrow> bool" where
  "is_active_referendum s ref_index \<longleftrightarrow> dem_referendum_info_of s ref_index \<noteq> None"

definition active_referendums :: "('a, 'k, 'p, 'z) dem \<Rightarrow> 'p referendum list" where
  "active_referendums s =
    List.map_filter (\<lambda>i. map_option (\<lambda>(n, p, t). (i, n, p, t)) (dem_referendum_info_of s i))
      [dem_next_tally s..<dem_referendum_count s]"

definition maturing_referendums_at :: "nat \<Rightarrow> ('a, 'k, 'p, 'z) dem \<Rightarrow> 'p referendum list" where
  "maturing_referendums_at n s = takeWhile (\<lambda>(_, block_number, _, _). block_number = n) (active_referendums s)"

definition democracy_tally :: "('a, 'k, 'p, 'z) dem \<Rightarrow> nat \<Rightarrow> nat \<times> nat" where
  "democracy_tally s ref_index =
    foldl (\<lambda>(a, b) (c, d). (u128 (a + c), u128 (b + d))) (0, 0)
      (map (\<lambda>(bal, v). if v then (bal, 0) else (0, bal))
        (map (\<lambda>a. (voting_balance s a, or_default False (dem_vote_of s (ref_index, a))))
          (or_default [] (dem_voters_for s ref_index))))"


section \<open>Referenda\<close>

definition inject_referendum :: "nat \<Rightarrow> 'p \<Rightarrow> vote_threshold \<Rightarrow> ('a, 'k, 'p, 'z) dem \<Rightarrow>
    (string + nat) \<times> ('a, 'k, 'p, 'z) dem" where
  "inject_referendum end_block_number p threshold s =
    (let ref_index = dem_referendum_count s in
     if ref_index > 0 \<and>
        (case dem_referendum_info_of s (ref_index - 1) of Some i \<Rightarrow> fst i > end_block_number | None \<Rightarrow> False)
     then (Inl ''Cannot inject a referendum that ends earlier than preceeding referendum'', s)
     else (Inr ref_index,
       s\<lparr>dem_referendum_count := u32 (ref_index + 1),
         dem_referendum_info_of := (dem_referendum_info_of s)(ref_index \<mapsto> (end_block_number, p, threshold))\<rparr>))"

text \<open>The voters are read after they have been removed: the loop of the source has none to go over.\<close>

definition clear_referendum :: "nat \<Rightarrow> ('a, 'k, 'p, 'z) dem \<Rightarrow> ('a, 'k, 'p, 'z) dem" where
  "clear_referendum ref_index s =
    (let s1 = s\<lparr>dem_referendum_info_of := (dem_referendum_info_of s)(ref_index := None)\<rparr>;
         s2 = s1\<lparr>dem_voters_for := (dem_voters_for s1)(ref_index := None)\<rparr> in
     s2\<lparr>dem_vote_of :=
       fold (\<lambda>v m. m((ref_index, v) := None)) (or_default [] (dem_voters_for s2 ref_index)) (dem_vote_of s2)\<rparr>)"

definition internal_start_referendum :: "'p \<Rightarrow> vote_threshold \<Rightarrow> ('a, 'k, 'p, 'z) dem \<Rightarrow>
    ((string + nat) \<times> ('a, 'k, 'p, 'z) dem) option" where
  "internal_start_referendum p threshold s = do {
    block_number \<leftarrow> sys_number s;
    Some (inject_referendum (u64 (block_number + dem_voting_period s)) p threshold s)
  }"

definition internal_cancel_referendum :: "nat \<Rightarrow> ('a, 'k, 'p, 'z) dem \<Rightarrow> ('a, 'k, 'p, 'z) dem" where
  "internal_cancel_referendum ref_index s = clear_referendum ref_index s"


section \<open>Calls\<close>

definition democracy_propose :: "'a \<Rightarrow> 'p \<Rightarrow> nat \<Rightarrow> ('a, 'k, 'p, 'z) dem \<Rightarrow> ('a, 'k, 'p, 'z) dem outcome" where
  "democracy_propose aux p amount s =
    (if amount < dem_minimum_deposit s then Some (Inl ''value too low'', s)
     else do {
       (r, s1) \<leftarrow> reserve aux amount s;
       (case r of
          Inl _ \<Rightarrow> Some (Inl ''proposer's balance too low'', s1)
        | Inr _ \<Rightarrow>
            let index = dem_public_prop_count s1 in
            Some (Inr (), s1\<lparr>dem_public_prop_count := u32 (index + 1),
              dem_deposit_of := (dem_deposit_of s1)(index \<mapsto> (amount, [aux])),
              dem_public_props := dem_public_props s1 @ [(index, p, aux)]\<rparr>))
     })"

definition democracy_second :: "'a \<Rightarrow> nat \<Rightarrow> ('a, 'k, 'p, 'z) dem \<Rightarrow> ('a, 'k, 'p, 'z) dem outcome" where
  "democracy_second aux prop_index s = (case dem_deposit_of s prop_index of
      None \<Rightarrow> Some (Inl ''can only second an existing proposal'', s)
    | Some (amount, depositors) \<Rightarrow> do {
        (r, s1) \<leftarrow> reserve aux amount s;
        (case r of
           Inl _ \<Rightarrow> Some (Inl ''seconder's balance too low'', s1)
         | Inr _ \<Rightarrow> Some (Inr (), s1\<lparr>dem_deposit_of :=
             (dem_deposit_of s1)(prop_index \<mapsto> (amount, depositors @ [aux]))\<rparr>))
      })"

definition democracy_vote :: "'a \<Rightarrow> nat \<Rightarrow> bool \<Rightarrow> ('a, 'k, 'p, 'z) dem \<Rightarrow> (string + unit) \<times> ('a, 'k, 'p, 'z) dem" where
  "democracy_vote aux ref_index approve_proposal s =
    (if \<not> is_active_referendum s ref_index then (Inl ''vote given for invalid referendum.'', s)
     else if voting_balance s aux = 0 then (Inl ''transactor must have balance to signal approval.'', s)
     else
       let s1 = (if dem_vote_of s (ref_index, aux) = None
             then s\<lparr>dem_voters_for := (dem_voters_for s)(ref_index \<mapsto> or_default [] (dem_voters_for s ref_index) @ [aux])\<rparr>
             else s) in
       (Inr (), s1\<lparr>dem_vote_of := (dem_vote_of s1)((ref_index, aux) \<mapsto> approve_proposal)\<rparr>))"

definition start_referendum :: "'p \<Rightarrow> vote_threshold \<Rightarrow> ('a, 'k, 'p, 'z) dem \<Rightarrow> ('a, 'k, 'p, 'z) dem outcome" where
  "start_referendum p threshold s = do {
    (r, s1) \<leftarrow> internal_start_referendum p threshold s;
    Some (map_sum id (\<lambda>_. ()) r, s1)
  }"

definition cancel_referendum :: "nat \<Rightarrow> ('a, 'k, 'p, 'z) dem \<Rightarrow> (string + unit) \<times> ('a, 'k, 'p, 'z) dem" where
  "cancel_referendum ref_index s = (Inr (), clear_referendum ref_index s)"


section \<open>The end of a block\<close>

text \<open>\<^verbatim>\<open>max_by_key\<close> of the enumerated proposals: the last of the largest.\<close>

fun max_index_by :: "('x \<Rightarrow> nat) \<Rightarrow> nat \<Rightarrow> 'x list \<Rightarrow> nat option" where
  "max_index_by key i [] = None"
| "max_index_by key i (x # xs) = (case max_index_by key (i + 1) xs of
      None \<Rightarrow> Some i
    | Some j \<Rightarrow> if key (xs ! (j - (i + 1))) < key x then Some i else Some j)"

definition launch_public :: "nat \<Rightarrow> ('a, 'k, 'p, 'z) dem \<Rightarrow> (string + unit) \<times> ('a, 'k, 'p, 'z) dem" where
  "launch_public now s =
    (case max_index_by (\<lambda>(i, _, _). or_default 0 (locked_for s i)) 0 (dem_public_props s) of
       None \<Rightarrow> (Inr (), s)
     | Some winner_index \<Rightarrow>
         (case dem_public_props s ! winner_index of (prop_index, p, _) \<Rightarrow>
            (case dem_deposit_of s prop_index of
               None \<Rightarrow> (Inl ''depositors always exist for current proposals'', s)
             | Some (deposit, depositors) \<Rightarrow>
                 let s1 = s\<lparr>dem_deposit_of := (dem_deposit_of s)(prop_index := None)\<rparr>;
                     s2 = fold (\<lambda>d t. snd (unreserve d deposit t)) depositors s1;
                     s3 = s2\<lparr>dem_public_props := swap_remove (dem_public_props s) winner_index\<rparr>;
                     (r, s4) = inject_referendum (u64 (now + dem_voting_period s3)) p SuperMajorityApprove s3 in
                 (map_sum id (\<lambda>_. ()) r, s4))))"

fun tally_referenda :: "(nat \<Rightarrow> nat) \<Rightarrow> ('p, ('a, 'k, 'p, 'z) dem) dispatcher \<Rightarrow> 'p referendum list \<Rightarrow>
    ('a, 'k, 'p, 'z) dem \<Rightarrow> ('a, 'k, 'p, 'z) dem outcome" where
  "tally_referenda isqrt dispatch [] s = Some (Inr (), s)"
| "tally_referenda isqrt dispatch ((index, _, p, threshold) # rs) s = do {
    let (approve, against) = democracy_tally s index;
    let s1 = clear_referendum index s;
    passed \<leftarrow> approved isqrt threshold approve against (sta_total_stake s);
    if passed then do {
      (r, s2) \<leftarrow> dispatch p s1;
      (case r of
         Inl e \<Rightarrow> Some (Inl e, s2)
       | Inr _ \<Rightarrow> tally_referenda isqrt dispatch rs (s2\<lparr>dem_next_tally := u32 (index + 1)\<rparr>))
    }
    else tally_referenda isqrt dispatch rs (s1\<lparr>dem_next_tally := u32 (index + 1)\<rparr>)
  }"

definition democracy_end_block :: "(nat \<Rightarrow> nat) \<Rightarrow> ('p, ('a, 'k, 'p, 'z) dem) dispatcher \<Rightarrow> nat \<Rightarrow>
    ('a, 'k, 'p, 'z) dem \<Rightarrow> ('a, 'k, 'p, 'z) dem outcome" where
  "democracy_end_block isqrt dispatch now s = do {
    assert (dem_launch_period s \<noteq> 0);
    let (r, s1) = (if now mod dem_launch_period s = 0 then launch_public now s else (Inr (), s));
    (case r of
       Inl e \<Rightarrow> Some (Inl e, s1)
     | Inr _ \<Rightarrow> tally_referenda isqrt dispatch (maturing_referendums_at now s1) s1)
  }"

definition democracy_execute :: "(nat \<Rightarrow> nat) \<Rightarrow> ('p, ('a, 'k, 'p, 'z) dem) dispatcher \<Rightarrow>
    ('a, 'k, 'p, 'z) dem \<Rightarrow> ('a, 'k, 'p, 'z) dem option" where
  "democracy_execute isqrt dispatch s = do {
    now \<leftarrow> sys_number s;
    (_, s1) \<leftarrow> democracy_end_block isqrt dispatch now s;
    Some s1
  }"

section \<open>Genesis\<close>

record democracy_config =
  dgc_launch_period :: nat
  dgc_voting_period :: nat
  dgc_minimum_deposit :: nat

definition democracy_new_config :: democracy_config where
  "democracy_new_config = \<lparr>dgc_launch_period = 1, dgc_voting_period = 1, dgc_minimum_deposit = 1\<rparr>"

definition democracy_extended_config :: democracy_config where
  "democracy_extended_config = \<lparr>dgc_launch_period = 1, dgc_voting_period = 3, dgc_minimum_deposit = 1\<rparr>"

definition democracy_default_config :: democracy_config where
  "democracy_default_config = \<lparr>dgc_launch_period = 1000, dgc_voting_period = 1000, dgc_minimum_deposit = 0\<rparr>"

definition democracy_build_storage :: "democracy_config \<Rightarrow> ('a, 'k) Staking \<Rightarrow> ('a, 'k, 'p) Democracy" where
  "democracy_build_storage c s = Staking.Staking.extend s (Democracy.Democracy.fields 0 [] Map.empty
    (dgc_launch_period c) (dgc_minimum_deposit c) (dgc_voting_period c) 0 0 Map.empty Map.empty Map.empty)"



section \<open>The wire format of a threshold\<close>

interpretation threshold: slicable vote_threshold_encode vote_threshold_decode
proof
  fix x bs rest assume "vote_threshold_encode x = Some bs"
  then show "vote_threshold_decode (bs @ rest) = Some (x, rest)"
    by (cases x) (auto simp: vote_threshold_encode_def vote_threshold_decode_def read_byte_def)
next
  fix input x rest assume "vote_threshold_decode input = Some (x, rest)"
  then show "\<exists>bs. vote_threshold_encode x = Some bs \<and> input = bs @ rest"
    by (auto simp: vote_threshold_encode_def vote_threshold_decode_def split: Option.bind_splits if_splits)
qed


section \<open>Comparing rationals\<close>

declare compare_rationals.simps [simp del]

lemma compare_rationals_correct:
  "0 < d1 \<Longrightarrow> 0 < d2 \<Longrightarrow> compare_rationals n1 d1 n2 d2 = Some (n1 * d2 < n2 * d1)"
proof (induction n1 d1 n2 d2 rule: compare_rationals.induct)
  case (1 n1 d1 n2 d2)
  define q1 q2 r1 r2 where "q1 = n1 div d1" and "q2 = n2 div d2" and "r1 = n1 mod d1" and "r2 = n2 mod d2"
  have n: "n1 = q1 * d1 + r1" "n2 = q2 * d2 + r2" by (simp_all add: q1_def q2_def r1_def r2_def)
  have r: "r1 < d1" "r2 < d2" using "1.prems" by (simp_all add: r1_def r2_def)
  have unf: "compare_rationals n1 d1 n2 d2 =
    (if q1 < q2 then Some True else if q2 < q1 then Some False else if r2 = 0 then Some False
     else if r1 = 0 then Some True else compare_rationals d2 r2 d1 r1)"
    using "1.prems" by (simp add: compare_rationals.simps [of n1 d1] q1_def q2_def r1_def r2_def Let_def)
  have less: "a * d + r < (b::nat) * d" if "a < b" "r < d" for a b d r
  proof -
    have "a * d + r < Suc a * d" using that by simp
    also have "\<dots> \<le> b * d" using that by (intro mult_le_mono1) simp
    finally show ?thesis .
  qed
  show ?case
  proof (cases "q1 = q2")
    case True
    have eq: "n1 * d2 < n2 * d1 \<longleftrightarrow> r1 * d2 < r2 * d1"
      unfolding n True by (simp add: algebra_simps)
    show ?thesis
    proof (cases "r1 = 0 \<or> r2 = 0")
      case False
      then have "compare_rationals d2 r2 d1 r1 = Some (d2 * r1 < d1 * r2)"
        using "1.IH" [OF _ q1_def q2_def _ _ r1_def r2_def] True "1.prems" by simp
      then show ?thesis using False True unf eq by (simp add: mult.commute)
    qed (use True unf eq "1.prems" in auto)
  next
    case False
    then consider "q1 < q2" | "q2 < q1" by linarith
    then show ?thesis
    proof cases
      case 1
      have "n1 * d2 < q2 * d1 * d2" using less [OF 1 r(1)] "1.prems" n(1) by simp
      also have "\<dots> \<le> n2 * d1" unfolding n(2) by (simp add: algebra_simps)
      finally show ?thesis using 1 unf by simp
    next
      case 2
      have "n2 * d1 \<le> q1 * d2 * d1" using less [OF 2 r(2)] n(2) by (simp add: less_imp_le_nat)
      also have "\<dots> \<le> n1 * d2" unfolding n(1) by (simp add: algebra_simps)
      finally show ?thesis using 2 unf by simp
    qed
  qed
qed

text \<open>
  C34.  The threshold test decides its rule exactly, without overflow: under \<^verbatim>\<open>SuperMajorityApprove\<close>
  the share of rejections over the root of the turnout is less than the share of approvals over the
  root of the electorate, under \<^verbatim>\<open>SuperMajorityAgainst\<close> the roots change places, and a simple
  majority compares the two sums.  The loop on continued fractions always ends, and
  nothing passes without turnout.
\<close>

theorem approved_exact:
  assumes "0 < isqrt electorate" "approve + against < 2 ^ 128"
  shows "approved isqrt threshold approve against electorate = Some (isqrt (approve + against) \<noteq> 0 \<and>
    (case threshold of
       SuperMajorityApprove \<Rightarrow> against * isqrt electorate < approve * isqrt (approve + against)
     | SuperMajorityAgainst \<Rightarrow> against * isqrt (approve + against) < approve * isqrt electorate
     | SimpleMajority \<Rightarrow> against < approve))"
proof -
  have "u128 (approve + against) = approve + against" using assms(2) by simp
  then show ?thesis
    using assms(1) unfolding approved_def Let_def
    by (cases threshold) (auto simp: compare_rationals_correct)
qed

theorem approved_exact_witness:
  "approved (\<lambda>n. if n = 0 then 0 else if n < 100 then 8 else 12) SuperMajorityApprove 60 10 150 = Some True \<and>
   approved (\<lambda>n. if n = 0 then 0 else if n < 100 then 8 else 12) SuperMajorityApprove 42 28 150 = Some False"
  using approved_exact [of "\<lambda>n. if n = 0 then 0 else if n < 100 then 8 else 12" 150 60 10 SuperMajorityApprove]
    approved_exact [of "\<lambda>n. if n = 0 then 0 else if n < 100 then 8 else 12" 150 42 28 SuperMajorityApprove]
  by simp


section \<open>Public proposals\<close>

definition pub_view :: "('a, 'k, 'p, 'z) dem \<Rightarrow> nat \<times> (nat \<times> 'p \<times> 'a) list \<times> (nat \<rightharpoonup> nat \<times> 'a list)" where
  "pub_view s = (dem_public_prop_count s, dem_public_props s, dem_deposit_of s)"

definition ref_view :: "('a, 'k, 'p, 'z) dem \<Rightarrow>
    nat \<times> nat \<times> nat \<times> (nat \<rightharpoonup> nat \<times> 'p \<times> vote_threshold) \<times> nat" where
  "ref_view s = (dem_voting_period s, dem_referendum_count s, dem_next_tally s, dem_referendum_info_of s,
    sta_total_stake s)"

lemmas views = pub_view_def ref_view_def

text \<open>What the other modules do to balances leaves the storage of this one alone.\<close>

lemma set_balance_views [simp]:
  "pub_view (snd (set_free_balance a n s)) = pub_view s"
  "pub_view (snd (set_reserved_balance a n s)) = pub_view s"
  "ref_view (snd (set_free_balance a n s)) = ref_view s"
  "ref_view (snd (set_reserved_balance a n s)) = ref_view s"
  by (simp_all add: set_free_balance_def set_reserved_balance_def on_free_too_low_def
      on_reserved_too_low_def views Let_def)

lemma unreserve_views [simp]:
  "pub_view (snd (unreserve a n s)) = pub_view s" "ref_view (snd (unreserve a n s)) = ref_view s"
  by (simp_all add: unreserve_def Let_def)

lemma refund_views [simp]:
  "pub_view (fold (\<lambda>d t. snd (unreserve d n t)) ds s) = pub_view s"
  "ref_view (fold (\<lambda>d t. snd (unreserve d n t)) ds s) = ref_view s"
  by (induction ds arbitrary: s) simp_all

lemma reserve_views:
  assumes "reserve a n s = Some (r, s')"
  shows "pub_view s' = pub_view s" "ref_view s' = ref_view s"
  using assms by (auto simp: reserve_def Let_def split: if_splits Option.bind_splits)

lemma inject_referendum_pub [simp]: "pub_view (snd (inject_referendum e p t s)) = pub_view s"
  by (simp add: inject_referendum_def views Let_def)

lemma clear_referendum_views [simp]:
  "pub_view (clear_referendum i s) = pub_view s"
  "ref_view (clear_referendum i s) = (dem_voting_period s, dem_referendum_count s, dem_next_tally s,
     (dem_referendum_info_of s)(i := None), sta_total_stake s)"
  by (simp_all add: clear_referendum_def views Let_def)

text \<open>
  Proposals have distinct indices below the counter, and exactly the listed ones have depositors,
  at least one each.
\<close>

definition proposals_ok :: "('a, 'k, 'p, 'z) dem \<Rightarrow> bool" where
  "proposals_ok s \<longleftrightarrow>
    distinct (map fst (dem_public_props s)) \<and>
    (\<forall>x \<in> set (dem_public_props s). fst x < dem_public_prop_count s) \<and>
    dom (dem_deposit_of s) = fst ` set (dem_public_props s) \<and>
    (\<forall>i d l. dem_deposit_of s i = Some (d, l) \<longrightarrow> l \<noteq> [])"

lemma pub_view_ok:
  "pub_view s' = pub_view s \<Longrightarrow> proposals_ok s \<Longrightarrow>
   proposals_ok s' \<and> dem_public_prop_count s' = dem_public_prop_count s"
  by (simp add: proposals_ok_def views)

lemma proposals_ok_deposit:
  "proposals_ok s \<Longrightarrow> x \<in> set (dem_public_props s) \<Longrightarrow> \<exists>d l. dem_deposit_of s (fst x) = Some (d, l)"
  unfolding proposals_ok_def by (metis domD image_eqI surj_pair)

lemma max_index_by_Some:
  "max_index_by key i xs = Some j \<Longrightarrow> i \<le> j \<and> j < i + length xs \<and> (\<forall>x \<in> set xs. key x \<le> key (xs ! (j - i)))"
proof (induction xs arbitrary: i j)
  case (Cons x xs)
  show ?case
  proof (cases "max_index_by key (i + 1) xs")
    case None
    then have "xs = []" by (cases xs) (auto split: option.splits if_splits)
    then show ?thesis using Cons.prems by simp
  next
    case (Some k)
    have ih: "i + 1 \<le> k" "k < i + 1 + length xs" "\<forall>y \<in> set xs. key y \<le> key (xs ! (k - (i + 1)))"
      using Cons.IH [OF Some] by simp_all
    then have nth: "(x # xs) ! (k - i) = xs ! (k - (i + 1))" by (simp add: nth_Cons')
    show ?thesis
      using Cons.prems Some ih nth by (fastforce split: if_splits)
  qed
qed simp

lemma max_index_by_None: "max_index_by key i xs = None \<longleftrightarrow> xs = []"
  by (cases xs) (auto split: option.splits if_splits)

lemma swap_remove_mset:
  assumes "i < length xs"
  shows "mset (swap_remove xs i) = mset xs - {#xs ! i#}"
proof -
  define ys where "ys = xs[i := last xs]"
  have ne: "ys \<noteq> []" "xs \<noteq> []" using assms by (auto simp: ys_def)
  have l: "last ys = last xs" using ne(2) by (simp add: ys_def last_list_update)
  have "mset ys = mset (butlast ys @ [last ys])" by (simp only: append_butlast_last_id [OF ne(1)])
  then have "mset (xs[i := last xs]) = add_mset (last xs) (mset (swap_remove xs i))"
    unfolding swap_remove_def ys_def [symmetric] l by simp
  moreover have "mset (xs[i := last xs]) = add_mset (last xs) (mset xs - {#xs ! i#})"
    using assms by (simp add: mset_update)
  ultimately show ?thesis by simp
qed

lemma swap_remove_set:
  assumes "distinct (map fst xs)" "i < length xs"
  shows "distinct (map fst (swap_remove xs i))" "set (swap_remove xs i) = set xs - {xs ! i}"
    "fst ` set (swap_remove xs i) = fst ` set xs - {fst (xs ! i)}"
proof -
  have m: "mset (swap_remove xs i) = mset xs - {#xs ! i#}" using swap_remove_mset assms(2) .
  have in_: "xs ! i \<in># mset xs" using assms(2) by simp
  have "mset (map fst xs) = add_mset (fst (xs ! i)) (mset (map fst (swap_remove xs i)))"
    by (metis in_ insert_DiffM m image_mset_add_mset mset_map)
  then have p: "mset (map fst xs) = mset (fst (xs ! i) # map fst (swap_remove xs i))" by simp
  have d: "distinct (fst (xs ! i) # map fst (swap_remove xs i))" using assms(1) p mset_eq_imp_distinct_iff by blast
  then show "distinct (map fst (swap_remove xs i))" by simp
  have s: "set xs = insert (xs ! i) (set (swap_remove xs i))" 
    by (metis in_ insert_DiffM m set_mset_add_mset_insert set_mset_mset)
  show "set (swap_remove xs i) = set xs - {xs ! i}" using d s by auto
  show "fst ` set (swap_remove xs i) = fst ` set xs - {fst (xs ! i)}" using d s by auto
qed

text \<open>Launching the best-backed proposal, when there is one, and its effect on both views.\<close>

lemma launch_public_cases:
  assumes ok: "proposals_ok s"
  obtains (none) "dem_public_props s = []" "launch_public now s = (Inr (), s)"
  | (winner) j i p who d l s3 r s4 where
      "j < length (dem_public_props s)" "dem_public_props s ! j = (i, p, who)"
      "dem_deposit_of s i = Some (d, l)"
      "\<forall>x \<in> set (dem_public_props s). or_default 0 (locked_for s (fst x)) \<le> or_default 0 (locked_for s i)"
      "pub_view s3 = (dem_public_prop_count s, swap_remove (dem_public_props s) j, (dem_deposit_of s)(i := None))"
      "ref_view s3 = ref_view s"
      "inject_referendum (u64 (now + dem_voting_period s)) p SuperMajorityApprove s3 = (r, s4)"
      "launch_public now s = (map_sum id (\<lambda>_. ()) r, s4)"
proof (cases "max_index_by (\<lambda>(i, _, _). or_default 0 (locked_for s i)) 0 (dem_public_props s)")
  case None
  then show thesis using none by (simp add: max_index_by_None launch_public_def)
next
  case (Some j)
  obtain i p who where x: "dem_public_props s ! j = (i, p, who)" by (metis surj_pair)
  have j: "j < length (dem_public_props s)" using max_index_by_Some [OF Some] by simp
  obtain d l where dl: "dem_deposit_of s i = Some (d, l)"
    using proposals_ok_deposit [OF ok nth_mem [OF j]] x by auto
  define s3 where "s3 = (fold (\<lambda>d' t. snd (unreserve d' d t)) l (s\<lparr>dem_deposit_of := (dem_deposit_of s)(i := None)\<rparr>))
     \<lparr>dem_public_props := swap_remove (dem_public_props s) j\<rparr>"
  have v: "pub_view (fold (\<lambda>d' t. snd (unreserve d' d t)) l (s\<lparr>dem_deposit_of := (dem_deposit_of s)(i := None)\<rparr>)) =
      (dem_public_prop_count s, dem_public_props s, (dem_deposit_of s)(i := None))"
    "ref_view (fold (\<lambda>d' t. snd (unreserve d' d t)) l (s\<lparr>dem_deposit_of := (dem_deposit_of s)(i := None)\<rparr>)) = ref_view s"
    unfolding refund_views by (simp_all add: views)
  have v3: "pub_view s3 = (dem_public_prop_count s, swap_remove (dem_public_props s) j, (dem_deposit_of s)(i := None))"
    "ref_view s3 = ref_view s"
    using v by (simp_all add: s3_def views)
  have best: "\<forall>x \<in> set (dem_public_props s). or_default 0 (locked_for s (fst x)) \<le> or_default 0 (locked_for s i)"
    using max_index_by_Some [OF Some] x by (auto simp: split_beta)
  obtain r s4 where inj: "inject_referendum (u64 (now + dem_voting_period s)) p SuperMajorityApprove s3 = (r, s4)"
    by (metis surj_pair)
  have "dem_voting_period s3 = dem_voting_period s" using v3(2) by (simp add: views)
  then have "launch_public now s = (map_sum id (\<lambda>_. ()) r, s4)"
    using Some x dl inj by (simp add: launch_public_def s3_def Let_def)
  then show thesis using winner [OF j x dl best v3 inj] by blast
qed

definition keeps_proposals :: "('p, ('a, 'k, 'p, 'z) dem) dispatcher \<Rightarrow> bool" where
  "keeps_proposals dispatch \<longleftrightarrow> (\<forall>p t r t'. dispatch p t = Some (r, t') \<longrightarrow> pub_view t' = pub_view t)"

lemma keeps_proposalsD: "keeps_proposals dispatch \<Longrightarrow> dispatch p t = Some (r, t') \<Longrightarrow> pub_view t' = pub_view t"
  by (auto simp: keeps_proposals_def)

lemma tally_referenda_pub:
  assumes d: "keeps_proposals dispatch"
  shows "tally_referenda isqrt dispatch rs s = Some (r, s') \<Longrightarrow> pub_view s' = pub_view s"
proof (induction rs arbitrary: s)
  case (Cons x rs)
  obtain i e p th where x: "x = (i, e, p, th)" by (metis surj_pair)
  have skip: "pub_view (t\<lparr>dem_next_tally := n\<rparr>) = pub_view t" for t :: "('b, 'c, 'a, 'd) dem" and n
    by (simp add: views)
  show ?case
    using Cons.prems x
    by (auto simp: Let_def split_beta skip dest!: Cons.IH keeps_proposalsD [OF d] split: Option.bind_splits if_splits sum.splits)
qed simp

lemma launch_public_ok:
  assumes ok: "proposals_ok s" and l: "launch_public now s = (r, s')"
  shows "proposals_ok s' \<and> r \<noteq> Inl ''depositors always exist for current proposals'' \<and>
    dem_public_prop_count s' = dem_public_prop_count s"
  using ok
proof (cases rule: launch_public_cases [where now = now])
  case (winner j i p who d l s3 q s4)
  have s4: "pub_view s' = pub_view s3" "q \<noteq> Inl ''depositors always exist for current proposals''"
    using winner(7,8) l inject_referendum_pub [of "u64 (now + dem_voting_period s)" p SuperMajorityApprove s3]
    by (auto simp: inject_referendum_def Let_def split: if_splits)
  have "proposals_ok s3"
    using ok winner(1,2,5) swap_remove_set [of "dem_public_props s" j]
    unfolding proposals_ok_def by (auto simp: views)
  then have "proposals_ok s'" using pub_view_ok [OF s4(1)] by blast
  moreover have "r \<noteq> Inl ''depositors always exist for current proposals''"
    using winner(8) l s4(2) by (cases q) auto
  moreover have "dem_public_prop_count s' = dem_public_prop_count s"
    using s4(1) winner(5) by (simp add: views)
  ultimately show ?thesis by blast
qed (use l ok in auto)

lemma step_props:
  assumes ok: "proposals_ok s" and c: "dem_public_prop_count s + 1 < 2 ^ 32"
    and v: "pub_view s' = (u32 (dem_public_prop_count s + 1),
      dem_public_props s @ [(dem_public_prop_count s, p, aux)],
      (dem_deposit_of s)(dem_public_prop_count s \<mapsto> (amount, [aux])))"
  shows "proposals_ok s' \<and> dem_public_prop_count s' \<le> dem_public_prop_count s + 1"
proof -
  have n: "u32 (dem_public_prop_count s + 1) = dem_public_prop_count s + 1" using c by simp
  have v': "dem_public_prop_count s' = dem_public_prop_count s + 1"
    "dem_public_props s' = dem_public_props s @ [(dem_public_prop_count s, p, aux)]"
    "dem_deposit_of s' = (dem_deposit_of s)(dem_public_prop_count s \<mapsto> (amount, [aux]))"
    using v unfolding n by (simp_all add: views)
  show ?thesis using ok unfolding proposals_ok_def v' by (auto simp: less_Suc_eq)
qed

lemma propose_ok:
  assumes ok: "proposals_ok s" and c: "dem_public_prop_count s + 1 < 2 ^ 32"
    and p: "democracy_propose aux p amount s = Some (r, s')"
  shows "proposals_ok s' \<and> dem_public_prop_count s' \<le> dem_public_prop_count s + 1"
proof (cases "\<exists>s1. \<not> amount < dem_minimum_deposit s \<and> reserve aux amount s = Some (Inr (), s1)")
  case True
  then obtain s1 where s1: "\<not> amount < dem_minimum_deposit s" "reserve aux amount s = Some (Inr (), s1)" by blast
  note v = reserve_views(1) [OF s1(2)]
  have "pub_view s' = (u32 (dem_public_prop_count s1 + 1),
      dem_public_props s1 @ [(dem_public_prop_count s1, p, aux)],
      (dem_deposit_of s1)(dem_public_prop_count s1 \<mapsto> (amount, [aux])))"
    using p s1 by (auto simp: democracy_propose_def views Let_def)
  then show ?thesis using v by (intro step_props [OF ok c]) (simp add: pub_view_def)
next
  case False
  then have "pub_view s' = pub_view s"
    using p reserve_views(1) [of aux amount s]
    by (auto simp: democracy_propose_def Let_def split: if_splits Option.bind_splits sum.splits)
  then show ?thesis by (auto dest!: pub_view_ok [OF _ ok])
qed

lemma second_ok:
  assumes ok: "proposals_ok s" and p: "democracy_second aux i s = Some (r, s')"
  shows "proposals_ok s' \<and> dem_public_prop_count s' = dem_public_prop_count s"
proof (cases "\<exists>n ds s1. dem_deposit_of s i = Some (n, ds) \<and> reserve aux n s = Some (Inr (), s1)")
  case True
  then obtain n ds s1 where s1: "dem_deposit_of s i = Some (n, ds)" "reserve aux n s = Some (Inr (), s1)" by blast
  note v = reserve_views(1) [OF s1(2)]
  have "s' = s1\<lparr>dem_deposit_of := (dem_deposit_of s1)(i \<mapsto> (n, ds @ [aux]))\<rparr>"
    using p s1 by (simp add: democracy_second_def)
  then show ?thesis
    using ok s1(1) v unfolding proposals_ok_def by (auto simp: views)
next
  case False
  then have "pub_view s' = pub_view s"
    using p reserve_views(1) [of aux _ s]
    by (auto simp: democracy_second_def split: option.splits Option.bind_splits sum.splits)
  then show ?thesis by (auto dest!: pub_view_ok [OF _ ok])
qed

text \<open>
  The steps of the module.  \<open>Other\<close> is a step of another module, which does not touch the
  proposals.
\<close>

inductive democracy_step :: "(nat \<Rightarrow> nat) \<Rightarrow> ('p, ('a, 'k, 'p, 'z) dem) dispatcher \<Rightarrow>
    ('a, 'k, 'p, 'z) dem \<Rightarrow> ('a, 'k, 'p, 'z) dem \<Rightarrow> bool" for isqrt dispatch where
  Propose: "democracy_propose aux p amount s = Some (r, s') \<Longrightarrow> democracy_step isqrt dispatch s s'"
| Second: "democracy_second aux i s = Some (r, s') \<Longrightarrow> democracy_step isqrt dispatch s s'"
| Vote: "democracy_vote aux i v s = (r, s') \<Longrightarrow> democracy_step isqrt dispatch s s'"
| Start: "start_referendum p t s = Some (r, s') \<Longrightarrow> democracy_step isqrt dispatch s s'"
| Cancel: "cancel_referendum i s = (r, s') \<Longrightarrow> democracy_step isqrt dispatch s s'"
| End_block: "democracy_end_block isqrt dispatch now s = Some (r, s') \<Longrightarrow> democracy_step isqrt dispatch s s'"
| Other: "pub_view s' = pub_view s \<Longrightarrow> democracy_step isqrt dispatch s s'"

lemma end_block_ok:
  assumes d: "keeps_proposals dispatch"
    and ok: "proposals_ok s" and e: "democracy_end_block isqrt dispatch now s = Some (r, s')"
  shows "proposals_ok s' \<and> dem_public_prop_count s' = dem_public_prop_count s"
proof -
  obtain q s1 where q: "(if now mod dem_launch_period s = 0 then launch_public now s else (Inr (), s)) = (q, s1)"
    by (metis surj_pair)
  have s1: "proposals_ok s1 \<and> dem_public_prop_count s1 = dem_public_prop_count s"
    using q launch_public_ok [OF ok, of now q s1] ok by (auto split: if_splits)
  have "(case q of Inl m \<Rightarrow> Some (Inl m, s1)
       | Inr _ \<Rightarrow> tally_referenda isqrt dispatch (maturing_referendums_at now s1) s1) = Some (r, s')"
    using e unfolding democracy_end_block_def q by (simp split: Option.bind_splits)
  then have "pub_view s' = pub_view s1"
    by (auto dest!: tally_referenda_pub [OF d] split: sum.splits)
  then show ?thesis using pub_view_ok s1 by metis
qed

lemma democracy_step_ok:
  assumes d: "keeps_proposals dispatch"
    and st: "democracy_step isqrt dispatch s s'" and ok: "proposals_ok s" and c: "dem_public_prop_count s + 1 < 2 ^ 32"
  shows "proposals_ok s' \<and> dem_public_prop_count s' \<le> dem_public_prop_count s + 1"
  using st
proof cases
  case (Propose aux p amount r)
  then show ?thesis by (rule propose_ok [OF ok c])
next
  case (Second aux i r)
  then show ?thesis by (auto dest!: second_ok [OF ok])
next
  case (End_block now r)
  then show ?thesis by (auto dest!: end_block_ok [OF d ok])
next
  case (Vote aux i v r)
  then have "pub_view s' = pub_view s"
    by (auto simp: democracy_vote_def views Let_def split: if_splits)
  then show ?thesis by (auto dest!: pub_view_ok [OF _ ok])
next
  case (Start p t r)
  then obtain e where "s' = snd (inject_referendum e p t s)"
    by (auto simp: start_referendum_def internal_start_referendum_def split_beta split: Option.bind_splits)
  then have "pub_view s' = pub_view s" by simp
  then show ?thesis by (auto dest!: pub_view_ok [OF _ ok])
next
  case (Cancel i r)
  then have "pub_view s' = pub_view s" by (auto simp: cancel_referendum_def)
  then show ?thesis by (auto dest!: pub_view_ok [OF _ ok])
next
  case Other
  then show ?thesis by (auto dest!: pub_view_ok [OF _ ok])
qed

lemma democracy_genesis_ok [simp]:
  "proposals_ok (democracy_build_storage c s0)" "dem_public_prop_count (democracy_build_storage c s0) = 0"
  by (simp_all add: proposals_ok_def democracy_build_storage_def Staking.Staking.defs Democracy.Democracy.defs)

lemma democracy_steps_ok:
  assumes d: "keeps_proposals dispatch"
  shows "(democracy_step isqrt dispatch ^^ n) s s' \<Longrightarrow> proposals_ok s \<Longrightarrow>
    dem_public_prop_count s + n < 2 ^ 32 \<Longrightarrow> proposals_ok s' \<and> dem_public_prop_count s' \<le> dem_public_prop_count s + n"
proof (induction n arbitrary: s')
  case (Suc n)
  then obtain t where t: "(democracy_step isqrt dispatch ^^ n) s t" "democracy_step isqrt dispatch t s'" by auto
  have ih: "proposals_ok t \<and> dem_public_prop_count t \<le> dem_public_prop_count s + n" using Suc t(1) by simp
  have "dem_public_prop_count t + 1 < 2 ^ 32" using ih Suc.prems(3) by linarith
  then have "proposals_ok s' \<and> dem_public_prop_count s' \<le> dem_public_prop_count t + 1"
    using democracy_step_ok [OF d t(2)] ih by blast
  then show ?case using ih by linarith
qed simp


definition sample_democracy :: "(nat, nat, nat) Democracy" where
  "sample_democracy = democracy_build_storage democracy_new_config
    (build_storage [1, 2, 3] [] 5 10 [1, 2, 3] 30 simple_config)"

definition sample_proposed :: "(nat, nat, nat) Democracy" where
  "sample_proposed = (case democracy_propose 1 7 10 sample_democracy of Some (_, s) \<Rightarrow> s | None \<Rightarrow> sample_democracy)"

lemmas sample_democracy_defs = sample_democracy_def democracy_build_storage_def democracy_new_config_def
  build_storage_def simple_config_def genesis_balances_def Staking.Staking.defs Democracy.Democracy.defs

lemmas sample_ops = democracy_propose_def reserve_def free_balance_def unlock_block_def bondage_def
  reserved_balance_def set_reserved_balance_def set_free_balance_def max_block_number_def

lemma sample_proposed_step: "democracy_propose 1 7 10 sample_democracy = Some (Inr (), sample_proposed)"
  by (simp add: sample_proposed_def sample_democracy_defs sample_ops)



section \<open>Referenda\<close>

text \<open>
  The referenda that have not been tallied lie between the two counters, in the order of their end blocks,
  none of which has passed.
\<close>

definition referenda_ok :: "nat \<Rightarrow> ('a, 'k, 'p, 'z) dem \<Rightarrow> bool" where
  "referenda_ok now s \<longleftrightarrow>
    0 < dem_voting_period s \<and> now + dem_voting_period s < 2 ^ 64 \<and>
    dem_next_tally s \<le> dem_referendum_count s \<and> dem_referendum_count s < 2 ^ 32 \<and>
    (\<forall>i e p t. dem_referendum_info_of s i = Some (e, p, t) \<longrightarrow>
      dem_next_tally s \<le> i \<and> i < dem_referendum_count s \<and> now \<le> e \<and> e \<le> now + dem_voting_period s) \<and>
    (\<forall>i j e p t e' p' t'. i \<le> j \<longrightarrow> dem_referendum_info_of s i = Some (e, p, t) \<longrightarrow>
      dem_referendum_info_of s j = Some (e', p', t') \<longrightarrow> e \<le> e')"

text \<open>A proposal that is carried out without an error and without touching the referenda.\<close>

definition calm :: "('p, ('a, 'k, 'p, 'z) dem) dispatcher \<Rightarrow> 'p \<Rightarrow> bool" where
  "calm dispatch p \<longleftrightarrow> (\<forall>t. \<exists>t'. dispatch p t = Some (Inr (), t') \<and> ref_view t' = ref_view t)"

lemma approved_Some: "0 < isqrt el \<Longrightarrow> \<exists>b. approved isqrt t approve against el = Some b"
  by (cases t) (auto simp: approved_def Let_def compare_rationals_correct)

lemma set_map_filter: "set (List.map_filter f xs) = {y. \<exists>x \<in> set xs. f x = Some y}"
  by (force simp: List.map_filter_def)

lemma set_active_referendums:
  "set (active_referendums s) = {(i, e, p, t). dem_next_tally s \<le> i \<and> i < dem_referendum_count s \<and>
     dem_referendum_info_of s i = Some (e, p, t)}"
  by (force simp: active_referendums_def map_filter_def)

lemma takeWhile_sorted:
  assumes "sorted_wrt (\<lambda>x y. f x \<le> f y) xs" "\<forall>x \<in> set xs. (n::nat) \<le> f x"
  shows "takeWhile (\<lambda>x. f x = n) xs = filter (\<lambda>x. f x = n) xs"
  using assms
proof (induction xs)
  case (Cons x xs)
  show ?case
  proof (cases "f x = n")
    case False
    then have "\<forall>y \<in> set xs. f y \<noteq> n" using Cons.prems by fastforce
    then show ?thesis using False by (auto simp: filter_empty_conv)
  qed (use Cons in simp)
qed simp

lemma sorted_active_referendums:
  assumes "referenda_ok now s"
  shows "sorted_wrt (\<lambda>x y. fst x < fst y \<and> fst (snd x) \<le> fst (snd y)) (active_referendums s)"
proof -
  have mono: "i \<le> j \<Longrightarrow> dem_referendum_info_of s i = Some (e, p, t) \<Longrightarrow>
      dem_referendum_info_of s j = Some (e', p', t') \<Longrightarrow> e \<le> e'" for i j e p t e' p' t'
    using assms unfolding referenda_ok_def by blast
  have "sorted_wrt (\<lambda>x y. fst x < fst y \<and> fst (snd x) \<le> fst (snd y))
      (List.map_filter (\<lambda>i. map_option (\<lambda>(n, p, t). (i, n, p, t)) (dem_referendum_info_of s i)) is)"
    if "sorted_wrt (<) is" for "is"
    using that
  proof (induction "is")
    case (Cons i "is")
    then show ?case
      by (auto simp: List.map_filter_simps set_map_filter split: option.splits intro: mono [OF less_imp_le])
  qed (simp add: List.map_filter_simps)
  then show ?thesis unfolding active_referendums_def by (simp add: sorted_wrt_upt)
qed

lemma maturing_referendums:
  assumes ok: "referenda_ok now s"
  shows "set (maturing_referendums_at now s) = {(i, e, p, t). dem_referendum_info_of s i = Some (e, p, t) \<and> e = now}"
    "sorted_wrt (\<lambda>x y. fst x < fst y) (maturing_referendums_at now s)"
proof -
  note srt = sorted_active_referendums [OF ok]
  have "takeWhile (\<lambda>x. fst (snd x) = now) (active_referendums s) = filter (\<lambda>x. fst (snd x) = now) (active_referendums s)"
    using ok by (intro takeWhile_sorted sorted_wrt_mono_rel [OF _ srt])
      (auto simp: set_active_referendums referenda_ok_def)
  then have m: "maturing_referendums_at now s = filter (\<lambda>x. fst (snd x) = now) (active_referendums s)"
    unfolding maturing_referendums_at_def case_prod_beta' by (simp add: split_beta')
  show "set (maturing_referendums_at now s) = {(i, e, p, t). dem_referendum_info_of s i = Some (e, p, t) \<and> e = now}"
    using ok unfolding m by (auto simp: set_active_referendums referenda_ok_def)
  show "sorted_wrt (\<lambda>x y. fst x < fst y) (maturing_referendums_at now s)"
    unfolding m by (intro sorted_wrt_filter sorted_wrt_mono_rel [OF _ srt]) simp
qed

lemma tally_referenda_runs:
  assumes "\<forall>(i, e, p, t) \<in> set rs. calm dispatch p" "0 < isqrt (sta_total_stake s)"
  shows "\<exists>s'. tally_referenda isqrt dispatch rs s = Some (Inr (), s') \<and>
    ref_view s' = (dem_voting_period s, dem_referendum_count s,
      (if rs = [] then dem_next_tally s else u32 (fst (last rs) + 1)),
      (\<lambda>i. if i \<in> fst ` set rs then None else dem_referendum_info_of s i), sta_total_stake s)"
  using assms
proof (induction rs arbitrary: s)
  case (Cons x rs)
  obtain i e p th where x: "x = (i, e, p, th)" by (metis surj_pair)
  define s1 where "s1 = clear_referendum i s"
  have v1: "ref_view s1 = (dem_voting_period s, dem_referendum_count s, dem_next_tally s,
     (dem_referendum_info_of s)(i := None), sta_total_stake s)" by (simp add: s1_def)
  obtain b where b: "approved isqrt th (fst (democracy_tally s i)) (snd (democracy_tally s i)) (sta_total_stake s) = Some b"
    using approved_Some Cons.prems(2) by blast
  obtain s2 where s2: "dispatch p s1 = Some (Inr (), s2)" "ref_view s2 = ref_view s1"
    using Cons.prems(1) unfolding x by (auto simp: calm_def split: prod.splits) metis
  define t where "t = (if b then s2 else s1)\<lparr>dem_next_tally := u32 (i + 1)\<rparr>"
  have step: "tally_referenda isqrt dispatch (x # rs) s = tally_referenda isqrt dispatch rs t"
    using b s2(1) unfolding x by (simp add: split_beta s1_def [symmetric] t_def)
  have vt: "ref_view t = (dem_voting_period s, dem_referendum_count s, u32 (i + 1),
     (dem_referendum_info_of s)(i := None), sta_total_stake s)"
    using v1 s2(2) by (auto simp: t_def ref_view_def)
  then have "0 < isqrt (sta_total_stake t)" using Cons.prems(2) by (simp add: ref_view_def)
  moreover have "\<forall>(i, e, p, t) \<in> set rs. calm dispatch p" using Cons.prems(1) by simp
  ultimately obtain s' where s': "tally_referenda isqrt dispatch rs t = Some (Inr (), s')"
    "ref_view s' = (dem_voting_period t, dem_referendum_count t,
      (if rs = [] then dem_next_tally t else u32 (fst (last rs) + 1)),
      (\<lambda>i. if i \<in> fst ` set rs then None else dem_referendum_info_of t i), sta_total_stake t)"
    using Cons.IH by blast
  show ?case
    using s' vt unfolding step by (intro exI [of _ s']) (auto simp: x ref_view_def fun_eq_iff)
qed (simp add: ref_view_def)

lemma referenda_okD:
  assumes "referenda_ok now s" "dem_referendum_info_of s i = Some (e, p, t)"
  shows "dem_next_tally s \<le> i" "i < dem_referendum_count s" "now \<le> e" "e \<le> now + dem_voting_period s"
  using assms unfolding referenda_ok_def by blast+

lemma referenda_ok_mono:
  "referenda_ok now s \<Longrightarrow> i \<le> j \<Longrightarrow> dem_referendum_info_of s i = Some (e, p, t) \<Longrightarrow>
   dem_referendum_info_of s j = Some (e', p', t') \<Longrightarrow> e \<le> e'"
  unfolding referenda_ok_def by blast

lemma referenda_ok_inject:
  assumes ok: "referenda_ok now s" and c: "dem_referendum_count s + 1 < 2 ^ 32"
    and v: "dem_voting_period s' = dem_voting_period s" "dem_referendum_count s' = dem_referendum_count s + 1"
      "dem_next_tally s' = dem_next_tally s"
      "dem_referendum_info_of s' = (dem_referendum_info_of s)(dem_referendum_count s \<mapsto> (now + dem_voting_period s, q, th))"
  shows "referenda_ok now s'"
proof -
  have nt: "dem_next_tally s \<le> dem_referendum_count s" using ok by (simp add: referenda_ok_def)
  have A: "dem_next_tally s \<le> i" "i < dem_referendum_count s + 1" "now \<le> e" "e \<le> now + dem_voting_period s"
    if "dem_referendum_info_of s' i = Some (e, p, t)" for i e p t
    using that referenda_okD [OF ok, of i e p t] nt
    by (cases "i = dem_referendum_count s"; simp add: v(4))+
  have B: "e \<le> e'" if "i \<le> j" "dem_referendum_info_of s' i = Some (e, p, t)"
    "dem_referendum_info_of s' j = Some (e', p', t')" for i j e p t e' p' t'
  proof (cases "j = dem_referendum_count s")
    case True
    then have "e' = now + dem_voting_period s" using that(3) by (simp add: v(4))
    then show ?thesis using A(4) [OF that(2)] by simp
  next
    case False
    then have j: "dem_referendum_info_of s j = Some (e', p', t')" using that(3) by (simp add: v(4))
    then have "i \<noteq> dem_referendum_count s" using referenda_okD(2) [OF ok j] that(1) by simp
    then have "dem_referendum_info_of s i = Some (e, p, t)" using that(2) by (simp add: v(4))
    then show ?thesis using referenda_ok_mono [OF ok that(1) _ j] by blast
  qed
  have base: "0 < dem_voting_period s" "now + dem_voting_period s < 2 ^ 64"
    using ok by (simp_all add: referenda_ok_def)
  show ?thesis
    unfolding referenda_ok_def v(1,2,3)
    by (intro conjI allI impI; (erule A | erule B | (use base c nt in simp))?)
qed

lemma referenda_ok_fresh: "referenda_ok now s \<Longrightarrow> dem_referendum_count s \<le> i \<Longrightarrow> dem_referendum_info_of s i = None"
  by (cases "dem_referendum_info_of s i") (auto dest: referenda_okD(2))

text \<open>A launch at the end of a block adds at most one referendum, which ends a voting period later.\<close>

lemma launch_public_runs:
  assumes p: "proposals_ok s" and ok: "referenda_ok now s" and c: "dem_referendum_count s + 1 < 2 ^ 32"
  shows "\<exists>s'. launch_public now s = (Inr (), s') \<and> referenda_ok now s' \<and>
    sta_total_stake s' = sta_total_stake s \<and> dem_voting_period s' = dem_voting_period s \<and>
    (\<forall>i e p t. dem_referendum_info_of s i = Some (e, p, t) \<longrightarrow> dem_referendum_info_of s' i = Some (e, p, t)) \<and>
    (\<forall>i p t. dem_referendum_info_of s' i = Some (now, p, t) \<longrightarrow> dem_referendum_info_of s i = Some (now, p, t))"
  using p
proof (cases rule: launch_public_cases [where now = now])
  case none
  then show ?thesis using ok by auto
next
  case (winner j i p who d l s3 r s4)
  let ?c = "dem_referendum_count s" and ?e = "now + dem_voting_period s"
  have e: "u64 ?e = ?e" "0 < dem_voting_period s" and cc: "u32 (?c + 1) = ?c + 1"
    using ok c by (simp_all add: referenda_ok_def)
  have v: "dem_referendum_count s3 = ?c" "dem_referendum_info_of s3 = dem_referendum_info_of s"
    "dem_next_tally s3 = dem_next_tally s" "dem_voting_period s3 = dem_voting_period s" "sta_total_stake s3 = sta_total_stake s"
    using winner(6) by (simp_all add: ref_view_def)
  have last: "\<not> (case dem_referendum_info_of s (?c - 1) of Some i \<Rightarrow> fst i > ?e | None \<Rightarrow> False)"
    using referenda_okD(4) [OF ok, of "?c - 1"] by (auto split: option.splits)
  have r: "r = Inr ?c" "s4 = s3\<lparr>dem_referendum_count := ?c + 1,
      dem_referendum_info_of := (dem_referendum_info_of s)(?c \<mapsto> (?e, p, SuperMajorityApprove))\<rparr>"
    using winner(7) last unfolding inject_referendum_def Let_def v e cc by auto
  have "referenda_ok now s4"
    by (rule referenda_ok_inject [OF ok c]) (simp_all add: r v)
  then show ?thesis
    using winner(8) referenda_ok_fresh [OF ok] e(2) unfolding r by (intro exI [of _ s4]) (auto simp: v r)
qed

text \<open>The privileged calls between two block ends keep the order of the referenda.\<close>

lemma start_referendum_ok:
  assumes ok: "referenda_ok now s" and c: "dem_referendum_count s + 1 < 2 ^ 32" and n: "sys_number s = Some now"
  shows "\<exists>s'. start_referendum p t s = Some (Inr (), s') \<and> referenda_ok now s'"
proof -
  let ?c = "dem_referendum_count s" and ?e = "now + dem_voting_period s"
  define s' where "s' = s\<lparr>dem_referendum_count := ?c + 1,
      dem_referendum_info_of := (dem_referendum_info_of s)(?c \<mapsto> (?e, p, t))\<rparr>"
  have e: "u64 ?e = ?e" and cc: "u32 (?c + 1) = ?c + 1" using ok c by (simp_all add: referenda_ok_def)
  have "\<not> (case dem_referendum_info_of s (?c - 1) of Some i \<Rightarrow> fst i > ?e | None \<Rightarrow> False)"
    using referenda_okD(4) [OF ok, of "?c - 1"] by (auto split: option.splits)
  then have "inject_referendum ?e p t s = (Inr ?c, s')"
    unfolding inject_referendum_def Let_def cc s'_def by simp
  then have "start_referendum p t s = Some (Inr (), s')"
    unfolding start_referendum_def internal_start_referendum_def n by (simp only: e Option.bind.bind_lunit) simp
  moreover have "referenda_ok now s'" by (rule referenda_ok_inject [OF ok c]) (simp_all add: s'_def)
  ultimately show ?thesis by blast
qed

lemma cancel_referendum_ok:
  assumes ok: "referenda_ok now s"
  shows "referenda_ok now (snd (cancel_referendum i s))"
proof -
  have "ref_view (snd (cancel_referendum i s)) = (dem_voting_period s, dem_referendum_count s, dem_next_tally s,
     (dem_referendum_info_of s)(i := None), sta_total_stake s)" by (simp add: cancel_referendum_def)
  then have v: "dem_voting_period (snd (cancel_referendum i s)) = dem_voting_period s"
    "dem_referendum_count (snd (cancel_referendum i s)) = dem_referendum_count s"
    "dem_next_tally (snd (cancel_referendum i s)) = dem_next_tally s"
    "dem_referendum_info_of (snd (cancel_referendum i s)) = (dem_referendum_info_of s)(i := None)"
    by (simp_all add: ref_view_def)
  show ?thesis using ok unfolding referenda_ok_def v by (simp add: fun_upd_apply)
qed

lemma sorted_last:
  "sorted_wrt (\<lambda>x y. fst x < fst y) xs \<Longrightarrow> x \<in> set xs \<Longrightarrow> fst x \<le> (fst (last xs) :: nat)"
  by (induction xs) (auto dest: bspec [OF _ last_in_set] less_imp_le)

lemma tallied_ok:
  assumes ok: "referenda_ok now s" and b: "now + 1 + dem_voting_period s < 2 ^ 64"
    and rs: "set rs = {(i, e, p, t). dem_referendum_info_of s i = Some (e, p, t) \<and> e = now}"
      "sorted_wrt (\<lambda>x y. fst x < fst y) rs"
    and v: "ref_view s' = (dem_voting_period s, dem_referendum_count s,
      (if rs = [] then dem_next_tally s else u32 (fst (last rs) + 1)),
      (\<lambda>i. if i \<in> fst ` set rs then None else dem_referendum_info_of s i), sta_total_stake s)"
  shows "referenda_ok (now + 1) s'" "\<forall>i \<in> fst ` set rs. i < dem_next_tally s'"
proof -
  have m: "i \<in> fst ` set rs \<longleftrightarrow> (\<exists>p t. dem_referendum_info_of s i = Some (now, p, t))" for i
    unfolding rs(1) by force
  have last: "rs \<noteq> [] \<Longrightarrow> \<exists>p t. dem_referendum_info_of s (fst (last rs)) = Some (now, p, t)"
    using m last_in_set by blast
  have nt: "dem_next_tally s' = (if rs = [] then dem_next_tally s else fst (last rs) + 1)"
  proof (cases "rs = []")
    case False
    then have "fst (last rs) < dem_referendum_count s" using last referenda_okD(2) [OF ok] by blast
    then have "u32 (fst (last rs) + 1) = fst (last rs) + 1" using ok by (simp add: referenda_ok_def)
    moreover have "dem_next_tally s' = u32 (fst (last rs) + 1)" using v False unfolding ref_view_def by (simp only: prod.inject if_False)
    ultimately show ?thesis using False by simp
  qed (use v in \<open>simp add: ref_view_def\<close>)
  show "\<forall>i \<in> fst ` set rs. i < dem_next_tally s'"
    unfolding nt by (auto simp: less_Suc_eq_le dest: sorted_last [OF rs(2)])
  have info: "dem_referendum_info_of s' i = Some (e, p, t) \<longleftrightarrow> dem_referendum_info_of s i = Some (e, p, t) \<and> e \<noteq> now" for i e p t
    using v m [of i] by (auto simp: ref_view_def)
  have c: "dem_voting_period s' = dem_voting_period s" "dem_referendum_count s' = dem_referendum_count s"
    using v by (simp_all add: ref_view_def)
  have A: "dem_next_tally s' \<le> i" if i: "dem_referendum_info_of s i = Some (e, p, t)" "e \<noteq> now" for i e p t
  proof (cases "rs = []")
    case False
    have "\<not> i \<le> fst (last rs)"
      using last [OF False] i referenda_ok_mono [OF ok _ i(1)] referenda_okD(3) [OF ok i(1)] by fastforce
    then show ?thesis using False by (simp add: nt)
  qed (use referenda_okD(1) [OF ok i(1)] in \<open>simp add: nt\<close>)
  have B: "now + 1 \<le> e \<and> e \<le> now + 1 + dem_voting_period s"
    if i: "dem_referendum_info_of s i = Some (e, p, t)" "e \<noteq> now" for i e p t
    using referenda_okD(3,4) [OF ok i(1)] i(2) by linarith
  have base: "0 < dem_voting_period s" "dem_referendum_count s < 2 ^ 32" "dem_next_tally s \<le> dem_referendum_count s"
    using ok by (simp_all add: referenda_ok_def)
  have C: "dem_next_tally s' \<le> dem_referendum_count s"
    using last referenda_okD(2) [OF ok] base(3) unfolding nt by (metis Suc_eq_plus1 Suc_leI)
  show "referenda_ok (now + 1) s'"
    unfolding referenda_ok_def info c
  proof (intro conjI allI impI)
    fix i e p t assume "dem_referendum_info_of s i = Some (e, p, t) \<and> e \<noteq> now"
    then show "dem_next_tally s' \<le> i" "i < dem_referendum_count s" "now + 1 \<le> e" "e \<le> now + 1 + dem_voting_period s"
      using A B referenda_okD(2) [OF ok] by blast+
  next
    fix i j e p t e' p' t'
    assume "i \<le> j" "dem_referendum_info_of s i = Some (e, p, t) \<and> e \<noteq> now"
      "dem_referendum_info_of s j = Some (e', p', t') \<and> e' \<noteq> now"
    then show "e \<le> e'" using referenda_ok_mono [OF ok] by blast
  qed (use base b C in auto)
qed


lemmas sample_launched_defs = sample_proposed_def sample_ops sample_democracy_defs


text \<open>
  A proposal that cannot be carried out stops the tally: the referenda that mature with it stay, and since the
  first of them ends in a block that has passed, no later one is ever found to mature.
\<close>

definition sample_two_referenda :: "(nat, nat, nat) Democracy" where
  "sample_two_referenda = sample_democracy\<lparr>dem_referendum_count := 2, dem_launch_period := 1000,
     dem_referendum_info_of := [0 \<mapsto> (4, 7, SimpleMajority), 1 \<mapsto> (4, 8, SimpleMajority)],
     dem_voters_for := [0 \<mapsto> [1]], dem_vote_of := [(0, 1) \<mapsto> True]\<rparr>"

lemma sample_two_mature: "maturing_referendums_at 4 sample_two_referenda = [(0, 4, 7, SimpleMajority), (1, 4, 8, SimpleMajority)]"
  by (simp add: sample_two_referenda_def sample_democracy_defs maturing_referendums_at_def active_referendums_def
      List.map_filter_simps upt_rec)

lemma failed_dispatch_strands:
  "\<exists>s'. democracy_end_block (\<lambda>n. if n = 0 then 0 else 1) (\<lambda>p s. Some (if p = 7 then Inl ''failed'' else Inr (), s)) 4
      sample_two_referenda = Some (Inl ''failed'', s') \<and>
    dem_referendum_info_of s' 1 = Some (4, 8, SimpleMajority) \<and> dem_vote_of s' (0, 1) = Some True \<and>
    (\<forall>n. n \<noteq> 4 \<longrightarrow> maturing_referendums_at n s' = [])"
proof -
  let ?s' = "clear_referendum 0 sample_two_referenda"
  have t: "democracy_tally sample_two_referenda 0 = (111, 0)" "sta_total_stake sample_two_referenda = 111"
    by (simp_all add: democracy_tally_def sample_two_referenda_def sample_democracy_defs voting_balance_def
        free_balance_def reserved_balance_def)
  have a: "approved (\<lambda>n. if n = 0 then 0 else 1) SimpleMajority 111 0 111 = Some True"
    by (simp add: approved_def)
  have l: "dem_launch_period sample_two_referenda = 1000"
    by (simp add: sample_two_referenda_def)
  have "democracy_end_block (\<lambda>n. if n = 0 then 0 else 1) (\<lambda>p s. Some (if p = 7 then Inl ''failed'' else Inr (), s)) 4
      sample_two_referenda = Some (Inl ''failed'', ?s')"
    unfolding democracy_end_block_def l by (simp add: sample_two_mature t a)
  moreover have "dem_referendum_info_of ?s' 1 = Some (4, 8, SimpleMajority)" "dem_vote_of ?s' (0, 1) = Some True"
    by (simp_all add: clear_referendum_def sample_two_referenda_def)
  moreover have "active_referendums ?s' = [(1, 4, 8, SimpleMajority)]"
    by (simp add: clear_referendum_def active_referendums_def sample_two_referenda_def sample_democracy_defs
        List.map_filter_simps upt_rec)
  ultimately show ?thesis by (intro exI [of _ ?s']) (simp add: maturing_referendums_at_def)
qed

end
