(* ===== verification/Council.thy ===== *)
theory Council
  imports Democracy
begin

text \<open>
  The \<^verbatim>\<open>council\<close> module: approval voting for the seats of the council
  (\<^verbatim>\<open>src/substrate/runtime/council/src/lib.rs\<close>) and the motions of the council
  (\<^verbatim>\<open>src/substrate/runtime/council/src/voting.rs\<close>).  \<^verbatim>\<open>AccountId::default()\<close>, which marks a hole in the list
  of candidates, is \<open>0\<close>.  The fields of the two modules carry their storage prefixes, \<open>cou_\<close> and
  \<open>cov_\<close>.
\<close>

record ('a, 'k, 'p) Council = "('a, 'k, 'p) Democracy" +
  cou_candidacy_bond :: nat
  cou_voting_bond :: nat
  cou_present_slash_per_voter :: nat
  cou_carry_count :: nat
  cou_presentation_duration :: nat
  cou_inactivity_grace_period :: nat
  cou_voting_period :: nat
  cou_term_duration :: nat
  cou_desired_seats :: nat
  cou_active_council :: "('a \<times> nat) list"
  cou_vote_index :: nat
  cou_approvals_of :: "'a \<rightharpoonup> bool list"
  cou_candidate_reg_info :: "'a \<rightharpoonup> nat \<times> nat"
  cou_voter_last_active :: "'a \<rightharpoonup> nat"
  cou_voters :: "'a list"
  cou_candidates :: "'a list"
  cou_candidate_count :: nat
  cou_next_finalise :: "(nat \<times> nat \<times> 'a list) option"
  cou_snapshoted_stakes :: "nat list option"
  cou_leaderboard :: "(nat \<times> 'a) list option"
  cov_cooloff_period :: nat
  cov_voting_period :: nat
  cov_proposals :: "(nat \<times> hash) list"
  cov_proposal_of :: "hash \<rightharpoonup> 'p"
  cov_proposal_voters :: "hash \<rightharpoonup> 'a list"
  cov_vote_of :: "hash \<times> 'a \<rightharpoonup> bool"
  cov_veto_of :: "hash \<rightharpoonup> nat \<times> 'a list"

type_synonym ('a, 'k, 'p, 'z) cou = "('a, 'k, 'p, 'z) Council_scheme"


section \<open>Reading the state of an election\<close>

definition presentation_active :: "('a, 'k, 'p, 'z) cou \<Rightarrow> bool" where
  "presentation_active s \<longleftrightarrow> cou_next_finalise s \<noteq> None"

definition is_a_candidate :: "('a, 'k, 'p, 'z) cou \<Rightarrow> 'a \<Rightarrow> bool" where
  "is_a_candidate s who \<longleftrightarrow> cou_candidate_reg_info s who \<noteq> None"

definition next_vote_from :: "('a, 'k, 'p, 'z) cou \<Rightarrow> nat \<Rightarrow> nat option" where
  "next_vote_from s n = (let voting_period = cou_voting_period s in do {
    assert (voting_period \<noteq> 0);
    Some (u64 (sub64 (u64 (n + voting_period)) 1 div voting_period * voting_period))
  })"

text \<open>Outside the inner option is the panic, inside it the \<^verbatim>\<open>None\<close> of a council with no seats.\<close>

definition council_next_tally :: "('a, 'k, 'p, 'z) cou \<Rightarrow> nat option option" where
  "council_next_tally s =
    (let desired_seats = cou_desired_seats s; c = cou_active_council s in
     if desired_seats = 0 then Some None
     else do {
       (next_possible, count, coming) \<leftarrow> (case cou_next_finalise s of
           Some (tally_end, comers, leavers) \<Rightarrow>
             Some (tally_end, u64 (sub64 (length c) (length leavers) + comers), comers)
         | None \<Rightarrow> do { n \<leftarrow> sys_number s; Some (n, length c, 0) });
       at \<leftarrow> (if count < desired_seats then Some next_possible
         else if desired_seats \<le> coming then Some (u64 (next_possible + cou_term_duration s))
         else map_option snd (get_at c (sub64 (length c) (desired_seats - coming))));
       map_option Some (next_vote_from s at)
     })"


section \<open>Voters\<close>

definition approvals_of :: "('a, 'k, 'p, 'z) cou \<Rightarrow> 'a \<Rightarrow> bool list" where
  "approvals_of s who = or_default [] (cou_approvals_of s who)"

definition set_approvals :: "'a \<Rightarrow> bool list \<Rightarrow> nat \<Rightarrow> ('a, 'k, 'p, 'z) cou \<Rightarrow> ('a, 'k, 'p, 'z) cou outcome" where
  "set_approvals aux votes index s =
    (if presentation_active s then Some (Inl ''no approval changes during presentation period'', s)
     else if index \<noteq> cou_vote_index s then Some (Inl ''incorrect vote index'', s)
     else do {
       (r, s1) \<leftarrow> (if cou_voter_last_active s aux = None
         then do {
           (r, s1) \<leftarrow> reserve aux (cou_voting_bond s) s;
           Some (case r of Inl e \<Rightarrow> (Inl e, s1)
                         | Inr _ \<Rightarrow> (Inr (), s1\<lparr>cou_voters := cou_voters s1 @ [aux]\<rparr>))
         }
         else Some (Inr (), s));
       Some (case r of Inl e \<Rightarrow> (Inl e, s1)
         | Inr _ \<Rightarrow> (Inr (), s1\<lparr>cou_approvals_of := (cou_approvals_of s1)(aux \<mapsto> votes),
                               cou_voter_last_active := (cou_voter_last_active s1)(aux \<mapsto> index)\<rparr>))
     })"

definition remove_voter :: "'a \<Rightarrow> nat \<Rightarrow> 'a list \<Rightarrow> ('a, 'k, 'p, 'z) cou \<Rightarrow> ('a, 'k, 'p, 'z) cou" where
  "remove_voter voter index voters s =
    s\<lparr>cou_voters := swap_remove voters index,
      cou_approvals_of := (cou_approvals_of s)(voter := None),
      cou_voter_last_active := (cou_voter_last_active s)(voter := None)\<rparr>"

text \<open>The difference of two \<^verbatim>\<open>u32\<close> values, which wraps below zero.\<close>

definition sub32 :: "nat \<Rightarrow> nat \<Rightarrow> nat" where
  "sub32 a b = u32 (a + (2 ^ 32 - b))"

text \<open>No approval of \<open>who\<close> is for a candidate who was registered when it was given.\<close>

definition approvals_moot :: "('a::zero, 'k, 'p, 'z) cou \<Rightarrow> 'a \<Rightarrow> nat \<Rightarrow> bool" where
  "approvals_moot s who last_active \<longleftrightarrow>
    \<not> list_ex (\<lambda>(appr, addr). appr \<and> addr \<noteq> 0 \<and>
        (case cou_candidate_reg_info s addr of None \<Rightarrow> False | Some x \<Rightarrow> fst x \<le> last_active))
      (zip (approvals_of s who) (cou_candidates s))"

definition reap_inactive_voter :: "'a::zero \<Rightarrow> nat \<Rightarrow> ('a, nat) address \<Rightarrow> nat \<Rightarrow> nat \<Rightarrow> ('a, 'k, 'p, 'z) cou \<Rightarrow>
    (string + unit) \<times> ('a, 'k, 'p, 'z) cou" where
  "reap_inactive_voter aux signed_index target who_index assumed_vote_index s =
    (case lookup s target of Inl e \<Rightarrow> (Inl e, s) | Inr who \<Rightarrow>
     if presentation_active s then (Inl ''cannot reap during presentation period'', s)
     else if cou_voter_last_active s aux = None then (Inl ''reaper must be a voter'', s)
     else case cou_voter_last_active s who of
       None \<Rightarrow> (Inl ''target for inactivity cleanup must be active'', s)
     | Some last_active \<Rightarrow>
       let voters = cou_voters s in
       if assumed_vote_index \<noteq> cou_vote_index s then (Inl ''vote index not current'', s)
       else if \<not> last_active < sub32 assumed_vote_index (cou_inactivity_grace_period s)
         then (Inl ''cannot reap during grace perid'', s)
       else if \<not> (signed_index < length voters \<and> voters ! signed_index = aux) then (Inl ''bad reporter index'', s)
       else if \<not> (who_index < length voters \<and> voters ! who_index = who) then (Inl ''bad target index'', s)
       else
         let valid = approvals_moot s who last_active;
             s1 = remove_voter (if valid then who else aux) (if valid then who_index else signed_index) voters s in
         if valid then
           (case transfer_reserved who aux (cou_voting_bond s1) s1 of (r, s2) \<Rightarrow> (map_sum id (\<lambda>_. ()) r, s2))
         else (Inr (), snd (slash_reserved aux (cou_voting_bond s1) s1)))"

definition retract_voter :: "'a \<Rightarrow> nat \<Rightarrow> ('a, 'k, 'p, 'z) cou \<Rightarrow> (string + unit) \<times> ('a, 'k, 'p, 'z) cou" where
  "retract_voter aux index s =
    (let voters = cou_voters s in
     if presentation_active s then (Inl ''cannot retract when presenting'', s)
     else if cou_voter_last_active s aux = None then (Inl ''cannot retract non-voter'', s)
     else if \<not> index < length voters then (Inl ''retraction index invalid'', s)
     else if voters ! index \<noteq> aux then (Inl ''retraction index mismatch'', s)
     else
       let s1 = remove_voter aux index voters s in
       (Inr (), snd (unreserve aux (cou_voting_bond s1) s1)))"


section \<open>Candidates\<close>

definition submit_candidacy :: "'a::zero \<Rightarrow> nat \<Rightarrow> ('a, 'k, 'p, 'z) cou \<Rightarrow> ('a, 'k, 'p, 'z) cou outcome" where
  "submit_candidacy aux slot s =
    (let count = cou_candidate_count s; candidates = cou_candidates s in
     if is_a_candidate s aux then Some (Inl ''duplicate candidate submission'', s)
     else if \<not> ((slot = count \<and> count = length candidates) \<or> (slot < length candidates \<and> candidates ! slot = 0))
       then Some (Inl ''invalid candidate slot'', s)
     else do {
       (r, s1) \<leftarrow> reserve aux (cou_candidacy_bond s) s;
       Some (case r of
           Inl _ \<Rightarrow> (Inl ''candidate has not enough funds'', s1)
         | Inr _ \<Rightarrow> (Inr (), s1\<lparr>
             cou_candidates := (if slot = length candidates then candidates @ [aux] else candidates[slot := aux]),
             cou_candidate_count := u32 (count + 1),
             cou_candidate_reg_info := (cou_candidate_reg_info s1)(aux \<mapsto> (cou_vote_index s1, slot))\<rparr>))
     })"

text \<open>The stake behind a candidate, from the snapshot taken when the vote ended.\<close>

definition actual_total :: "('a, 'k, 'p, 'z) cou \<Rightarrow> nat \<Rightarrow> nat \<Rightarrow> nat list \<Rightarrow> nat" where
  "actual_total s registered_since candidate_index stakes =
    foldl (\<lambda>acc n. u128 (acc + n)) 0
      (List.map_filter (\<lambda>(voter, stake). case cou_voter_last_active s voter of
           Some b \<Rightarrow> if b \<ge> registered_since
             then (case get_at (approvals_of s voter) candidate_index of
                     Some ap \<Rightarrow> if ap then Some stake else None | None \<Rightarrow> None)
             else None
         | None \<Rightarrow> None)
        (zip (cou_voters s) stakes))"

definition present_winner :: "'a \<Rightarrow> ('a, nat) address \<Rightarrow> nat \<Rightarrow> nat \<Rightarrow> ('a, 'k, 'p, 'z) cou \<Rightarrow>
    ('a, 'k, 'p, 'z) cou outcome" where
  "present_winner aux target claimed index s =
    (case lookup s target of Inl e \<Rightarrow> Some (Inl e, s) | Inr candidate \<Rightarrow>
     if index \<noteq> cou_vote_index s then Some (Inl ''index not current'', s)
     else case cou_next_finalise s of
       None \<Rightarrow> Some (Inl ''cannot present outside of presentation period'', s)
     | Some (_, _, expiring) \<Rightarrow> do {
         stakes \<leftarrow> cou_snapshoted_stakes s;
         let voters = cou_voters s;
         let punishment = u128 (cou_present_slash_per_voter s * length voters);
         (if \<not> can_slash s aux punishment
          then Some (Inl ''presenter must have sufficient slashable funds'', s)
          else case cou_leaderboard s of
            None \<Rightarrow> Some (Inl ''leaderboard must exist while present phase active'', s)
          | Some leaderboard \<Rightarrow> do {
              least \<leftarrow> get_at leaderboard 0;
              (if \<not> claimed > fst least then Some (Inl ''candidate not worthy of leaderboard'', s)
               else if (let p = length (takeWhile (\<lambda>(c, _). c \<noteq> candidate) (cou_active_council s)) in
                        p < length (cou_active_council s) \<and> \<not> p < length expiring)
                 then Some (Inl ''candidate must not form a duplicated member if elected'', s)
               else case cou_candidate_reg_info s candidate of
                 None \<Rightarrow> Some (Inl ''presented candidate must be current'', s)
               | Some (registered_since, candidate_index) \<Rightarrow>
                   let actual = actual_total s registered_since candidate_index stakes;
                       dupe = list_ex (\<lambda>(_, c). c = candidate) leaderboard in
                   if claimed = actual \<and> \<not> dupe
                   then Some (Inr (), s\<lparr>cou_leaderboard :=
                     Some (sort_key fst (leaderboard[0 := (claimed, candidate)]))\<rparr>)
                   else Some (Inl (if dupe then ''duplicate presentation'' else ''incorrect total''),
                     snd (slash aux punishment s)))
            })
       })"


section \<open>Privileged calls\<close>

definition set_desired_seats :: "nat \<Rightarrow> ('a, 'k, 'p, 'z) cou \<Rightarrow> (string + unit) \<times> ('a, 'k, 'p, 'z) cou" where
  "set_desired_seats n s = (Inr (), s\<lparr>cou_desired_seats := n\<rparr>)"

definition remove_member :: "('a, nat) address \<Rightarrow> ('a, 'k, 'p, 'z) cou \<Rightarrow> (string + unit) \<times> ('a, 'k, 'p, 'z) cou" where
  "remove_member target s = (case lookup s target of Inl e \<Rightarrow> (Inl e, s) | Inr who \<Rightarrow>
    (Inr (), s\<lparr>cou_active_council := filter (\<lambda>i. fst i \<noteq> who) (cou_active_council s)\<rparr>))"

definition set_presentation_duration :: "nat \<Rightarrow> ('a, 'k, 'p, 'z) cou \<Rightarrow> (string + unit) \<times> ('a, 'k, 'p, 'z) cou" where
  "set_presentation_duration n s = (Inr (), s\<lparr>cou_presentation_duration := n\<rparr>)"

definition set_term_duration :: "nat \<Rightarrow> ('a, 'k, 'p, 'z) cou \<Rightarrow> (string + unit) \<times> ('a, 'k, 'p, 'z) cou" where
  "set_term_duration n s = (Inr (), s\<lparr>cou_term_duration := n\<rparr>)"


section \<open>The tally\<close>

definition start_tally :: "('a::zero, 'k, 'p, 'z) cou \<Rightarrow> ('a, 'k, 'p, 'z) cou option" where
  "start_tally s = do {
    number \<leftarrow> sys_number s;
    let active_council = cou_active_council s;
    let desired_seats = cou_desired_seats s;
    let expiring = map fst (takeWhile (\<lambda>i. snd i = number) active_council);
    let kept = length active_council - length expiring;
    Some (if kept < desired_seats
      then let empty_seats = desired_seats - kept in
        s\<lparr>cou_next_finalise := Some (u64 (number + cou_presentation_duration s), u32 empty_seats, expiring),
          cou_snapshoted_stakes := Some (map (voting_balance s) (cou_voters s)),
          cou_leaderboard := Some (replicate (empty_seats + cou_carry_count s) (0, 0))\<rparr>
      else s)
  }"

text \<open>The entries of a leaderboard that were presented, best first.\<close>

definition presented :: "(nat \<times> 'a) list \<Rightarrow> (nat \<times> 'a) list" where
  "presented leaderboard = takeWhile (\<lambda>(b, _). b \<noteq> 0) (rev leaderboard)"

definition new_council :: "nat \<Rightarrow> nat \<Rightarrow> 'a list \<Rightarrow> (nat \<times> 'a) list \<Rightarrow> ('a \<times> nat) list \<Rightarrow> ('a \<times> nat) list" where
  "new_council new_expiry coming expiring leaderboard active =
    sort_key snd (drop (length expiring) active @
      map (\<lambda>(_, a). (a, new_expiry)) (take coming (presented leaderboard)))"

text \<open>Putting the runners-up back in their slots; a slot out of range panics.\<close>

fun keep_candidates :: "('a \<times> nat) list \<Rightarrow> nat \<Rightarrow> 'a list \<Rightarrow> ('a list \<times> nat) option" where
  "keep_candidates [] kept new_candidates = Some (new_candidates, kept)"
| "keep_candidates ((address, slot) # rs) kept new_candidates = do {
    assert (slot < length new_candidates);
    keep_candidates rs (u32 (kept + 1)) (new_candidates[slot := address])
  }"

text \<open>\<^verbatim>\<open>truncate(rposition + 1)\<close>; a list of holes only stays as it is.\<close>

definition discard_slots :: "'a::zero list \<Rightarrow> 'a list" where
  "discard_slots xs = (if list_ex (\<lambda>c. c \<noteq> 0) xs then rev (dropWhile (\<lambda>c. c = 0) (rev xs)) else xs)"

definition finalise_tally :: "('a::zero, 'k, 'p, 'z) cou \<Rightarrow> ('a, 'k, 'p, 'z) cou outcome" where
  "finalise_tally s =
    (let s1 = s\<lparr>cou_snapshoted_stakes := None\<rparr> in
     case cou_next_finalise s1 of
       None \<Rightarrow> Some (Inl ''finalise can only be called after a tally is started.'', s1)
     | Some (_, coming, expiring) \<Rightarrow> do {
         let leaderboard = or_default [] (cou_leaderboard s1);
         let s2 = s1\<lparr>cou_next_finalise := None, cou_leaderboard := None\<rparr>;
         number \<leftarrow> sys_number s2;
         let new_expiry = u64 (number + cou_term_duration s2);
         let s3 = fold (\<lambda>(_, w) t. snd (unreserve w (cou_candidacy_bond s2) t)) (take coming (presented leaderboard)) s2;
         let s4 = s3\<lparr>cou_active_council := new_council new_expiry coming expiring leaderboard (cou_active_council s3)\<rparr>;
         let candidates = cou_candidates s4;
         let runners_up = List.map_filter (\<lambda>(_, a). map_option (\<lambda>i. (a, snd i)) (cou_candidate_reg_info s4 a))
           (drop coming (presented leaderboard));
         (new_candidates, count) \<leftarrow> keep_candidates runners_up 0 (replicate (length candidates) 0);
         Some (Inr (), s4\<lparr>
           cou_candidate_reg_info := fold (\<lambda>(old, new) m. if old \<noteq> new then m(old := None) else m)
             (zip candidates new_candidates) (cou_candidate_reg_info s4),
           cou_candidates := discard_slots new_candidates,
           cou_candidate_count := count,
           cou_vote_index := u32 (cou_vote_index s4 + 1)\<rparr>)
       })"

definition council_end_block :: "nat \<Rightarrow> ('a::zero, 'k, 'p, 'z) cou \<Rightarrow> ('a, 'k, 'p, 'z) cou outcome" where
  "council_end_block block_number s = do {
    assert (cou_voting_period s \<noteq> 0);
    s1 \<leftarrow> (if block_number mod cou_voting_period s = 0
      then do {
        next \<leftarrow> council_next_tally s;
        (case next of
           Some number \<Rightarrow> if block_number = number then start_tally s else Some s
         | None \<Rightarrow> Some s)
      }
      else Some s);
    (case cou_next_finalise s1 of
       Some (number, _, _) \<Rightarrow> if block_number = number then finalise_tally s1 else Some (Inr (), s1)
     | None \<Rightarrow> Some (Inr (), s1))
  }"


section \<open>Motions\<close>

definition is_vetoed :: "('a, 'k, 'p, 'z) cou \<Rightarrow> hash \<Rightarrow> bool option" where
  "is_vetoed s p = (case cov_veto_of s p of
      Some (expiry, _) \<Rightarrow> map_option (\<lambda>n. n < expiry) (sys_number s)
    | None \<Rightarrow> Some False)"

definition will_still_be_councillor_at :: "('a, 'k, 'p, 'z) cou \<Rightarrow> 'a \<Rightarrow> nat \<Rightarrow> bool" where
  "will_still_be_councillor_at s who n =
    (case find (\<lambda>(a, _). a = who) (cou_active_council s) of Some (_, expires) \<Rightarrow> expires > n | None \<Rightarrow> False)"

definition is_councillor :: "('a, 'k, 'p, 'z) cou \<Rightarrow> 'a \<Rightarrow> bool" where
  "is_councillor s who \<longleftrightarrow> list_ex (\<lambda>(a, _). a = who) (cou_active_council s)"

text \<open>
  The votes of the sitting council.  \<open>taking\<close> is \<^verbatim>\<open>CouncilVoteOf::take\<close>, which removes each vote as it is
  read, so that a member listed twice counts once.
\<close>

fun council_votes :: "bool \<Rightarrow> hash \<Rightarrow> 'a list \<Rightarrow> (hash \<times> 'a \<rightharpoonup> bool) \<Rightarrow> bool list \<times> (hash \<times> 'a \<rightharpoonup> bool)" where
  "council_votes taking h [] votes = ([], votes)"
| "council_votes taking h (a # as) votes =
    (let (vs, votes') = council_votes taking h as (if taking then votes((h, a) := None) else votes) in
     (case votes (h, a) of Some v \<Rightarrow> (v # vs, votes') | None \<Rightarrow> (vs, votes')))"

definition generic_tally :: "bool \<Rightarrow> hash \<Rightarrow> ('a, 'k, 'p, 'z) cou \<Rightarrow> (nat \<times> nat \<times> nat) \<times> ('a, 'k, 'p, 'z) cou" where
  "generic_tally taking h s =
    (let c = map fst (cou_active_council s);
         (vs, votes) = council_votes taking h c (cov_vote_of s);
         (approve, reject) = foldl (\<lambda>(a, b) (c, d). (u32 (a + c), u32 (b + d))) (0, 0)
           (map (\<lambda>v. if v then (1, 0) else (0, 1)) vs) in
     ((approve, reject, sub32 (sub32 (u32 (length c)) approve) reject), s\<lparr>cov_vote_of := votes\<rparr>))"

definition voting_tally :: "hash \<Rightarrow> ('a, 'k, 'p, 'z) cou \<Rightarrow> nat \<times> nat \<times> nat" where
  "voting_tally h s = fst (generic_tally False h s)"

definition take_tally :: "hash \<Rightarrow> ('a, 'k, 'p, 'z) cou \<Rightarrow> (nat \<times> nat \<times> nat) \<times> ('a, 'k, 'p, 'z) cou" where
  "take_tally h s = generic_tally True h s"

definition set_proposals :: "(nat \<times> hash) list \<Rightarrow> ('a, 'k, 'p, 'z) cou \<Rightarrow> ('a, 'k, 'p, 'z) cou" where
  "set_proposals ps s = s\<lparr>cov_proposals := ps\<rparr>"

definition voting_propose :: "('p \<Rightarrow> hash) \<Rightarrow> 'a \<Rightarrow> 'p \<Rightarrow> ('a, 'k, 'p, 'z) cou \<Rightarrow> ('a, 'k, 'p, 'z) cou outcome" where
  "voting_propose hash_of aux p s = do {
    n \<leftarrow> sys_number s;
    let expiry = u64 (n + cov_voting_period s);
    (if \<not> will_still_be_councillor_at s aux expiry then Some (Inl ''proposer would not be on council'', s)
     else let h = hash_of p in
       if cov_proposal_of s h \<noteq> None then Some (Inl ''duplicate proposals not allowed'', s)
       else do {
         vetoed \<leftarrow> is_vetoed s h;
         Some (if vetoed then (Inl ''proposal is vetoed'', s)
           else let s1 = set_proposals (sort_key fst (cov_proposals s @ [(expiry, h)])) s in
             (Inr (), s1\<lparr>cov_proposal_of := (cov_proposal_of s1)(h \<mapsto> p),
                        cov_proposal_voters := (cov_proposal_voters s1)(h \<mapsto> [aux]),
                        cov_vote_of := (cov_vote_of s1)((h, aux) \<mapsto> True)\<rparr>))
       })
  }"

definition voting_vote :: "'a \<Rightarrow> hash \<Rightarrow> bool \<Rightarrow> ('a, 'k, 'p, 'z) cou \<Rightarrow> (string + unit) \<times> ('a, 'k, 'p, 'z) cou" where
  "voting_vote aux h approve s =
    (let s1 = (if cov_vote_of s (h, aux) = None
         then s\<lparr>cov_proposal_voters := (cov_proposal_voters s)(h \<mapsto> or_default [] (cov_proposal_voters s h) @ [aux])\<rparr>
         else s) in
     (Inr (), s1\<lparr>cov_vote_of := (cov_vote_of s1)((h, aux) \<mapsto> approve)\<rparr>))"

text \<open>\<^verbatim>\<open>binary_search\<close> on a sorted vector: where the element is, or where it belongs.\<close>

definition binary_search :: "'x::linorder list \<Rightarrow> 'x \<Rightarrow> nat + nat" where
  "binary_search xs x =
    (let i = length (takeWhile (\<lambda>y. y < x) xs) in if x \<in> set xs then Inr i else Inl i)"

definition set_veto_of :: "hash \<Rightarrow> nat \<Rightarrow> 'a list \<Rightarrow> ('a, 'k, 'p, 'z) cou \<Rightarrow> ('a, 'k, 'p, 'z) cou" where
  "set_veto_of h expiry vetoers s = s\<lparr>cov_veto_of := (cov_veto_of s)(h \<mapsto> (expiry, vetoers))\<rparr>"

definition kill_veto_of :: "hash \<Rightarrow> ('a, 'k, 'p, 'z) cou \<Rightarrow> ('a, 'k, 'p, 'z) cou" where
  "kill_veto_of h s = s\<lparr>cov_veto_of := (cov_veto_of s)(h := None)\<rparr>"

definition voting_veto :: "'a::linorder \<Rightarrow> hash \<Rightarrow> ('a, 'k, 'p, 'z) cou \<Rightarrow> ('a, 'k, 'p, 'z) cou outcome" where
  "voting_veto aux h s =
    (if \<not> is_councillor s aux then Some (Inl ''only councillors may veto council proposals'', s)
     else if cov_proposal_voters s h = None then Some (Inl ''proposal must exist to be vetoed'', s)
     else
       let existing_vetoers = (case cov_veto_of s h of Some (_, vs) \<Rightarrow> vs | None \<Rightarrow> []) in
       case binary_search existing_vetoers aux of
         Inr _ \<Rightarrow> Some (Inl ''a councillor may not veto a proposal twice'', s)
       | Inl i \<Rightarrow> do {
           n \<leftarrow> sys_number s;
           let s1 = set_veto_of h (u64 (n + cov_cooloff_period s))
             (take i existing_vetoers @ aux # drop i existing_vetoers) s;
           let s2 = set_proposals (filter (\<lambda>(_, h'). h' \<noteq> h) (cov_proposals s1)) s1;
           Some (Inr (), s2\<lparr>cov_proposal_voters := (cov_proposal_voters s2)(h := None),
             cov_proposal_of := (cov_proposal_of s2)(h := None),
             cov_vote_of := fold (\<lambda>(c, _) m. m((h, c) := None)) (cou_active_council s2) (cov_vote_of s2)\<rparr>)
         })"

definition set_cooloff_period :: "nat \<Rightarrow> ('a, 'k, 'p, 'z) cou \<Rightarrow> (string + unit) \<times> ('a, 'k, 'p, 'z) cou" where
  "set_cooloff_period blocks s = (Inr (), s\<lparr>cov_cooloff_period := blocks\<rparr>)"

definition set_voting_period :: "nat \<Rightarrow> ('a, 'k, 'p, 'z) cou \<Rightarrow> (string + unit) \<times> ('a, 'k, 'p, 'z) cou" where
  "set_voting_period blocks s = (Inr (), s\<lparr>cov_voting_period := blocks\<rparr>)"

definition take_proposal_if_expiring_at :: "nat \<Rightarrow> ('a, 'k, 'p, 'z) cou \<Rightarrow> ('p \<times> hash) option \<times> ('a, 'k, 'p, 'z) cou" where
  "take_proposal_if_expiring_at n s = (case cov_proposals s of
      (expiry, h) # ps \<Rightarrow>
        if expiry = n then
          let s1 = set_proposals ps s in
          (map_option (\<lambda>p. (p, h)) (cov_proposal_of s1 h), s1\<lparr>cov_proposal_of := (cov_proposal_of s1)(h := None)\<rparr>)
        else (None, s)
    | [] \<Rightarrow> (None, s))"

text \<open>
  What the end of the voting on one motion does.  \<open>as_cancel\<close> is \<^verbatim>\<open>IsSubType\<close>: the referendum
  of a proposal that cancels one.
\<close>

definition resolve_motion :: "('p \<Rightarrow> nat option) \<Rightarrow> 'p \<Rightarrow> hash \<Rightarrow> ('a, 'k, 'p, 'z) cou \<Rightarrow> ('a, 'k, 'p, 'z) cou outcome" where
  "resolve_motion as_cancel p h s =
    (let (tally, s1) = take_tally h s; (approve, reject, absent) = tally in
     case as_cancel p of
       Some ref_index \<Rightarrow>
         Some (Inr (), if reject = 0 \<and> absent = 0 then internal_cancel_referendum ref_index s1 else s1)
     | None \<Rightarrow>
         if approve > u32 (reject + absent) then
           let s2 = kill_veto_of h s1 in do {
             (r, s3) \<leftarrow> internal_start_referendum p
               (if reject = 0 \<and> absent = 0 then SuperMajorityAgainst else SimpleMajority) s2;
             Some (map_sum id (\<lambda>_. ()) r, s3)
           }
         else Some (Inr (), s1))"

lemma take_proposal_shrinks:
  "take_proposal_if_expiring_at n s = (Some ph, s') \<Longrightarrow> length (cov_proposals s') < length (cov_proposals s)"
  by (auto simp: take_proposal_if_expiring_at_def set_proposals_def Let_def split: list.splits if_splits)

lemma inject_referendum_motions [simp]: "cov_proposals (snd (inject_referendum e p t s)) = cov_proposals s"
  by (simp add: inject_referendum_def Let_def)

lemma resolve_motion_shrinks:
  "resolve_motion as_cancel p h s = Some (r, s') \<Longrightarrow> cov_proposals s' = cov_proposals s"
  by (auto simp: resolve_motion_def take_tally_def generic_tally_def Let_def split_beta kill_veto_of_def
      internal_cancel_referendum_def clear_referendum_def internal_start_referendum_def
      split: option.splits if_splits Option.bind_splits)

function voting_end_block :: "('p \<Rightarrow> nat option) \<Rightarrow> nat \<Rightarrow> ('a, 'k, 'p, 'z) cou \<Rightarrow> ('a, 'k, 'p, 'z) cou outcome" where
  "voting_end_block as_cancel now s =
    (case take_proposal_if_expiring_at now s of
       (None, s1) \<Rightarrow> Some (Inr (), s1)
     | (Some (p, h), s1) \<Rightarrow>
         (case resolve_motion as_cancel p h s1 of
            None \<Rightarrow> None
          | Some (Inl e, s2) \<Rightarrow> Some (Inl e, s2)
          | Some (Inr _, s2) \<Rightarrow> voting_end_block as_cancel now s2))"
  by pat_completeness auto
termination
  by (relation "measure (\<lambda>(_, _, s). length (cov_proposals s))")
    (auto dest!: take_proposal_shrinks [OF sym] resolve_motion_shrinks)

definition council_execute :: "('p \<Rightarrow> nat option) \<Rightarrow> ('a::zero, 'k, 'p, 'z) cou \<Rightarrow> ('a, 'k, 'p, 'z) cou option" where
  "council_execute as_cancel s = do {
    n \<leftarrow> sys_number s;
    (_, s1) \<leftarrow> council_end_block n s;
    (_, s2) \<leftarrow> voting_end_block as_cancel n s1;
    Some s2
  }"


section \<open>Genesis\<close>

record 'a council_config =
  cgc_candidacy_bond :: nat
  cgc_voter_bond :: nat
  cgc_present_slash_per_voter :: nat
  cgc_carry_count :: nat
  cgc_active_council :: "('a \<times> nat) list"
  cgc_approval_voting_period :: nat
  cgc_presentation_duration :: nat
  cgc_desired_seats :: nat
  cgc_term_duration :: nat
  cgc_inactive_grace_period :: nat
  cgc_cooloff_period :: nat
  cgc_voting_period :: nat

definition council_default_config :: "'a council_config" where
  "council_default_config =
    \<lparr>cgc_candidacy_bond = 9, cgc_voter_bond = 0, cgc_present_slash_per_voter = 1, cgc_carry_count = 2,
     cgc_active_council = [], cgc_approval_voting_period = 1000, cgc_presentation_duration = 1000,
     cgc_desired_seats = 0, cgc_term_duration = 5, cgc_inactive_grace_period = 1,
     cgc_cooloff_period = 1000, cgc_voting_period = 3\<rparr>"

text \<open>The grace period is written as a block number and read as a vote index: its low half.\<close>

definition council_build_storage :: "'a council_config \<Rightarrow> ('a, 'k, 'p) Democracy \<Rightarrow> ('a, 'k, 'p) Council" where
  "council_build_storage c s = Democracy.Democracy.extend s (Council.Council.fields
    (cgc_candidacy_bond c) (cgc_voter_bond c) (cgc_present_slash_per_voter c) (cgc_carry_count c)
    (cgc_presentation_duration c) (u32 (cgc_inactive_grace_period c)) (cgc_approval_voting_period c)
    (cgc_term_duration c) (cgc_desired_seats c) (cgc_active_council c) 0 Map.empty Map.empty Map.empty [] [] 0
    None None None (cgc_cooloff_period c) (cgc_voting_period c) [] Map.empty Map.empty Map.empty Map.empty)"

end
