(* ===== verification/Council_Proofs.thy ===== *)
theory Council_Proofs
  imports Council
begin

text \<open>
  What holds of the council: the storage of elections stays well formed, the best of the presented candidates are
  elected, and motions carry by an absolute majority.  The lemmas under \<open>What elections do not do\<close> show where the
  source departs from its documentation.
\<close>

section \<open>What the balance operations leave alone\<close>

definition balances_only :: "('a, 'k, 'z) sta \<Rightarrow> ('a, 'k, 'z) sta \<Rightarrow> bool" where
  "balances_only s s' \<longleftrightarrow> (\<exists>n f g b c st. s' = s\<lparr>sys_account_nonce := n, sta_bondage := b,
     sta_free_balance := f, sta_reserved_balance := g, sta_code_of := c, sta_storage_of := st\<rparr>)"

lemma balances_onlyI:
  "s' = s\<lparr>sys_account_nonce := sys_account_nonce s', sta_bondage := sta_bondage s',
     sta_free_balance := sta_free_balance s', sta_reserved_balance := sta_reserved_balance s',
     sta_code_of := sta_code_of s', sta_storage_of := sta_storage_of s'\<rparr> \<Longrightarrow> balances_only s s'"
  unfolding balances_only_def by blast

lemma balances_only_refl [simp, intro]: "balances_only s s"
  by (rule balances_onlyI) simp

lemma balances_only_trans [trans]: "balances_only s t \<Longrightarrow> balances_only t u \<Longrightarrow> balances_only s u"
  unfolding balances_only_def by (elim exE) (simp, blast)

lemma on_too_low_balances:
  "balances_only s (on_free_too_low a s)" "balances_only s (on_reserved_too_low a s)"
  unfolding on_free_too_low_def on_reserved_too_low_def Let_def
  by (simp_all split: if_split add: balances_onlyI)

lemma set_free_balance_balances [simp]: "balances_only s (snd (set_free_balance a n s))"
  by (cases "n < sta_existential_deposit s")
    (simp_all add: set_free_balance_def on_too_low_balances balances_onlyI)

lemma set_reserved_balance_balances [simp]: "balances_only s (snd (set_reserved_balance a n s))"
  by (cases "n < sta_existential_deposit s")
    (simp_all add: set_reserved_balance_def on_too_low_balances balances_onlyI)

lemma reserve_balances: "reserve a n s = Some (r, s') \<Longrightarrow> balances_only s s'"
  by (auto simp: reserve_def Let_def split: if_splits Option.bind_splits
      intro: balances_only_trans [OF set_reserved_balance_balances set_free_balance_balances])

lemma unreserve_balances [simp]: "balances_only s (snd (unreserve a n s))"
  by (auto simp: unreserve_def Let_def intro: balances_only_trans [OF set_free_balance_balances set_reserved_balance_balances])

lemma unreserve_all_balances: "balances_only s (fold (\<lambda>x t. snd (unreserve (f x) n t)) xs s)"
  by (induction xs arbitrary: s) (auto intro: balances_only_trans [OF unreserve_balances])

lemma slash_reserved_balances [simp]: "balances_only s (snd (slash_reserved a n s))"
  by (simp add: slash_reserved_def Let_def)

lemma slash_balances [simp]: "balances_only s (snd (slash a n s))"
  by (auto simp: slash_def Let_def intro: balances_only_trans [OF set_free_balance_balances slash_reserved_balances])

lemma transfer_reserved_balances: "transfer_reserved a b n s = (r, s') \<Longrightarrow> balances_only s s'"
  by (auto simp: transfer_reserved_def Let_def split: if_splits
      intro: balances_only_trans [OF set_free_balance_balances set_reserved_balance_balances])

text \<open>The part of the storage that the elections depend on.\<close>

definition election_view where
  "election_view s = ((cou_voters s, cou_voter_last_active s, cou_approvals_of s),
     (cou_candidates s, cou_candidate_reg_info s, cou_candidate_count s, cou_vote_index s),
     (cou_next_finalise s, cou_snapshoted_stakes s, cou_leaderboard s))"

lemma balances_only_election:
  assumes "balances_only s (s' :: ('a, 'k, 'p, 'z) cou)"
  shows "election_view s' = election_view s" "cou_active_council s' = cou_active_council s" "sys_number s' = sys_number s"
    "cou_voting_period s' = cou_voting_period s" "cou_voting_bond s' = cou_voting_bond s"
  using assms by (auto simp: balances_only_def election_view_def)
section \<open>The invariant of elections\<close>

text \<open>Candidates: registration and the list with holes describe each other.\<close>

definition registry_ok :: "('a::zero, 'k, 'p, 'z) cou \<Rightarrow> bool" where
  "registry_ok s \<longleftrightarrow>
    (\<forall>a v i. cou_candidate_reg_info s a = Some (v, i) \<longrightarrow>
      a \<noteq> 0 \<and> i < length (cou_candidates s) \<and> cou_candidates s ! i = a) \<and>
    (\<forall>i < length (cou_candidates s). cou_candidates s ! i \<noteq> 0 \<longrightarrow>
      (\<exists>v. cou_candidate_reg_info s (cou_candidates s ! i) = Some (v, i))) \<and>
    cou_candidate_count s = length (filter (\<lambda>c. c \<noteq> 0) (cou_candidates s))"

text \<open>Voters: the list holds exactly those that have approvals, once each.\<close>

definition voters_ok :: "('a, 'k, 'p, 'z) cou \<Rightarrow> bool" where
  "voters_ok s \<longleftrightarrow> distinct (cou_voters s) \<and> set (cou_voters s) = dom (cou_voter_last_active s) \<and>
    dom (cou_approvals_of s) = dom (cou_voter_last_active s)"

text \<open>
  The presentation: the snapshot has a stake for every voter and the leaderboard is ordered; the candidates
  on it are distinct and registered, and stand there with the stake that approves of them.
\<close>

definition board_ok :: "('a, 'k, 'p, 'z) cou \<Rightarrow> nat list \<Rightarrow> (nat \<times> 'a) list \<Rightarrow> bool" where
  "board_ok s st lb \<longleftrightarrow>
    length st = length (cou_voters s) \<and> lb \<noteq> [] \<and> sorted (map fst lb) \<and>
    distinct (map snd (filter (\<lambda>x. fst x \<noteq> 0) lb)) \<and>
    (\<forall>t c. (t, c) \<in> set lb \<longrightarrow> t \<noteq> 0 \<longrightarrow>
      (\<exists>v i. cou_candidate_reg_info s c = Some (v, i) \<and> t = actual_total s v i st))"

definition presentation_ok :: "('a, 'k, 'p, 'z) cou \<Rightarrow> bool" where
  "presentation_ok s \<longleftrightarrow> (case cou_next_finalise s of
      None \<Rightarrow> cou_snapshoted_stakes s = None \<and> cou_leaderboard s = None
    | Some _ \<Rightarrow> \<exists>st lb. cou_snapshoted_stakes s = Some st \<and> cou_leaderboard s = Some lb \<and> board_ok s st lb)"

definition election_ok :: "('a::zero, 'k, 'p, 'z) cou \<Rightarrow> bool" where
  "election_ok s \<longleftrightarrow> registry_ok s \<and> voters_ok s \<and> presentation_ok s"

lemma election_view_fields:
  assumes "election_view s' = election_view s"
  shows "cou_voters s' = cou_voters s" "cou_voter_last_active s' = cou_voter_last_active s"
    "cou_approvals_of s' = cou_approvals_of s" "cou_candidates s' = cou_candidates s"
    "cou_candidate_reg_info s' = cou_candidate_reg_info s" "cou_candidate_count s' = cou_candidate_count s"
    "cou_vote_index s' = cou_vote_index s" "cou_next_finalise s' = cou_next_finalise s"
    "cou_snapshoted_stakes s' = cou_snapshoted_stakes s" "cou_leaderboard s' = cou_leaderboard s"
  using assms by (simp_all add: election_view_def)

lemma actual_total_cong:
  assumes "cou_voters s' = cou_voters s" "cou_voter_last_active s' = cou_voter_last_active s"
    "cou_approvals_of s' = cou_approvals_of s"
  shows "actual_total s' v i st = actual_total s v i st"
  unfolding actual_total_def approvals_of_def assms ..

lemma election_ok_view: "election_view s' = election_view s \<Longrightarrow> election_ok s \<Longrightarrow> election_ok s'"
  using election_view_fields [of s' s] actual_total_cong [of s' s]
  by (simp add: election_ok_def registry_ok_def voters_ok_def presentation_ok_def board_ok_def cong: option.case_cong)

text \<open>Voters come and go only outside the presentation.\<close>

lemma voters_change_ok:
  assumes ok: "election_ok s" and np: "\<not> presentation_active s"
    and v: "cou_candidates s' = cou_candidates s" "cou_candidate_reg_info s' = cou_candidate_reg_info s"
      "cou_candidate_count s' = cou_candidate_count s" "cou_next_finalise s' = cou_next_finalise s"
      "cou_snapshoted_stakes s' = cou_snapshoted_stakes s" "cou_leaderboard s' = cou_leaderboard s"
    and ok': "voters_ok s'"
  shows "election_ok s'"
proof -
  have "cou_next_finalise s = None" using np unfolding presentation_active_def by blast
  then show ?thesis using ok ok' by (simp add: election_ok_def registry_ok_def presentation_ok_def v)
qed

lemma set_approvals_ok:
  assumes ok: "election_ok s" and r: "set_approvals aux votes index s = Some (r, s')"
  shows "election_ok s' \<and> cou_candidates s' = cou_candidates s"
proof -
  consider (same) "election_view s' = election_view s"
    | (voter) "\<not> presentation_active s" "cou_voter_last_active s aux \<noteq> None"
        "s' = s\<lparr>cou_approvals_of := (cou_approvals_of s)(aux \<mapsto> votes),
                cou_voter_last_active := (cou_voter_last_active s)(aux \<mapsto> index)\<rparr>"
    | (new) s1 where "\<not> presentation_active s" "cou_voter_last_active s aux = None" "balances_only s s1"
        "s' = s1\<lparr>cou_voters := cou_voters s1 @ [aux], cou_approvals_of := (cou_approvals_of s1)(aux \<mapsto> votes),
                cou_voter_last_active := (cou_voter_last_active s1)(aux \<mapsto> index)\<rparr>"
  proof (cases "presentation_active s \<or> index \<noteq> cou_vote_index s")
    case True
    then show thesis using same r by (auto simp: set_approvals_def split: if_splits)
  next
    case False
    show thesis
    proof (cases "cou_voter_last_active s aux = None")
      case True
      then obtain q s1 where q: "reserve aux (cou_voting_bond s) s = Some (q, s1)"
        using r False by (auto simp: set_approvals_def split: Option.bind_splits)
      note b = reserve_balances [OF q]
      show thesis
      proof (cases q)
        case (Inl e)
        then have "s' = s1" using r False True q by (simp add: set_approvals_def)
        then show thesis using same balances_only_election(1) [OF b] by blast
      next
        case (Inr u)
        then show thesis using r False True q new [OF _ _ b] by (simp add: set_approvals_def)
      qed
    next
      case voter': False
      then show thesis using r False voter by (auto simp: set_approvals_def)
    qed
  qed
  then show ?thesis
  proof cases
    case same
    then show ?thesis using election_ok_view [OF same ok] election_view_fields(4) [OF same] by simp
  next
    case voter
    have "voters_ok s'" using ok voter(2) unfolding election_ok_def voters_ok_def voter(3) by auto
    then show ?thesis using voters_change_ok [OF ok voter(1), of s'] by (simp add: voter(3))
  next
    case new
    note f = election_view_fields [OF balances_only_election(1) [OF new(3)]]
    have "voters_ok s'" using ok new(2) unfolding election_ok_def voters_ok_def new(4) by (auto simp: f)
    then show ?thesis using voters_change_ok [OF ok new(1), of s'] by (simp add: new(4) f)
  qed
qed

lemma remove_voter_ok:
  assumes ok: "election_ok s" and np: "\<not> presentation_active s" and i: "i < length (cou_voters s)"
    and v: "cou_voters s ! i = who"
  shows "election_ok (remove_voter who i (cou_voters s) s)"
proof -
  have d: "distinct (map fst (map (\<lambda>x. (x, ())) (cou_voters s)))"
    using ok by (simp add: election_ok_def voters_ok_def comp_def)
  have m: "mset (swap_remove (cou_voters s) i) = mset (cou_voters s) - {#who#}" using swap_remove_mset [OF i] v by simp
  have add: "mset (cou_voters s) = mset (who # swap_remove (cou_voters s) i)"
    using m i v by (metis insert_DiffM mset.simps(2) nth_mem_mset)
  have "distinct (who # swap_remove (cou_voters s) i)"
    using ok mset_eq_imp_distinct_iff [OF add] by (simp add: election_ok_def voters_ok_def)
  moreover have "set (cou_voters s) = insert who (set (swap_remove (cou_voters s) i))"
    using mset_eq_setD [OF add] by simp
  ultimately have "voters_ok (remove_voter who i (cou_voters s) s)"
    using ok by (auto simp: election_ok_def voters_ok_def remove_voter_def)
  then show ?thesis by (intro voters_change_ok [OF ok np]) (simp_all add: remove_voter_def)
qed

lemma retract_voter_ok:
  assumes ok: "election_ok s" and r: "retract_voter aux index s = (r, s')"
  shows "election_ok s' \<and> cou_candidates s' = cou_candidates s"
proof (cases "\<not> presentation_active s \<and> index < length (cou_voters s) \<and> cou_voters s ! index = aux \<and>
    cou_voter_last_active s aux \<noteq> None")
  case True
  define s1 where "s1 = remove_voter aux index (cou_voters s) s"
  have s': "s' = snd (unreserve aux (cou_voting_bond s1) s1)"
    using r True by (simp add: retract_voter_def s1_def Let_def)
  have "election_ok s1" using remove_voter_ok [OF ok] True by (simp add: s1_def)
  moreover have "election_view s' = election_view s1" unfolding s' by (rule balances_only_election) simp
  moreover have "cou_candidates s1 = cou_candidates s" by (simp add: s1_def remove_voter_def)
  ultimately show ?thesis using election_ok_view [of s' s1] election_view_fields(4) [of s' s1] by simp
next
  case False
  then have "s' = s" using r by (auto simp: retract_voter_def Let_def split: if_splits)
  then show ?thesis using ok by simp
qed

lemma reap_inactive_voter_ok:
  assumes ok: "election_ok s" and r: "reap_inactive_voter aux si target wi ai s = (r, s')"
  shows "election_ok s' \<and> cou_candidates s' = cou_candidates s"
proof (cases "s' = s")
  case False
  obtain who i s1 where s1: "\<not> presentation_active s" "i < length (cou_voters s)" "cou_voters s ! i = who"
    "s1 = remove_voter who i (cou_voters s) s" "balances_only s1 s'"
  proof -
    obtain w l where w: "lookup s target = Inr w" "cou_voter_last_active s w = Some l" "\<not> presentation_active s"
      "si < length (cou_voters s)" "cou_voters s ! si = aux" "wi < length (cou_voters s)" "cou_voters s ! wi = w"
      "(let valid = approvals_moot s w l;
             s1 = remove_voter (if valid then w else aux) (if valid then wi else si) (cou_voters s) s in
         if valid then
           (case transfer_reserved w aux (cou_voting_bond s1) s1 of (r, s2) \<Rightarrow> (map_sum id (\<lambda>_. ()) r, s2))
         else (Inr (), snd (slash_reserved aux (cou_voting_bond s1) s1))) = (r, s')"
      using r False unfolding reap_inactive_voter_def Let_def by (auto split: sum.splits if_splits option.splits)
    show thesis
    proof (cases "approvals_moot s w l")
      case True
      then have "balances_only (remove_voter w wi (cou_voters s) s) s'"
        using w(8) by (auto simp: Let_def split: prod.splits intro: transfer_reserved_balances)
      then show thesis using that w by blast
    next
      case False
      then have "balances_only (remove_voter aux si (cou_voters s) s) s'" using w(8) by (auto simp: Let_def)
      then show thesis using that w by blast
    qed
  qed
  have "election_ok s1" using remove_voter_ok [OF ok s1(1,2,3)] s1(4) by simp
  moreover have "election_view s' = election_view s1" by (rule balances_only_election) (rule s1(5))
  moreover have "cou_candidates s1 = cou_candidates s" by (simp add: s1(4) remove_voter_def)
  ultimately show ?thesis using election_ok_view [of s' s1] election_view_fields(4) [of s' s1] by simp
qed (use ok in simp)
lemma registry_okD:
  assumes "registry_ok s"
  shows "cou_candidate_reg_info s a = Some (v, i) \<Longrightarrow> a \<noteq> 0 \<and> i < length (cou_candidates s) \<and> cou_candidates s ! i = a"
    "i < length (cou_candidates s) \<Longrightarrow> cou_candidates s ! i \<noteq> 0 \<Longrightarrow>
      \<exists>v. cou_candidate_reg_info s (cou_candidates s ! i) = Some (v, i)"
    "cou_candidate_count s = length (filter (\<lambda>c. c \<noteq> 0) (cou_candidates s))"
  using assms unfolding registry_ok_def by blast+

lemma registry_okI:
  assumes "\<And>a v i. cou_candidate_reg_info s a = Some (v, i) \<Longrightarrow>
      a \<noteq> 0 \<and> i < length (cou_candidates s) \<and> cou_candidates s ! i = a"
    "\<And>i. i < length (cou_candidates s) \<Longrightarrow> cou_candidates s ! i \<noteq> 0 \<Longrightarrow>
      \<exists>v. cou_candidate_reg_info s (cou_candidates s ! i) = Some (v, i)"
    "cou_candidate_count s = length (filter (\<lambda>c. c \<noteq> 0) (cou_candidates s))"
  shows "registry_ok s"
  using assms unfolding registry_ok_def by blast

text \<open>A new candidate does not touch the totals of the others.\<close>

lemma submit_registry:
  assumes ok: "registry_ok s" and a: "aux \<noteq> 0" "cou_candidate_reg_info s aux = None"
    and slot: "slot = cou_candidate_count s \<and> cou_candidate_count s = length (cou_candidates s) \<or>
      slot < length (cou_candidates s) \<and> cou_candidates s ! slot = 0"
    and l: "length (cou_candidates s) + 1 < 2 ^ 32"
    and v: "cou_candidates s' = (if slot = length (cou_candidates s) then cou_candidates s @ [aux] else (cou_candidates s)[slot := aux])"
      "cou_candidate_count s' = u32 (cou_candidate_count s + 1)"
      "cou_candidate_reg_info s' = (cou_candidate_reg_info s)(aux \<mapsto> (n, slot))"
  shows "registry_ok s'"
proof -
  let ?c = "cou_candidates s" and ?c' = "cou_candidates s'"
  note cnt = registry_okD(3) [OF ok]
  have "length (filter (\<lambda>c. c \<noteq> 0) ?c) \<le> length ?c" by (rule length_filter_le)
  then have "cou_candidate_count s + 1 < 2 ^ 32" using l cnt by linarith
  then have c': "cou_candidate_count s' = cou_candidate_count s + 1" unfolding v(2) by (rule mod_less)
  have sl: "slot \<le> length ?c" using slot by linarith
  have nth: "slot < length ?c'" "?c' ! slot = aux" "\<And>i. i \<noteq> slot \<Longrightarrow> i < length ?c' \<longleftrightarrow> i < length ?c"
    "\<And>i. i \<noteq> slot \<Longrightarrow> i < length ?c \<Longrightarrow> ?c' ! i = ?c ! i"
    using sl unfolding v(1) by (cases "slot = length ?c"; auto simp: nth_append less_Suc_eq)+
  have len: "length (filter (\<lambda>c. c \<noteq> 0) ?c') = length (filter (\<lambda>c. c \<noteq> 0) ?c) + 1"
  proof (cases "slot = length ?c")
    case False
    then have sl: "slot < length ?c" "?c ! slot = 0" using slot by auto
    define pre post where "pre = take slot ?c" and "post = drop (Suc slot) ?c"
    have "?c = pre @ 0 # post" using sl unfolding pre_def post_def by (metis id_take_nth_drop)
    then have "length (filter (\<lambda>c. c \<noteq> 0) ?c) = length (filter (\<lambda>c. c \<noteq> 0) (pre @ 0 # post))" by (rule arg_cong)
    moreover have "?c' = pre @ aux # post"
      unfolding v(1) pre_def post_def using False sl(1) by (simp add: upd_conv_take_nth_drop)
    then have "length (filter (\<lambda>c. c \<noteq> 0) ?c') = length (filter (\<lambda>c. c \<noteq> 0) (pre @ aux # post))" by (rule arg_cong)
    ultimately show ?thesis using a(1) by simp
  qed (use v(1) a(1) in simp)
  show ?thesis
  proof (rule registry_okI)
    fix b w i assume i: "cou_candidate_reg_info s' b = Some (w, i)"
    show "b \<noteq> 0 \<and> i < length ?c' \<and> ?c' ! i = b"
    proof (cases "b = aux")
      case False
      then have "cou_candidate_reg_info s b = Some (w, i)" using i v(3) by simp
      note old = registry_okD(1) [OF ok this]
      then have "i \<noteq> slot" using slot by auto
      then show ?thesis using old nth(3,4) by simp
    next
      case True
      then have "i = slot" using i v(3) by simp
      then show ?thesis using True a(1) nth(1,2) by blast
    qed
  next
    fix i assume i: "i < length ?c'" "?c' ! i \<noteq> 0"
    show "\<exists>w. cou_candidate_reg_info s' (?c' ! i) = Some (w, i)"
    proof (cases "i = slot")
      case False
      then have c: "i < length ?c" "?c' ! i = ?c ! i" using nth(3,4) i by blast+
      then obtain w where w: "cou_candidate_reg_info s (?c ! i) = Some (w, i)" using registry_okD(2) [OF ok] i(2) by metis
      then have "?c ! i \<noteq> aux" using a(2) by auto
      then show ?thesis using w c v(3) by simp
    next
      case True
      then show ?thesis using v(3) nth(2) by simp
    qed
  next
    show "cou_candidate_count s' = length (filter (\<lambda>c. c \<noteq> 0) ?c')" using c' cnt len by simp
  qed
qed

lemma submit_candidacy_ok:
  assumes ok: "election_ok s" and a: "aux \<noteq> 0" and l: "length (cou_candidates s) + 1 < 2 ^ 32"
    and r: "submit_candidacy aux slot s = Some (r, s')"
  shows "election_ok s' \<and> length (cou_candidates s') \<le> length (cou_candidates s) + 1"
proof (cases "s' = s")
  case False
  define G where "G = (slot = cou_candidate_count s \<and> cou_candidate_count s = length (cou_candidates s) \<or>
        slot < length (cou_candidates s) \<and> cou_candidates s ! slot = 0)"
  note r' = r [unfolded submit_candidacy_def Let_def G_def [symmetric] is_a_candidate_def]
  have G1: "cou_candidate_reg_info s aux = None"
    using r' False by (cases "cou_candidate_reg_info s aux") simp_all
  have G2: G using r' False G1 by (cases G) simp_all
  note G = G1 G2
  obtain q s1 where q: "reserve aux (cou_candidacy_bond s) s = Some (q, s1)"
    using r' G by (auto split: Option.bind_splits)
  note f = election_view_fields [OF balances_only_election(1) [OF reserve_balances [OF q]]]
  show ?thesis
  proof (cases q)
    case (Inl e)
    then have "s' = s1" using r' q G by simp
    then have v: "election_view s' = election_view s" using balances_only_election(1) [OF reserve_balances [OF q]] by simp
    then show ?thesis using election_ok_view [OF v ok] election_view_fields(4) [OF v] by simp
  next
    case (Inr u)
    have s': "s' = s1\<lparr>
             cou_candidates := (if slot = length (cou_candidates s) then cou_candidates s @ [aux] else (cou_candidates s)[slot := aux]),
             cou_candidate_count := u32 (cou_candidate_count s + 1),
             cou_candidate_reg_info := (cou_candidate_reg_info s1)(aux \<mapsto> (cou_vote_index s1, slot))\<rparr>"
      using r' q Inr G by simp
    have fs: "cou_voters s' = cou_voters s" "cou_voter_last_active s' = cou_voter_last_active s"
      "cou_approvals_of s' = cou_approvals_of s" "cou_next_finalise s' = cou_next_finalise s"
      "cou_snapshoted_stakes s' = cou_snapshoted_stakes s" "cou_leaderboard s' = cou_leaderboard s"
      "cou_candidates s' = (if slot = length (cou_candidates s) then cou_candidates s @ [aux] else (cou_candidates s)[slot := aux])"
      "cou_candidate_count s' = u32 (cou_candidate_count s + 1)"
      "cou_candidate_reg_info s' = (cou_candidate_reg_info s)(aux \<mapsto> (cou_vote_index s, slot))"
      unfolding s' by (simp_all add: f)
    have "registry_ok s" "voters_ok s" and p: "presentation_ok s" using ok by (simp_all add: election_ok_def)
    then have "registry_ok s'" "voters_ok s'"
      using submit_registry [OF _ a G [unfolded G_def] l fs(7,8,9)] by (simp_all add: voters_ok_def fs)
    moreover have "presentation_ok s'"
    proof -
      note t = actual_total_cong [OF fs(1,2,3)]
      have reg: "cou_candidate_reg_info s c = Some w \<Longrightarrow> cou_candidate_reg_info s' c = Some w" for c w
        using G(1) by (auto simp: fs)
      have "board_ok s st lb \<Longrightarrow> board_ok s' st lb" for st lb
        using reg unfolding board_ok_def t fs(1) by metis
      then show ?thesis
        using p unfolding presentation_ok_def fs by (auto split: option.splits)
    qed
    ultimately show ?thesis by (simp add: election_ok_def fs)
  qed
qed (use ok in simp)

text \<open>A presentation that is accepted replaces the least entry of the leaderboard.\<close>

lemma present_winner_cases:
  assumes r: "present_winner aux target claimed index s = Some (r, s')"
  obtains (rejected) e where "r = Inl e" "balances_only s s'"
  | (accepted) c te n ex st x lb v i where "r = Inr ()" "lookup s target = Inr c" "cou_next_finalise s = Some (te, n, ex)"
      "cou_snapshoted_stakes s = Some st" "cou_leaderboard s = Some (x # lb)" "fst x < claimed"
      "cou_candidate_reg_info s c = Some (v, i)" "claimed = actual_total s v i st" "c \<notin> snd ` set (x # lb)"
      "s' = s\<lparr>cou_leaderboard := Some (sort_key fst ((claimed, c) # lb))\<rparr>"
proof (cases "\<exists>e. r = Inl e")
  case True
  then have "balances_only s s'"
    using r unfolding present_winner_def Let_def
    by (auto split: sum.splits if_splits option.splits Option.bind_splits)
  then show thesis using True rejected by blast
next
  case False
  obtain c where c: "lookup s target = Inr c" "index = cou_vote_index s"
    using r False by (auto simp: present_winner_def split: sum.splits if_splits)
  then obtain te n ex where nf: "cou_next_finalise s = Some (te, n, ex)"
    using r False by (auto simp: present_winner_def split: option.splits)
  then obtain st where st: "cou_snapshoted_stakes s = Some st"
    using r False c by (auto simp: present_winner_def split: Option.bind_splits)
  obtain lb where lb: "cou_leaderboard s = Some lb"
    using r False c nf st by (auto simp: present_winner_def Let_def split: if_splits option.splits)
  obtain x xs where x: "lb = x # xs"
    using r False c nf st lb by (cases lb) (auto simp: present_winner_def Let_def get_at_def split: if_splits)
  obtain v i where v: "cou_candidate_reg_info s c = Some (v, i)"
    using r False c nf st lb x by (auto simp: present_winner_def Let_def get_at_def split: if_splits option.splits)
  show thesis
    by (rule accepted [OF _ c(1) nf st lb [unfolded x] _ v])
      (use r False c nf st lb x v in \<open>auto simp: present_winner_def Let_def get_at_def list_ex_iff split: if_splits\<close>)
qed

lemma present_winner_ok:
  assumes ok: "election_ok s" and r: "present_winner aux target claimed index s = Some (r, s')"
  shows "election_ok s' \<and> cou_candidates s' = cou_candidates s"
  using r
proof (cases rule: present_winner_cases)
  case (rejected e)
  note v = balances_only_election(1) [OF rejected(2)]
  then show ?thesis using election_ok_view [OF v ok] election_view_fields(4) [OF v] by blast
next
  case (accepted c te n ex st x lb v i)
  have b: "board_ok s st (x # lb)" using ok accepted by (simp add: election_ok_def presentation_ok_def)
  have t: "actual_total s' v i st = actual_total s v i st" for v i st
    by (rule actual_total_cong) (simp_all add: accepted(10))
  have "distinct (map snd (filter (\<lambda>y. fst y \<noteq> 0) (sort_key fst ((claimed, c) # lb))))"
  proof -
    have "mset (map snd (filter (\<lambda>y. fst y \<noteq> 0) (sort_key fst ((claimed, c) # lb)))) =
      mset (map snd (filter (\<lambda>y. fst y \<noteq> 0) ((claimed, c) # lb)))" by simp
    moreover have "distinct (map snd (filter (\<lambda>y. fst y \<noteq> 0) ((claimed, c) # lb)))"
      using b accepted(9) by (auto simp: board_ok_def split: if_splits)
    ultimately show ?thesis using mset_eq_imp_distinct_iff by blast
  qed
  moreover have "sort_key fst ((claimed, c) # lb) \<noteq> []" by (metis length_0_conv length_sort list.discI)
  moreover have "sorted (map fst (sort_key fst ((claimed, c) # lb)))" by (rule sorted_sort_key)
  moreover have "set (sort_key fst ((claimed, c) # lb)) = insert (claimed, c) (set lb)"
    by (simp del: sort_key_simps)
  ultimately have "board_ok s' st (sort_key fst ((claimed, c) # lb))"
    using b accepted(7,8) unfolding board_ok_def t by (auto simp: accepted(10) simp del: sort_key_simps)
  then show ?thesis
    using ok accepted by (auto simp: election_ok_def registry_ok_def voters_ok_def presentation_ok_def)
qed
lemma start_tally_cases:
  assumes r: "start_tally s = Some s'" and ne: "s' \<noteq> s"
  shows "\<exists>x n. 0 < n \<and> fst (snd x) \<le> n \<and>
    s' = s\<lparr>cou_next_finalise := Some x, cou_snapshoted_stakes := Some (map (voting_balance s) (cou_voters s)),
          cou_leaderboard := Some (replicate n (0, 0))\<rparr>"
proof -
  obtain number where n: "sys_number s = Some number"
    using r by (auto simp: start_tally_def split: Option.bind_splits)
  define expiring where "expiring = map fst (takeWhile (\<lambda>i. snd i = number) (cou_active_council s))"
  define kept where "kept = length (cou_active_council s) - length expiring"
  note r' = r [unfolded start_tally_def n Option.bind.bind_lunit Let_def, folded expiring_def, folded kept_def]
  define n where "n = cou_desired_seats s - kept + cou_carry_count s"
  define x where "x = (u64 (number + cou_presentation_duration s), u32 (cou_desired_seats s - kept), expiring)"
  have "kept < cou_desired_seats s" using r' ne by (cases "kept < cou_desired_seats s") simp_all
  moreover have "u32 (cou_desired_seats s - kept) \<le> n" unfolding n_def by (rule order_trans [OF mod_less_eq_dividend]) simp
  ultimately show ?thesis using r' by (intro exI [of _ x] exI [of _ n]) (simp add: n_def x_def)
qed

lemma start_tally_ok:
  assumes ok: "election_ok s" and r: "start_tally s = Some s'"
  shows "election_ok s' \<and> cou_candidates s' = cou_candidates s \<and> cou_vote_index s' = cou_vote_index s"
proof (cases "s' = s")
  case False
  obtain x n where s': "0 < n" "s' = s\<lparr>cou_next_finalise := Some x, cou_snapshoted_stakes := Some (map (voting_balance s) (cou_voters s)),
          cou_leaderboard := Some (replicate n (0, 0))\<rparr>"
    using start_tally_cases [OF r False] by blast
  have "board_ok s' (map (voting_balance s) (cou_voters s)) (replicate n (0, 0))"
    using s'(1) by (auto simp: board_ok_def s'(2) sorted_replicate)
  then have "presentation_ok s'" by (simp add: presentation_ok_def s'(2))
  then show ?thesis using ok by (simp add: election_ok_def registry_ok_def voters_ok_def s'(2))
qed (use ok in simp)

section \<open>The candidates after a tally\<close>

lemma keep_candidates_spec:
  assumes "\<forall>(a, i) \<in> set rs. i < length cs" "k + length rs < 2 ^ 32" "distinct (map snd rs)"
  shows "\<exists>nc. keep_candidates rs k cs = Some (nc, k + length rs) \<and> length nc = length cs \<and>
    (\<forall>i < length cs. nc ! i = (case map_of (map prod.swap rs) i of Some a \<Rightarrow> a | None \<Rightarrow> cs ! i))"
  using assms
proof (induction rs arbitrary: k cs)
  case (Cons x rs)
  obtain a j where x: "x = (a, j)" by (metis surj_pair)
  have k: "u32 (k + 1) = k + 1" using Cons.prems(2) by simp
  have "\<forall>(a, i) \<in> set rs. i < length (cs[j := a])" "k + 1 + length rs < 2 ^ 32" "distinct (map snd rs)"
    using Cons.prems by auto
  then obtain nc where nc: "keep_candidates rs (k + 1) (cs[j := a]) = Some (nc, k + 1 + length rs)"
    "length nc = length cs"
    "\<forall>i < length cs. nc ! i = (case map_of (map prod.swap rs) i of Some a \<Rightarrow> a | None \<Rightarrow> cs[j := a] ! i)"
    using Cons.IH [of "cs[j := a]" "k + 1"] by auto
  have "map_of (map prod.swap rs) j = None"
    using Cons.prems(3) unfolding x by (force simp: map_of_eq_None_iff)
  then have "\<forall>i < length cs. nc ! i = (case map_of (map prod.swap (x # rs)) i of Some a \<Rightarrow> a | None \<Rightarrow> cs ! i)"
    using nc(3) by (auto simp: x split: option.splits)
  moreover have "keep_candidates (x # rs) k cs = Some (nc, k + length (x # rs))"
    using nc(1) Cons.prems(1) k unfolding x by simp
  ultimately show ?case using nc(2) by blast
qed simp

lemma map_of_swap_distinct:
  "distinct (map snd rs) \<Longrightarrow> map_of (map prod.swap rs) i = Some a \<longleftrightarrow> (a, i) \<in> set rs"
  by (subst map_of_eq_Some_iff) (force simp: comp_def)+

text \<open>The holes at the end of the list of candidates go.\<close>

lemma discard_slots_spec:
  "length (discard_slots xs) \<le> length xs"
  "i < length (discard_slots xs) \<Longrightarrow> discard_slots xs ! i = xs ! i"
  "i < length xs \<Longrightarrow> xs ! i \<noteq> 0 \<Longrightarrow> i < length (discard_slots xs)"
  "filter (\<lambda>c. c \<noteq> 0) (discard_slots xs) = filter (\<lambda>c. c \<noteq> 0) xs"
proof -
  define t where "t = takeWhile (\<lambda>c. c = 0) (rev xs)"
  define u where "u = rev (dropWhile (\<lambda>c. c = 0) (rev xs))"
  have split: "xs = u @ rev t" unfolding t_def u_def by (metis rev_append rev_rev_ident takeWhile_dropWhile_id)
  have z: "\<forall>c \<in> set t. c = 0" unfolding t_def by (auto dest: set_takeWhileD)
  have d: "discard_slots xs = xs \<or> discard_slots xs = u" by (simp add: discard_slots_def u_def)
  have flt: "filter (\<lambda>c. c \<noteq> 0) xs = filter (\<lambda>c. c \<noteq> 0) u" using z by (subst split) (simp add: filter_empty_conv)
  have le: "length u \<le> length xs" using arg_cong [OF split, of length] by simp
  have nth: "i < length u \<Longrightarrow> xs ! i = u ! i" for i by (subst split) (simp add: nth_append)
  have z': "xs ! i = 0" if "length u \<le> i" "i < length xs" for i
  proof -
    have len: "length xs = length u + length t" using arg_cong [OF split, of length] by simp
    have "xs ! i = rev t ! (i - length u)" using that(1) by (subst split) (simp add: nth_append)
    moreover have "i - length u < length (rev t)" using that len by simp
    ultimately have "xs ! i \<in> set (rev t)" by (metis nth_mem)
    then show ?thesis using z by simp
  qed
  show "length (discard_slots xs) \<le> length xs" using d le by auto
  show "i < length (discard_slots xs) \<Longrightarrow> discard_slots xs ! i = xs ! i" using d nth by auto
  show "i < length xs \<Longrightarrow> xs ! i \<noteq> 0 \<Longrightarrow> i < length (discard_slots xs)" using d z' by (metis not_le)
  show "filter (\<lambda>c. c \<noteq> 0) (discard_slots xs) = filter (\<lambda>c. c \<noteq> 0) xs" using d flt by auto
qed

lemma fold_unregister:
  "fold (\<lambda>(old, new) m. if old \<noteq> new then m(old := None) else m) xs m a =
   (if \<exists>new. (a, new) \<in> set xs \<and> a \<noteq> new then None else m a)"
  by (induction xs arbitrary: m) auto

text \<open>Runners-up keep their slots and registrations; everybody else is unregistered.\<close>

lemma runners_registry:
  assumes ok: "registry_ok (s :: ('a::zero, 'k, 'p, 'z) cou)" and len: "length (cou_candidates s) < 2 ^ 32"
    and rs: "\<forall>(a, i) \<in> set rs. \<exists>v. cou_candidate_reg_info s a = Some (v, i)" "distinct (map fst rs)"
  shows "\<exists>nc. keep_candidates rs 0 (replicate (length (cou_candidates s)) 0) = Some (nc, length rs) \<and>
    (\<forall>s' :: ('a, 'k, 'p, 'z) cou. cou_candidates s' = discard_slots nc \<longrightarrow> cou_candidate_count s' = length rs \<longrightarrow>
      cou_candidate_reg_info s' = fold (\<lambda>(old, new) m. if old \<noteq> new then m(old := None) else m)
             (zip (cou_candidates s) nc) (cou_candidate_reg_info s) \<longrightarrow>
      registry_ok s' \<and> length (cou_candidates s') \<le> length (cou_candidates s) \<and>
      (\<forall>a. cou_candidate_reg_info s' a = (if a \<in> fst ` set rs then cou_candidate_reg_info s a else None)))"
proof -
  let ?c = "cou_candidates s" and ?reg = "cou_candidate_reg_info s"
  note D = registry_okD(1) [OF ok]
  have slot: "i < length ?c" "?c ! i = a" "a \<noteq> 0" "\<exists>v. ?reg a = Some (v, i)" if "(a, i) \<in> set rs" for a i
    using rs(1) that D by fastforce+
  have ds: "distinct (map snd rs)"
    unfolding distinct_map
  proof
    show "distinct rs" using rs(2) by (simp add: distinct_map)
    show "inj_on snd (set rs)"
    proof (rule inj_onI)
      fix x y assume xy: "x \<in> set rs" "y \<in> set rs" "snd x = snd y"
      then have "fst x = fst y" using slot(2) by (metis prod.collapse)
      then show "x = y" using xy(3) by (rule prod_eqI)
    qed
  qed
  have "set (map snd rs) \<subseteq> {..< length ?c}" using slot(1) by auto
  then have "card (set (map snd rs)) \<le> card {..< length ?c}" by (intro card_mono) auto
  then have l: "length rs \<le> length ?c" using distinct_card [OF ds] by simp
  obtain nc where nc: "keep_candidates rs 0 (replicate (length ?c) 0) = Some (nc, length rs)" "length nc = length ?c"
    "\<forall>i < length ?c. nc ! i = (case map_of (map prod.swap rs) i of Some a \<Rightarrow> a | None \<Rightarrow> replicate (length ?c) 0 ! i)"
    using keep_candidates_spec [of rs "replicate (length ?c) 0" 0] slot(1) ds l len by auto
  have in_: "nc ! i = a" if "(a, i) \<in> set rs" for a i
    using nc(3) slot(1) [OF that] map_of_swap_distinct [OF ds, of i a] that by simp
  have out: "nc ! i = 0" if "i < length ?c" "i \<notin> snd ` set rs" for i
  proof -
    have "map_of (map prod.swap rs) i = None" using that(2) by (force simp: map_of_eq_None_iff)
    then show ?thesis using nc(3) that(1) by simp
  qed
  have zip: "(a, b) \<in> set (zip ?c nc) \<longleftrightarrow> (\<exists>i < length ?c. ?c ! i = a \<and> nc ! i = b)" for a b
    using nc(2) by (auto simp: in_set_zip)
  have reg': "fold (\<lambda>(old, new) m. if old \<noteq> new then m(old := None) else m) (zip ?c nc) ?reg a =
      (if a \<in> fst ` set rs then ?reg a else None)" for a
  proof (cases "?reg a")
    case None
    then show ?thesis by (simp add: fold_unregister)
  next
    case (Some w)
    obtain v i where w: "w = (v, i)" by (metis surj_pair)
    have a: "a \<noteq> 0" "i < length ?c" "?c ! i = a" using D Some w by auto
    have uniq: "j = i" if "j < length ?c" "?c ! j = a" for j
      using registry_okD(2) [OF ok that(1)] that(2) a(1) Some w by auto
    have "(\<exists>b. (a, b) \<in> set (zip ?c nc) \<and> a \<noteq> b) \<longleftrightarrow> nc ! i \<noteq> a"
      unfolding zip using uniq a(2,3) by metis
    moreover have "nc ! i = a \<longleftrightarrow> a \<in> fst ` set rs"
    proof
      assume e: "nc ! i = a"
      then have "i \<in> snd ` set rs" using out a by metis
      then obtain b where "(b, i) \<in> set rs" by force
      then show "a \<in> fst ` set rs" using in_ e by force
    next
      assume "a \<in> fst ` set rs"
      then obtain j where j: "(a, j) \<in> set rs" by force
      then have "j = i" using slot(4) Some w by fastforce
      then show "nc ! i = a" using in_ j by blast
    qed
    ultimately show ?thesis by (simp add: fold_unregister)
  qed
  have flt: "length (filter (\<lambda>c. c \<noteq> 0) nc) = length rs"
  proof -
    have "{i. i < length nc \<and> nc ! i \<noteq> 0} = snd ` set rs"
      using out in_ slot(1,3) nc(2) by force
    then have "length (filter (\<lambda>c. c \<noteq> 0) nc) = card (snd ` set rs)" by (simp add: length_filter_conv_card)
    also have "\<dots> = length rs" using distinct_card [OF ds] by simp
    finally show ?thesis .
  qed
  have "registry_ok s'" if s': "cou_candidates s' = discard_slots nc" "cou_candidate_count s' = length rs"
    "cou_candidate_reg_info s' = fold (\<lambda>(old, new) m. if old \<noteq> new then m(old := None) else m) (zip ?c nc) ?reg" for s' :: "('a, 'k, 'p, 'z) cou"
  proof (rule registry_okI)
    fix a v i assume "cou_candidate_reg_info s' a = Some (v, i)"
    then have r: "a \<in> fst ` set rs" "?reg a = Some (v, i)" unfolding s'(3) reg' by (auto split: if_splits)
    then have "(a, i) \<in> set rs" using slot(4) by fastforce
    then have "nc ! i = a" "i < length nc" "a \<noteq> 0" using in_ slot(1,3) nc(2) by auto
    then show "a \<noteq> 0 \<and> i < length (cou_candidates s') \<and> cou_candidates s' ! i = a"
      unfolding s'(1) using discard_slots_spec(2,3) by metis
  next
    fix i assume i: "i < length (cou_candidates s')" "cou_candidates s' ! i \<noteq> 0"
    then have n: "nc ! i \<noteq> 0" "i < length nc" "cou_candidates s' ! i = nc ! i"
      unfolding s'(1) using discard_slots_spec(1) [of nc] discard_slots_spec(2) [of i nc] by auto
    then obtain a where "(a, i) \<in> set rs" using out nc(2) by force
    then show "\<exists>v. cou_candidate_reg_info s' (cou_candidates s' ! i) = Some (v, i)"
      unfolding n(3) s'(3) reg' using in_ slot(4) by force
  next
    show "cou_candidate_count s' = length (filter (\<lambda>c. c \<noteq> 0) (cou_candidates s'))"
      unfolding s'(1,2) discard_slots_spec(4) flt ..
  qed
  then show ?thesis using nc(1,2) discard_slots_spec(1) [of nc] reg' by auto
qed
lemma sorted_presented:
  assumes "sorted (map fst lb)"
  shows "presented lb = rev (filter (\<lambda>x. fst x \<noteq> (0::nat)) lb)"
  using assms
proof (induction lb)
  case (Cons x lb)
  show ?case
  proof (cases "fst x = 0")
    case True
    then show ?thesis using Cons by (simp add: presented_def takeWhile_append split_beta)
  next
    case False
    have "\<forall>y \<in> set (x # lb). fst y \<noteq> 0" using False Cons.prems by auto
    then show ?thesis by (simp add: presented_def split_beta takeWhile_eq_all_conv)
  qed
qed (simp add: presented_def)

lemma finalise_tally_ok:
  assumes ok: "election_ok (s :: ('a::zero, 'k, 'p, 'z) cou)" and l: "length (cou_candidates s) < 2 ^ 32" and n: "sys_number s = Some number"
  shows "\<exists>r s'. finalise_tally s = Some (r, s') \<and> election_ok s' \<and>
    length (cou_candidates s') \<le> length (cou_candidates s)"
proof (cases "cou_next_finalise s")
  case None
  then have "election_ok (s\<lparr>cou_snapshoted_stakes := None\<rparr>)"
    using ok by (simp add: election_ok_def registry_ok_def voters_ok_def presentation_ok_def)
  then show ?thesis using None by (simp add: finalise_tally_def)
next
  case (Some x)
  obtain te coming expiring where x: "x = (te, coming, expiring)" by (metis surj_pair)
  obtain st lb where b: "cou_snapshoted_stakes s = Some st" "cou_leaderboard s = Some lb" "board_ok s st lb"
    using ok Some by (auto simp: election_ok_def presentation_ok_def)
  define s2 where "s2 = s\<lparr>cou_snapshoted_stakes := None, cou_next_finalise := None, cou_leaderboard := None\<rparr>"
  define s3 where "s3 = fold (\<lambda>(_, w) t. snd (unreserve w (cou_candidacy_bond s2) t)) (take coming (presented lb)) s2"
  define s4 where "s4 = s3\<lparr>cou_active_council := new_council (u64 (number + cou_term_duration s2)) coming expiring lb (cou_active_council s3)\<rparr>"
  define rs where "rs = List.map_filter (\<lambda>(_, a). map_option (\<lambda>i. (a, snd i)) (cou_candidate_reg_info s a)) (drop coming (presented lb))"
  have "balances_only s2 s3" unfolding s3_def split_beta by (rule unreserve_all_balances)
  note v = balances_only_election(1) [OF this]
  have f3: "cou_candidates s3 = cou_candidates s" "cou_candidate_reg_info s3 = cou_candidate_reg_info s"
    "sys_number s2 = Some number"
    using election_view_fields [OF v] n by (simp_all add: s2_def)
  have f: "cou_voters s4 = cou_voters s" "cou_voter_last_active s4 = cou_voter_last_active s"
    "cou_approvals_of s4 = cou_approvals_of s" "cou_candidates s4 = cou_candidates s"
    "cou_candidate_reg_info s4 = cou_candidate_reg_info s" "cou_next_finalise s4 = None"
    "cou_snapshoted_stakes s4 = None" "cou_leaderboard s4 = None"
    using election_view_fields [OF v] by (simp_all add: s4_def s2_def)
  have reg: "\<exists>v i. cou_candidate_reg_info s c = Some (v, i)" if "(t, c) \<in> set (presented lb)" for t c
  proof -
    have "(t, c) \<in> set lb" "t \<noteq> 0" using that by (auto simp: presented_def dest!: set_takeWhileD)
    then show ?thesis using b(3) unfolding board_ok_def by blast
  qed
  have "distinct (map snd (presented lb))"
    using b(3) sorted_presented [of lb] by (simp add: board_ok_def rev_map [symmetric])
  then have dd: "distinct (map snd (drop coming (presented lb)))" by (simp add: drop_map [symmetric])
  have rs_eq: "rs = map (\<lambda>x. (snd x, snd (the (cou_candidate_reg_info s (snd x))))) (drop coming (presented lb))"
  proof -
    have "\<forall>x \<in> set (drop coming (presented lb)). \<exists>w. cou_candidate_reg_info s (snd x) = Some w"
      using reg by (metis in_set_dropD prod.collapse)
    then show ?thesis unfolding rs_def
      by (induction "drop coming (presented lb)") (auto simp: List.map_filter_def split_beta)
  qed
  have r: "registry_ok s" "\<forall>(a, i) \<in> set rs. \<exists>v. cou_candidate_reg_info s a = Some (v, i)" "distinct (map fst rs)"
    using ok reg dd by (auto simp: election_ok_def rs_eq comp_def dest!: in_set_dropD, fastforce)
  obtain nc where nc: "keep_candidates rs 0 (replicate (length (cou_candidates s)) 0) = Some (nc, length rs)"
    "\<And>s' :: ('a, 'k, 'p, 'z) cou. cou_candidates s' = discard_slots nc \<Longrightarrow> cou_candidate_count s' = length rs \<Longrightarrow>
      cou_candidate_reg_info s' = fold (\<lambda>(old, new) m. if old \<noteq> new then m(old := None) else m)
             (zip (cou_candidates s) nc) (cou_candidate_reg_info s) \<Longrightarrow>
      registry_ok s' \<and> length (cou_candidates s') \<le> length (cou_candidates s)"
    using runners_registry [OF r(1) l r(2,3)] by blast
  define s' where "s' = s4\<lparr>cou_candidate_reg_info := fold (\<lambda>(old, new) m. if old \<noteq> new then m(old := None) else m)
             (zip (cou_candidates s) nc) (cou_candidate_reg_info s),
           cou_candidates := discard_slots nc, cou_candidate_count := length rs,
           cou_vote_index := u32 (cou_vote_index s4 + 1)\<rparr>"
  have run: "finalise_tally s = Some (Inr (), s')"
    using Some b(2) n nc(1) unfolding finalise_tally_def Let_def
    by (simp add: x or_default_def s2_def [symmetric] s3_def [symmetric] rs_def [symmetric] f3 s'_def s4_def)
  have "registry_ok s' \<and> length (cou_candidates s') \<le> length (cou_candidates s)"
    by (rule nc(2)) (simp_all add: s'_def)
  moreover have "voters_ok s'" using ok by (simp add: election_ok_def voters_ok_def s'_def f)
  moreover have "presentation_ok s'" by (simp add: presentation_ok_def s'_def f)
  ultimately show ?thesis using run by (auto simp: election_ok_def)
qed
lemma finalise_tally_keeps:
  assumes ok: "election_ok s" and l: "length (cou_candidates s) < 2 ^ 32" and r: "finalise_tally s = Some (r, s')"
    and a: "cou_next_finalise s \<noteq> None"
  shows "election_ok s' \<and> length (cou_candidates s') \<le> length (cou_candidates s)"
proof -
  have "sys_number s \<noteq> None"
    using r a by (auto simp: finalise_tally_def Let_def split: option.splits Option.bind_splits)
  then obtain number where "sys_number s = Some number" by blast
  then show ?thesis using finalise_tally_ok [OF ok l] r by fastforce
qed

lemma council_end_block_ok:
  assumes ok: "election_ok s" and l: "length (cou_candidates s) < 2 ^ 32" and r: "council_end_block n s = Some (r, s')"
  shows "election_ok s' \<and> length (cou_candidates s') \<le> length (cou_candidates s)"
proof -
  obtain s1 where first: "(if n mod cou_voting_period s = 0
      then do {
        next \<leftarrow> council_next_tally s;
        (case next of
           Some number \<Rightarrow> if n = number then start_tally s else Some s
         | None \<Rightarrow> Some s)
      }
      else Some s) = Some s1"
    and s1: "(case cou_next_finalise s1 of
       Some (number, _, _) \<Rightarrow> if n = number then finalise_tally s1 else Some (Inr (), s1)
     | None \<Rightarrow> Some (Inr (), s1)) = Some (r, s')"
    using r unfolding council_end_block_def bind_eq_Some_conv by blast
  have "s1 = s \<or> start_tally s = Some s1"
    using first by (auto simp: bind_eq_Some_conv split: option.splits if_splits)
  have ok1: "election_ok s1" "cou_candidates s1 = cou_candidates s"
    using \<open>s1 = s \<or> start_tally s = Some s1\<close> start_tally_ok [OF ok] ok by auto
  show ?thesis
  proof (cases "s' = s1")
    case False
    then have "finalise_tally s1 = Some (r, s')" "cou_next_finalise s1 \<noteq> None"
      using s1 by (auto split: option.splits if_splits)
    then show ?thesis using finalise_tally_keeps [OF ok1(1)] l ok1(2) by fastforce
  qed (use ok1 in simp)
qed

text \<open>
  The steps that elections see.  \<open>Other\<close> is any step that leaves their storage alone: the privileged calls, the
  motions, the other modules and the start of a block.  The account \<^verbatim>\<open>AccountId::default()\<close>, which
  marks a hole, does not stand for election.
\<close>

inductive council_step :: "('a::zero, 'k, 'p, 'z) cou \<Rightarrow> ('a, 'k, 'p, 'z) cou \<Rightarrow> bool" where
  Approve: "set_approvals aux votes index s = Some (r, s') \<Longrightarrow> council_step s s'"
| Reap: "reap_inactive_voter aux si target wi ai s = (r, s') \<Longrightarrow> council_step s s'"
| Retract: "retract_voter aux index s = (r, s') \<Longrightarrow> council_step s s'"
| Submit: "submit_candidacy aux slot s = Some (r, s') \<Longrightarrow> aux \<noteq> 0 \<Longrightarrow> council_step s s'"
| Present: "present_winner aux target claimed index s = Some (r, s') \<Longrightarrow> council_step s s'"
| End_block: "council_end_block n s = Some (r, s') \<Longrightarrow> council_step s s'"
| Other: "election_view s' = election_view s \<Longrightarrow> council_step s s'"

lemma council_step_ok:
  assumes "council_step s s'" and ok: "election_ok s" and l: "length (cou_candidates s) + 1 < 2 ^ 32"
  shows "election_ok s' \<and> length (cou_candidates s') \<le> length (cou_candidates s) + 1"
  using assms(1)
proof cases
  case Approve
  then show ?thesis using set_approvals_ok [OF ok] by fastforce
next
  case Reap
  then show ?thesis using reap_inactive_voter_ok [OF ok] by fastforce
next
  case Retract
  then show ?thesis using retract_voter_ok [OF ok] by fastforce
next
  case Submit
  then show ?thesis using submit_candidacy_ok [OF ok _ l] by blast
next
  case Present
  then show ?thesis using present_winner_ok [OF ok] by fastforce
next
  case End_block
  then show ?thesis using council_end_block_ok [OF ok] l by fastforce
next
  case Other
  then show ?thesis using election_ok_view [OF _ ok] election_view_fields(4) by fastforce
qed

lemma council_genesis_ok [simp]:
  "election_ok (council_build_storage c s0)" "cou_candidates (council_build_storage c s0) = []"
  by (simp_all add: election_ok_def registry_ok_def voters_ok_def presentation_ok_def council_build_storage_def
      Democracy.Democracy.defs Council.Council.defs)

lemma council_steps_ok:
  "(council_step ^^ n) s s' \<Longrightarrow> election_ok s \<Longrightarrow> length (cou_candidates s) + n < 2 ^ 32 \<Longrightarrow>
   election_ok s' \<and> length (cou_candidates s') \<le> length (cou_candidates s) + n"
proof (induction n arbitrary: s')
  case (Suc n)
  then obtain t where t: "(council_step ^^ n) s t" "council_step t s'" by auto
  have ih: "election_ok t \<and> length (cou_candidates t) \<le> length (cou_candidates s) + n" using Suc t(1) by simp
  then have "length (cou_candidates t) + 1 < 2 ^ 32" using Suc.prems(3) by linarith
  then show ?case using council_step_ok [OF t(2)] ih by fastforce
qed simp

definition sample_council :: "(nat, nat, nat) Council" where
  "sample_council = council_build_storage (council_default_config\<lparr>cgc_desired_seats := 2\<rparr>) sample_democracy"

definition sample_candidate :: "(nat, nat, nat) Council" where
  "sample_candidate = (case submit_candidacy 1 0 sample_council of Some (_, s) \<Rightarrow> s | None \<Rightarrow> sample_council)"

definition sample_voter :: "(nat, nat, nat) Council" where
  "sample_voter = (case set_approvals 1 [True] 0 sample_candidate of Some (_, s) \<Rightarrow> s | None \<Rightarrow> sample_candidate)"

lemmas sample_council_defs = sample_council_def council_build_storage_def council_default_config_def
  sample_democracy_defs Council.Council.defs

lemma sample_candidate_eq:
  "submit_candidacy 1 0 sample_council = Some (Inr (), sample_candidate)"
  by (simp add: sample_candidate_def submit_candidacy_def is_a_candidate_def sample_council_defs sample_ops)

lemma sample_voter_eq:
  "set_approvals 1 [True] 0 sample_candidate = Some (Inr (), sample_voter)"
  by (simp add: sample_voter_def set_approvals_def presentation_active_def sample_candidate_def submit_candidacy_def
      is_a_candidate_def sample_council_defs sample_ops)

lemma sample_voter_fields:
  "cou_candidates sample_voter = [1]" "cou_voters sample_voter = [1]" "sys_number sample_voter = Some 1"
  by (simp_all add: sample_voter_def set_approvals_def presentation_active_def sample_candidate_def submit_candidacy_def
      is_a_candidate_def sample_council_defs sample_ops)



section \<open>The outcome of an election\<close>

text \<open>A presentation and the candidates it has accepted, latest first.\<close>

inductive presenting :: "('a::zero, 'k, 'p, 'z) cou \<Rightarrow> (nat \<times> 'a) list \<Rightarrow> bool" where
  Started: "cou_next_finalise s = None \<Longrightarrow> start_tally s = Some s' \<Longrightarrow> cou_next_finalise s' \<noteq> None \<Longrightarrow> presenting s' []"
| Accepted: "presenting s acc \<Longrightarrow> present_winner aux target t index s = Some (Inr (), s') \<Longrightarrow> lookup s target = Inr c \<Longrightarrow>
    presenting s' ((t, c) # acc)"
| Between: "presenting s acc \<Longrightarrow> cou_leaderboard s' = cou_leaderboard s \<Longrightarrow>
    cou_next_finalise s' = cou_next_finalise s \<Longrightarrow> presenting s' acc"

text \<open>The leaderboard holds the best of the accepted candidates.\<close>

definition ranked :: "(nat \<times> 'a) list \<Rightarrow> (nat \<times> 'a) list \<Rightarrow> bool" where
  "ranked acc lb \<longleftrightarrow> sorted (map fst lb) \<and> (\<forall>x \<in> set lb. fst x \<noteq> 0 \<longrightarrow> x \<in> set acc) \<and>
    (\<forall>x \<in> set acc. fst x \<noteq> 0 \<and> (x \<in> set lb \<or> fst x \<le> fst (hd lb))) \<and>
    length (filter (\<lambda>x. fst x \<noteq> 0) lb) = min (length lb) (length acc)"

lemma ranked_start: "ranked [] (replicate n (0, 0))"
  by (auto simp: ranked_def)

lemma hd_sort_key_in: "xs \<noteq> [] \<Longrightarrow> hd (sort_key f xs) \<in> set xs"
  by (metis hd_in_set length_0_conv length_sort set_sort)

lemma ranked_accept:
  assumes r: "ranked acc (x # lb)" and t: "fst x < t"
  shows "ranked ((t, c) # acc) (sort_key fst ((t, c) # lb))"
proof -
  let ?l = "sort_key fst ((t, c) # lb)"
  have set_l: "set ?l = insert (t, c) (set lb)" by (simp del: sort_key_simps)
  have srt: "\<forall>y \<in> set lb. fst x \<le> fst y" using r by (auto simp: ranked_def)
  have "hd ?l \<in> insert (t, c) (set lb)" using hd_sort_key_in [of "(t, c) # lb" fst] by auto
  then have hd: "fst x \<le> fst (hd ?l)" using srt t by auto
  have len: "length (filter (\<lambda>y. fst y \<noteq> 0) ?l) = length (filter (\<lambda>y. fst y \<noteq> 0) ((t, c) # lb))"
  proof -
    have "mset (filter (\<lambda>y. fst y \<noteq> 0) ?l) = mset (filter (\<lambda>y. fst y \<noteq> 0) ((t, c) # lb))"
      by (simp del: sort_key_simps filter.simps)
    then show ?thesis by (rule mset_eq_length)
  qed
  have off: "y \<in> set ?l \<or> fst y \<le> fst (hd ?l)" if y: "y \<in> set acc" for y
  proof (cases "y \<in> set lb")
    case False
    then have "fst y \<le> fst x" using r y by (auto simp: ranked_def)
    then show ?thesis using hd by linarith
  qed (simp add: set_l del: sort_key_simps)
  moreover have "length (filter (\<lambda>y. fst y \<noteq> 0) ?l) = min (length ?l) (length ((t, c) # acc))"
  proof (cases "fst x = 0")
    case True
    have "length (filter (\<lambda>y. fst y \<noteq> 0) lb) \<le> length lb" by (rule length_filter_le)
    moreover have "length (filter (\<lambda>y. fst y \<noteq> 0) lb) = min (Suc (length lb)) (length acc)"
      using r True by (simp add: ranked_def)
    ultimately have "length (filter (\<lambda>y. fst y \<noteq> 0) lb) = min (length lb) (length acc)" by linarith
    then show ?thesis using t unfolding len by simp
  next
    case False
    then have "\<forall>y \<in> set lb. fst y \<noteq> 0" using srt by fastforce
    then have all: "filter (\<lambda>y. fst y \<noteq> 0) lb = lb" by (simp add: filter_id_conv)
    have "length (filter (\<lambda>y. fst y \<noteq> 0) (x # lb)) = min (length (x # lb)) (length acc)"
      using r by (simp only: ranked_def)
    moreover have "length (filter (\<lambda>y. fst y \<noteq> 0) (x # lb)) = length (x # lb)" using False all by simp
    ultimately have "length (x # lb) \<le> length acc" by linarith
    then show ?thesis using t len all by simp
  qed
  moreover have "sorted (map fst ?l)" by (rule sorted_sort_key)
  moreover have "\<forall>y \<in> set ?l. fst y \<noteq> 0 \<longrightarrow> y \<in> set ((t, c) # acc)" using r unfolding set_l by (auto simp: ranked_def)
  moreover have "fst y \<noteq> 0 \<and> (y \<in> set ?l \<or> fst y \<le> fst (hd ?l))" if "y \<in> set ((t, c) # acc)" for y
  proof (cases "y = (t, c)")
    case False
    then have "y \<in> set acc" using that by simp
    then show ?thesis using off r by (simp add: ranked_def del: sort_key_simps)
  qed (use t set_l in simp)
  ultimately show ?thesis unfolding ranked_def by blast
qed

lemma presenting_ranked:
  "presenting s acc \<Longrightarrow> \<exists>te coming ex lb. cou_next_finalise s = Some (te, coming, ex) \<and> cou_leaderboard s = Some lb \<and>
     coming \<le> length lb \<and> ranked acc lb"
proof (induction rule: presenting.induct)
  case (Started s s')
  have ne: "s' \<noteq> s" using Started by auto
  obtain x n where s': "s' = s\<lparr>cou_next_finalise := Some x, cou_snapshoted_stakes := Some (map (voting_balance s) (cou_voters s)),
          cou_leaderboard := Some (replicate n (0, 0))\<rparr>" "fst (snd x) \<le> n"
    using start_tally_cases [OF Started(2) ne] by metis
  then show ?case using ranked_start by (cases x) fastforce
next
  case (Accepted s acc aux target t index s' c)
  obtain te coming ex lb0 where ih: "cou_next_finalise s = Some (te, coming, ex)" "cou_leaderboard s = Some lb0"
    "coming \<le> length lb0" "ranked acc lb0" using Accepted.IH by blast
  show ?case
    using Accepted.hyps(2)
  proof (cases rule: present_winner_cases)
    case (accepted c' te' n ex' st x lb v i)
    then have "lb0 = x # lb" "c' = c" using ih(2) Accepted.hyps(3) by simp_all
    then show ?thesis using ih ranked_accept [of acc x lb t c] accepted by (simp del: sort_key_simps)
  qed simp
qed auto

lemma finalise_tally_council:
  assumes r: "finalise_tally s = Some (r, s')" and nf: "cou_next_finalise s = Some (te, coming, ex)"
    and lb: "cou_leaderboard s = Some lb" and n: "sys_number s = Some number"
  shows "r = Inr () \<and> cou_active_council s' = new_council (u64 (number + cou_term_duration s)) coming ex lb (cou_active_council s)"
proof -
  define s2 where "s2 = s\<lparr>cou_snapshoted_stakes := None, cou_next_finalise := None, cou_leaderboard := None\<rparr>"
  define s3 where "s3 = fold (\<lambda>(_, w) t. snd (unreserve w (cou_candidacy_bond s2) t)) (take coming (presented lb)) s2"
  have "balances_only s2 s3" unfolding s3_def split_beta by (rule unreserve_all_balances)
  then have a: "cou_active_council s3 = cou_active_council s"
    using balances_only_election(2) by (fastforce simp: s2_def)
  have n2: "sys_number s2 = Some number" "cou_term_duration s2 = cou_term_duration s" using n by (simp_all add: s2_def)
  show ?thesis
    using r nf lb unfolding finalise_tally_def Let_def
    by (auto simp: or_default_def s2_def [symmetric] s3_def [symmetric] n2 a split: Option.bind_splits)
qed

definition sample_started :: "(nat, nat, nat) Council" where
  "sample_started = (case start_tally sample_voter of Some s \<Rightarrow> s | None \<Rightarrow> sample_voter)"

lemmas sample_election_defs = sample_started_def start_tally_def sample_voter_def set_approvals_def
  presentation_active_def sample_candidate_def submit_candidacy_def is_a_candidate_def sample_council_defs sample_ops
  voting_balance_def

lemma sample_started_eq:
  "start_tally sample_voter = Some sample_started" "cou_next_finalise sample_voter = None"
  by (simp_all add: sample_election_defs)

lemma sample_started_fields:
  "cou_next_finalise sample_started = Some (1001, 2, [])" "cou_vote_index sample_started = 0"
  "cou_snapshoted_stakes sample_started = Some [111]" "cou_voters sample_started = [1]"
  "cou_present_slash_per_voter sample_started = 1" "free_balance sample_started 1 = 102"
  "cou_active_council sample_started = []"
  "cou_candidate_reg_info sample_started 1 = Some (0, 0)" "cou_voter_last_active sample_started 1 = Some 0"
  "cou_approvals_of sample_started 1 = Some [True]" "sys_number sample_started = Some 1"
  "cou_candidates sample_started = [1]"
  by (simp_all add: sample_election_defs)

lemma sample_started_board: "cou_leaderboard sample_started = Some [(0, 0), (0, 0), (0, 0), (0, 0)]"
  by (simp add: sample_election_defs numeral_2_eq_2)

definition sample_presented :: "(nat, nat, nat) Council" where
  "sample_presented = sample_started\<lparr>cou_leaderboard := Some (sort_key fst [(111, 1), (0, 0), (0, 0), (0, 0)])\<rparr>"

lemma sample_presented_eq:
  "present_winner 1 (Id 1) 111 0 sample_started = Some (Inr (), sample_presented)"
proof -
  have t: "actual_total sample_started 0 0 [111] = 111"
    by (simp add: actual_total_def approvals_of_def get_at_def List.map_filter_simps sample_started_fields del: One_nat_def)
  show ?thesis
    unfolding present_winner_def lookup_def
    by (simp add: sample_started_fields sample_started_board can_slash_def get_at_def t sample_presented_def Let_def
        del: One_nat_def sort_key_simps)
qed

section \<open>What elections do not do\<close>

text \<open>
  A tally starts only in the very block in which the term of the first member ends.  A full council whose first
  term ends in a block that is not a multiple of the voting period is never voted on again.
\<close>

lemma full_council_stays:
  assumes "cou_voting_period s \<noteq> 0" "cou_next_finalise s = None" "cou_active_council s = (a, e) # c"
    "cou_desired_seats s = length (cou_active_council s)" "length (cou_active_council s) < 2 ^ 64"
    "\<not> cou_voting_period s dvd e" "sys_number s = Some n"
  shows "council_end_block n s = Some (Inr (), s)"
proof -
  obtain m where m: "next_vote_from s e = Some m" using assms(1) by (simp add: next_vote_from_def Let_def)
  have i: "sub64 (length (cou_active_council s)) (cou_desired_seats s) = 0"
    unfolding assms(4) using assms(5) by (subst sub64_ge) simp_all
  have nt: "council_next_tally s = Some (Some m)"
    using assms(2,3,4,7) i m by (simp add: council_next_tally_def get_at_def)
  have "start_tally s = Some s" if "cou_voting_period s dvd n"
  proof -
    have "e \<noteq> n" using that assms(6) by auto
    then show ?thesis using assms(3,4,7) by (simp add: start_tally_def)
  qed
  then show ?thesis using assms(1,2) nt by (auto simp: council_end_block_def mod_eq_0_iff_dvd)
qed

text \<open>
  Members are dropped by position.  When a member whose term ends is removed while winners are presented, the
  tally drops a member whose term goes on in their place.
\<close>

lemma removal_drops_another:
  "let s = sample_council\<lparr>sys_number := Some 1000, cou_active_council := [(7, 1000), (9, 3000)]\<rparr> in
   \<exists>t. start_tally s = Some t \<and>
     cou_active_council (snd (remove_member (Id 7) t)) = [(9, 3000)] \<and>
     (\<exists>r u. finalise_tally (snd (remove_member (Id 7) t)) = Some (r, u) \<and> cou_active_council u = [])"
  by (simp add: Let_def start_tally_def remove_member_def lookup_def finalise_tally_def sample_council_defs or_default_def
      presented_def new_council_def List.map_filter_simps discard_slots_def numeral_2_eq_2)

text \<open>Removing every member while winners are presented makes the next check for a tally panic.\<close>

lemma removal_panics:
  assumes "cou_next_finalise s = Some (te, coming, ex)" "coming < cou_desired_seats s" "cou_active_council s = []"
    "coming < length ex" "length ex < 2 ^ 63" "cou_desired_seats s < 2 ^ 63"
  shows "council_next_tally s = None"
proof -
  have c: "sub64 0 (length ex) + coming = 2 ^ 64 - (length ex - coming)" "0 < length ex - coming"
    using assms(4,5) by (simp_all add: sub64_def)
  then have "u64 (sub64 0 (length ex) + coming) = 2 ^ 64 - (length ex - coming)" by simp
  then have big: "\<not> u64 (sub64 0 (length ex) + coming) < cou_desired_seats s" using assms(5,6) by simp
  show ?thesis using assms big unfolding council_next_tally_def Let_def by (simp add: get_at_def)
qed

text \<open>The grace period is subtracted from the vote index without a check: while there have been fewer votes, there is none.\<close>

lemma grace_wraps: "v < g \<Longrightarrow> g < 2 ^ 31 \<Longrightarrow> l \<le> v \<Longrightarrow> l < sub32 v g"
  by (simp add: sub32_def)

text \<open>A vote of anybody on any hash counts as the existence of a motion that may be vetoed.\<close>

lemma veto_of_unknown:
  assumes "is_councillor s a" "cov_veto_of s h = None" "cov_vote_of s (h, x) = None" "sys_number s = Some n"
  shows "\<exists>t. voting_veto a h (snd (voting_vote x h v s)) = Some (Inr (), t)"
  using assms by (simp add: voting_veto_def voting_vote_def is_councillor_def binary_search_def Let_def)


section \<open>Motions\<close>

lemma council_votes_filter:
  "distinct as \<Longrightarrow> fst (council_votes taking h as votes) = List.map_filter (\<lambda>a. votes (h, a)) as"
proof (induction "as" arbitrary: votes)
  case (Cons a "as")
  define w where "w = (if taking then votes((h, a) := None) else votes)"
  have "\<forall>b \<in> set as. w (h, b) = votes (h, b)" using Cons.prems by (auto simp: w_def)
  then have "List.map_filter (\<lambda>b. w (h, b)) as = List.map_filter (\<lambda>b. votes (h, b)) as"
    by (simp add: List.map_filter_def cong: filter_cong)
  moreover have "fst (council_votes taking h as w) = List.map_filter (\<lambda>b. w (h, b)) as"
    using Cons.IH Cons.prems by simp
  ultimately show ?case
    by (auto simp: w_def [symmetric] Let_def split_beta List.map_filter_simps split: option.split)
qed (simp add: List.map_filter_simps)

lemma foldl_votes:
  "a + length vs < 2 ^ 32 \<Longrightarrow> b + length vs < 2 ^ 32 \<Longrightarrow>
   foldl (\<lambda>(a, b) (c, d). (u32 (a + c), u32 (b + d))) (a, b) (map (\<lambda>v. if v then (1, 0) else (0, 1)) vs) =
   (a + length (filter (\<lambda>v. v) vs), b + length (filter Not vs))"
  by (induction vs arbitrary: a b) auto

lemma count_votes:
  "distinct as \<Longrightarrow> length (filter P (List.map_filter f as)) = card {a \<in> set as. \<exists>v. f a = Some v \<and> P v}"
proof (induction "as")
  case (Cons a "as")
  have fin: "finite {b \<in> set as. \<exists>v. f b = Some v \<and> P v}" by simp
  have "{b \<in> set (a # as). \<exists>v. f b = Some v \<and> P v} =
    (if \<exists>v. f a = Some v \<and> P v then insert a else id) {b \<in> set as. \<exists>v. f b = Some v \<and> P v}" by auto
  then show ?case using Cons by (auto simp: List.map_filter_simps split: option.split)
qed (simp add: List.map_filter_simps)

lemma map_filter_length: "length (List.map_filter f as) \<le> length as"
  by (simp add: List.map_filter_def)

lemma take_tally_exact:
  assumes d: "distinct (map fst (cou_active_council s))" and l: "length (cou_active_council s) < 2 ^ 32"
  shows "fst (generic_tally taking h s) =
    (card {a \<in> fst ` set (cou_active_council s). cov_vote_of s (h, a) = Some True},
     card {a \<in> fst ` set (cou_active_council s). cov_vote_of s (h, a) = Some False},
     length (cou_active_council s) - card {a \<in> fst ` set (cou_active_council s). cov_vote_of s (h, a) = Some True} -
       card {a \<in> fst ` set (cou_active_council s). cov_vote_of s (h, a) = Some False})"
proof -
  let ?c = "map fst (cou_active_council s)"
  define vs where "vs = List.map_filter (\<lambda>a. cov_vote_of s (h, a)) ?c"
  have vs: "fst (council_votes taking h ?c (cov_vote_of s)) = vs" unfolding vs_def by (rule council_votes_filter [OF d])
  have len: "length vs < 2 ^ 32" using map_filter_length [of _ ?c] l unfolding vs_def by (metis le_less_trans length_map)
  have yes: "length (filter (\<lambda>v. v) vs) = card {a \<in> set ?c. cov_vote_of s (h, a) = Some True}"
    unfolding vs_def count_votes [OF d] by (rule arg_cong [where f = card]) auto
  have no: "length (filter Not vs) = card {a \<in> set ?c. cov_vote_of s (h, a) = Some False}"
    unfolding vs_def count_votes [OF d] by (rule arg_cong [where f = card]) auto
  have sum: "length (filter (\<lambda>v. v) vs) + length (filter Not vs) \<le> length ?c"
    using sum_length_filter_compl [of "\<lambda>v. v" vs] map_filter_length [of _ ?c] unfolding vs_def by metis
  have s1: "sub32 a b = a - b" if "b \<le> a" "a < 2 ^ 32" for a b using that by (simp add: sub32_def mod_if)
  have "u32 (length ?c) = length ?c" using l by simp
  moreover have "sub32 (sub32 (length ?c) (length (filter (\<lambda>v. v) vs))) (length (filter Not vs)) =
      length ?c - length (filter (\<lambda>v. v) vs) - length (filter Not vs)"
    using sum l by (subst s1, simp, simp, subst s1) simp_all
  ultimately show ?thesis
    using foldl_votes [of 0 vs 0] len vs yes no
    by (simp add: generic_tally_def Let_def split_beta)
qed
text \<open>
  C37.  A motion carries exactly by an absolute majority of the sitting council.  The tally counts each member once;
  a motion to cancel a referendum takes effect only if every member approves; any other motion starts a
  referendum if and only if the approvals outnumber the rejections and absences together, and the referendum is harder to
  reject when the council was unanimous.
\<close>

theorem motion_needs_majority:
  assumes "distinct (map fst (cou_active_council s))" "length (cou_active_council s) < 2 ^ 32"
    and "yes = card {a \<in> fst ` set (cou_active_council s). cov_vote_of s (h, a) = Some True}"
    and "no = card {a \<in> fst ` set (cou_active_council s). cov_vote_of s (h, a) = Some False}"
    and "seats = length (cou_active_council s)"
  shows "yes + no \<le> seats \<and> fst (take_tally h s) = (yes, no, seats - yes - no) \<and>
    resolve_motion as_cancel p h s =
     (let s1 = snd (take_tally h s) in
      case as_cancel p of
        Some i \<Rightarrow> Some (Inr (), if yes = seats then internal_cancel_referendum i s1 else s1)
      | None \<Rightarrow> if seats < 2 * yes
          then map_option (\<lambda>(r, t). (map_sum id (\<lambda>_. ()) r, t))
            (internal_start_referendum p (if yes = seats then SuperMajorityAgainst else SimpleMajority) (kill_veto_of h s1))
          else Some (Inr (), s1))"
proof -
  let ?c = "fst ` set (cou_active_council s)"
  have card: "card ?c = seats"
    using distinct_card [OF assms(1)] assms(5) by simp
  have "yes + no = card ({a \<in> ?c. cov_vote_of s (h, a) = Some True} \<union> {a \<in> ?c. cov_vote_of s (h, a) = Some False})"
    unfolding assms(3,4) by (subst card_Un_disjoint) auto
  also have "\<dots> \<le> card ?c" by (rule card_mono) auto
  finally have le: "yes + no \<le> seats" using card by simp
  have t: "fst (take_tally h s) = (yes, no, seats - yes - no)"
    unfolding take_tally_def using take_tally_exact [OF assms(1,2)] assms(3,4,5) by simp
  have u: "u32 (no + (seats - yes - no)) = seats - yes" using le assms(2,5) by simp
  have una: "no = 0 \<and> seats - yes - no = 0 \<longleftrightarrow> yes = seats" using le by linarith
  have maj: "seats - yes < yes \<longleftrightarrow> seats < 2 * yes" using le by linarith
  obtain s1 where s1: "take_tally h s = ((yes, no, seats - yes - no), s1)" using t by (cases "take_tally h s") simp
  have "resolve_motion as_cancel p h s =
     (case as_cancel p of
        Some i \<Rightarrow> Some (Inr (), if yes = seats then internal_cancel_referendum i s1 else s1)
      | None \<Rightarrow> if seats < 2 * yes
          then map_option (\<lambda>(r, t). (map_sum id (\<lambda>_. ()) r, t))
            (internal_start_referendum p (if yes = seats then SuperMajorityAgainst else SimpleMajority) (kill_veto_of h s1))
          else Some (Inr (), s1))"
    unfolding resolve_motion_def s1 Let_def prod.case u una maj
    by (auto split: option.splits Option.bind_splits)
  then show ?thesis using le t s1 by simp
qed

theorem motion_needs_majority_witness:
  "let s = sample_council\<lparr>cou_active_council := [(7, 10), (8, 10), (9, 10)], cov_vote_of := [(5, 7) \<mapsto> True, (5, 8) \<mapsto> True, (5, 9) \<mapsto> False]\<rparr> in
   fst (take_tally 5 s) = (2, 1, 0) \<and>
   map_option (\<lambda>x. dem_referendum_info_of (snd x) 0) (resolve_motion (\<lambda>_. None) 42 5 s) = Some (Some (2, 42, SimpleMajority))"
proof -
  let ?s = "sample_council\<lparr>cou_active_council := [(7, 10), (8, 10), (9, 10)], cov_vote_of := [(5, 7) \<mapsto> True, (5, 8) \<mapsto> True, (5, 9) \<mapsto> False]\<rparr>"
  have y: "2 = card {a \<in> fst ` set (cou_active_council ?s). cov_vote_of ?s (5, a) = Some True}"
  proof -
    have "{a \<in> fst ` set (cou_active_council ?s). cov_vote_of ?s (5, a) = Some True} = {7, 8}" by auto
    then show ?thesis by simp
  qed
  have n: "1 = card {a \<in> fst ` set (cou_active_council ?s). cov_vote_of ?s (5, a) = Some False}"
  proof -
    have "{a \<in> fst ` set (cou_active_council ?s). cov_vote_of ?s (5, a) = Some False} = {9}" by auto
    then show ?thesis by simp
  qed
  have m: "fst (take_tally 5 ?s) = (2, 1, 3 - 2 - 1)" "resolve_motion (\<lambda>_. None) 42 5 ?s =
      map_option (\<lambda>(r, t). (map_sum id (\<lambda>_. ()) r, t))
        (internal_start_referendum 42 SimpleMajority (kill_veto_of 5 (snd (take_tally 5 ?s))))"
    using motion_needs_majority [of ?s 2 5 1 3 "\<lambda>_. None" 42, OF _ _ y n] by simp_all
  have "map_option (\<lambda>x. dem_referendum_info_of (snd x) 0)
      (internal_start_referendum 42 SimpleMajority (kill_veto_of 5 (snd (take_tally 5 ?s)))) = Some (Some (2, 42, SimpleMajority))"
    by (simp add: internal_start_referendum_def inject_referendum_def kill_veto_of_def take_tally_def generic_tally_def
        Let_def split_beta sample_council_defs)
  then show ?thesis using m by (auto simp: Let_def)
qed

end
