(* ===== verification/Parachain_Types.thy ===== *)
theory Parachain_Types
  imports Codec
begin

text \<open>
  The types of \<^verbatim>\<open>src/polkadot/primitives/src/parachain.rs\<close> that travel between nodes and into the runtime, with their
  wire formats.  Accounts and hashes are byte strings of length 32.
\<close>

type_synonym para_id = "32 word"

definition id_decode :: "para_id decoder" where "id_decode = u32_decode"
definition id_encode :: "para_id encoder" where "id_encode = u32_encode"

datatype Chain = Relay | Parachain para_id

definition chain_decode :: "Chain decoder" where
  "chain_decode input = (case read_byte input of
      None \<Rightarrow> None
    | Some (disc, rest) \<Rightarrow>
        if disc = 0 then Some (Relay, rest)
        else if disc = 1 then map_option (\<lambda>(i, rest). (Parachain i, rest)) (id_decode rest)
        else None)"

definition chain_encode :: "Chain encoder" where
  "chain_encode c = (case c of
      Relay \<Rightarrow> Some [0]
    | Parachain i \<Rightarrow> map_option (\<lambda>s. 1 # s) (id_encode i))"

record DutyRoster =
  validator_duty :: "Chain list"
  guarantor_duty :: "Chain list"

definition duty_roster_decode :: "DutyRoster decoder" where
  "duty_roster_decode input =
    map_option (\<lambda>((v, g), rest). (\<lparr>validator_duty = v, guarantor_duty = g\<rparr>, rest))
      (tuple_decode (vec_decode chain_decode) (vec_decode chain_decode) input)"

definition duty_roster_encode :: "DutyRoster encoder" where
  "duty_roster_encode r =
    tuple_encode (vec_encode chain_encode) (vec_encode chain_encode) (validator_duty r, guarantor_duty r)"

record CandidateReceipt =
  parachain_index :: para_id
  collator :: "byte list"
  head_data :: "byte list"
  balance_uploads :: "(byte list \<times> 64 word) list"
  egress_queue_roots :: "(para_id \<times> byte list) list"
  cr_fees :: "64 word"

definition candidate_receipt_encode :: "CandidateReceipt encoder" where
  "candidate_receipt_encode r =
    tuple_encode id_encode (tuple_encode (bytes_n_encode 32) (tuple_encode encode_slice
      (tuple_encode (vec_encode (tuple_encode (bytes_n_encode 32) u64_encode))
        (tuple_encode (vec_encode (tuple_encode id_encode (bytes_n_encode 32))) u64_encode))))
      (parachain_index r, collator r, head_data r, balance_uploads r, egress_queue_roots r, cr_fees r)"

definition candidate_receipt_decode :: "CandidateReceipt decoder" where
  "candidate_receipt_decode input =
    map_option (\<lambda>((i, c, h, b, e, f), rest).
        (\<lparr>parachain_index = i, collator = c, head_data = h, balance_uploads = b, egress_queue_roots = e, cr_fees = f\<rparr>, rest))
      (tuple_decode id_decode (tuple_decode (bytes_n_decode 32) (tuple_decode bytes_decode
        (tuple_decode (vec_decode (tuple_decode (bytes_n_decode 32) u64_decode))
          (tuple_decode (vec_decode (tuple_decode id_decode (bytes_n_decode 32))) u64_decode)))) input)"

text \<open>The order of receipts: by parachain, then by head data, byte by byte.\<close>

datatype ordering = Less | Equal | Greater

fun bytes_cmp :: "byte list \<Rightarrow> byte list \<Rightarrow> ordering" where
  "bytes_cmp [] [] = Equal"
| "bytes_cmp [] (_ # _) = Less"
| "bytes_cmp (_ # _) [] = Greater"
| "bytes_cmp (x # xs) (y # ys) = (if x < y then Less else if y < x then Greater else bytes_cmp xs ys)"

definition candidate_receipt_cmp :: "CandidateReceipt \<Rightarrow> CandidateReceipt \<Rightarrow> ordering" where
  "candidate_receipt_cmp a b =
    (if parachain_index a < parachain_index b then Less
     else if parachain_index b < parachain_index a then Greater
     else bytes_cmp (head_data a) (head_data b))"

datatype para_statement =
    StatementCandidate CandidateReceipt
  | StatementValid "byte list"
  | StatementInvalid "byte list"
  | StatementAvailable "byte list"

definition para_statement_encode :: "para_statement encoder" where
  "para_statement_encode st = (case st of
      StatementCandidate c \<Rightarrow> map_option (\<lambda>s. 1 # s) (candidate_receipt_encode c)
    | StatementValid h \<Rightarrow> map_option (\<lambda>s. 2 # s) (bytes_n_encode 32 h)
    | StatementInvalid h \<Rightarrow> map_option (\<lambda>s. 3 # s) (bytes_n_encode 32 h)
    | StatementAvailable h \<Rightarrow> map_option (\<lambda>s. 4 # s) (bytes_n_encode 32 h))"

definition para_statement_decode :: "para_statement decoder" where
  "para_statement_decode input = (case read_byte input of
      None \<Rightarrow> None
    | Some (x, rest) \<Rightarrow>
        if x = 1 then map_option (\<lambda>(c, rest). (StatementCandidate c, rest)) (candidate_receipt_decode rest)
        else if x = 2 then map_option (\<lambda>(h, rest). (StatementValid h, rest)) (bytes_n_decode 32 rest)
        else if x = 3 then map_option (\<lambda>(h, rest). (StatementInvalid h, rest)) (bytes_n_decode 32 rest)
        else if x = 4 then map_option (\<lambda>(h, rest). (StatementAvailable h, rest)) (bytes_n_decode 32 rest)
        else None)"


section \<open>All of them obey the contract of the codec\<close>

interpretation para_id: slicable id_encode id_decode
  unfolding id_encode_def id_decode_def by (rule u32.slicable_axioms)

lemmas [slicable_intros] = para_id.slicable_axioms

interpretation chain: slicable chain_encode chain_decode
proof
  fix x bs rest assume "chain_encode x = Some bs"
  then show "chain_decode (bs @ rest) = Some (x, rest)"
    using para_id.decode_encode
    by (cases x) (auto simp: chain_encode_def chain_decode_def read_byte_def)
next
  fix input x rest assume d: "chain_decode input = Some (x, rest)"
  then obtain disc tl where "input = disc # tl" by (cases input) (auto simp: chain_decode_def read_byte_def)
  then show "\<exists>bs. chain_encode x = Some bs \<and> input = bs @ rest"
    using d by (auto simp: chain_encode_def chain_decode_def read_byte_def split: if_splits dest!: para_id.encode_decode)
qed

lemmas [slicable_intros] = chain.slicable_axioms

interpretation roster: slicable duty_roster_encode duty_roster_decode
proof -
  have "slicable (\<lambda>r. tuple_encode (vec_encode chain_encode) (vec_encode chain_encode) (validator_duty r, guarantor_duty r))
    (\<lambda>input. map_option (\<lambda>(y, rest). ((\<lambda>(v, g). \<lparr>validator_duty = v, guarantor_duty = g\<rparr>) y, rest))
      (tuple_decode (vec_decode chain_decode) (vec_decode chain_decode) input))"
    by (rule slicable_iso) (auto intro!: slicable_intros)
  then show "slicable duty_roster_encode duty_roster_decode"
    unfolding duty_roster_encode_def [abs_def] duty_roster_decode_def [abs_def] by (simp add: case_prod_unfold)
qed

interpretation receipt: slicable candidate_receipt_encode candidate_receipt_decode
proof -
  have "slicable (\<lambda>r. tuple_encode id_encode (tuple_encode (bytes_n_encode 32) (tuple_encode encode_slice
      (tuple_encode (vec_encode (tuple_encode (bytes_n_encode 32) u64_encode))
        (tuple_encode (vec_encode (tuple_encode id_encode (bytes_n_encode 32))) u64_encode))))
      (parachain_index r, collator r, head_data r, balance_uploads r, egress_queue_roots r, cr_fees r))
    (\<lambda>input. map_option (\<lambda>(y, rest). ((\<lambda>(i, c, h, b, e, f).
        \<lparr>parachain_index = i, collator = c, head_data = h, balance_uploads = b, egress_queue_roots = e, cr_fees = f\<rparr>) y, rest))
      (tuple_decode id_decode (tuple_decode (bytes_n_decode 32) (tuple_decode bytes_decode
        (tuple_decode (vec_decode (tuple_decode (bytes_n_decode 32) u64_decode))
          (tuple_decode (vec_decode (tuple_decode id_decode (bytes_n_decode 32))) u64_decode)))) input))"
    by (rule slicable_iso) (auto intro!: slicable_intros)
  then show "slicable candidate_receipt_encode candidate_receipt_decode"
    unfolding candidate_receipt_encode_def [abs_def] candidate_receipt_decode_def [abs_def] by (simp add: case_prod_unfold)
qed

interpretation para_statement: slicable para_statement_encode para_statement_decode
proof
  note hash = slicable.decode_encode [OF slicable_bytes_n [of 32]] slicable.encode_decode [OF slicable_bytes_n [of 32]]
  fix x bs rest assume "para_statement_encode x = Some bs"
  then show "para_statement_decode (bs @ rest) = Some (x, rest)"
    using receipt.decode_encode hash(1)
    by (cases x) (auto simp: para_statement_encode_def para_statement_decode_def read_byte_def)
next
  note hash = slicable.encode_decode [OF slicable_bytes_n [of 32]]
  fix input x rest assume d: "para_statement_decode input = Some (x, rest)"
  then obtain disc tl where "input = disc # tl" by (cases input) (auto simp: para_statement_decode_def read_byte_def)
  then show "\<exists>bs. para_statement_encode x = Some bs \<and> input = bs @ rest"
    using d by (auto simp: para_statement_encode_def para_statement_decode_def read_byte_def split: if_splits
        dest!: receipt.encode_decode hash)
qed

end
