(* ===== verification/Extrinsics.thy ===== *)
theory Extrinsics
  imports Bft_Codec Runtime_System
begin

text \<open>
  Extrinsics, headers and blocks (\<^verbatim>\<open>src/substrate/runtime/primitives/src/generic.rs\<close>) with their wire format, and signatures
  that may be absent with the outcomes of an application (\<^verbatim>\<open>src/substrate/runtime/primitives/src/lib.rs\<close>).  Addresses, indices, calls and
  signatures keep the type parameters they have there, with their codecs as arguments; the check of an
  Ed25519 signature is a parameter.
\<close>

section \<open>Hashes on the wire\<close>

text \<open>The first byte of a hash is its highest.\<close>

definition hash_to_vec :: "hash \<Rightarrow> byte list" where
  "hash_to_vec h = rev (le_encode 32 (unat h))"

definition h256_encode :: "hash encoder" where
  "h256_encode h = Some (hash_to_vec h)"

definition h256_decode :: "hash decoder" where
  "h256_decode input = map_option (\<lambda>(raw, rest). (word_of_nat (le_decode (rev raw)), rest)) (read_exact 32 input)"


section \<open>Extrinsics\<close>

record ('addr, 'i, 'c) Extrinsic =
  xt_signed :: 'addr
  xt_index :: 'i
  xt_function :: 'c

definition extrinsic_decode :: "'addr decoder \<Rightarrow> 'i decoder \<Rightarrow> 'c decoder \<Rightarrow> ('addr, 'i, 'c) Extrinsic decoder" where
  "extrinsic_decode dec_a dec_i dec_c input =
    map_option (\<lambda>((a, i, c), rest). (\<lparr>xt_signed = a, xt_index = i, xt_function = c\<rparr>, rest))
      (tuple_decode dec_a (tuple_decode dec_i dec_c) input)"

definition extrinsic_encode :: "'addr encoder \<Rightarrow> 'i encoder \<Rightarrow> 'c encoder \<Rightarrow> ('addr, 'i, 'c) Extrinsic encoder" where
  "extrinsic_encode enc_a enc_i enc_c x =
    tuple_encode enc_a (tuple_encode enc_i enc_c) (xt_signed x, xt_index x, xt_function x)"

record ('addr, 'i, 'c, 'g) UncheckedExtrinsic =
  ux_extrinsic :: "('addr, 'i, 'c) Extrinsic"
  ux_signature :: 'g

text \<open>The length that comes first is read and not used.\<close>

definition unchecked_extrinsic_decode :: "('addr, 'i, 'c) Extrinsic decoder \<Rightarrow> 'g decoder \<Rightarrow>
    ('addr, 'i, 'c, 'g) UncheckedExtrinsic decoder" where
  "unchecked_extrinsic_decode dec_x dec_g input = do {
    (_, rest) \<leftarrow> u32_decode input;
    ((x, g), rest') \<leftarrow> tuple_decode dec_x dec_g rest;
    Some (\<lparr>ux_extrinsic = x, ux_signature = g\<rparr>, rest')
  }"

definition unchecked_extrinsic_encode :: "('addr, 'i, 'c) Extrinsic encoder \<Rightarrow> 'g encoder \<Rightarrow>
    ('addr, 'i, 'c, 'g) UncheckedExtrinsic encoder" where
  "unchecked_extrinsic_encode enc_x enc_g u = do {
    v \<leftarrow> tuple_encode enc_x enc_g (ux_extrinsic u, ux_signature u);
    len \<leftarrow> u32_encode (word_of_nat (length v));
    Some (len @ v)
  }"


section \<open>Signatures that may be absent\<close>

text \<open>\<^verbatim>\<open>MaybeUnsigned\<close>: the default signature stands for none, the default account for no signer.\<close>

definition sig_is_signed :: "'g::zero \<Rightarrow> bool" where
  "sig_is_signed g \<longleftrightarrow> g \<noteq> 0"

definition is_addressed :: "'a::zero \<Rightarrow> bool" where
  "is_addressed signer \<longleftrightarrow> signer \<noteq> 0"

text \<open>\<^verbatim>\<open>verify\<close> of the signature under the message that is only encoded when it is needed.\<close>

definition verify_encoded_lazy :: "('g::zero \<Rightarrow> byte list \<Rightarrow> 'a::zero \<Rightarrow> bool) \<Rightarrow> 'x encoder \<Rightarrow> 'g \<Rightarrow> 'x \<Rightarrow> 'a \<Rightarrow> bool option" where
  "verify_encoded_lazy verify enc g item signer =
    (if \<not> sig_is_signed g then Some (\<not> is_addressed signer)
     else map_option (\<lambda>msg. verify g msg signer) (enc item))"

definition is_signed :: "('addr, 'i, 'c, 'g::zero) UncheckedExtrinsic \<Rightarrow> bool" where
  "is_signed u = sig_is_signed (ux_signature u)"

text \<open>
  \<^verbatim>\<open>Checkable::check\<close>.  The bare extrinsic that is signed has the account in the place of the address; an encoding
  that panics is \<^const>\<open>None\<close>.
\<close>

definition check_xt :: "('g::zero \<Rightarrow> byte list \<Rightarrow> 'a::zero \<Rightarrow> bool) \<Rightarrow> ('a, 'i, 'c) Extrinsic encoder \<Rightarrow> ('addr \<Rightarrow> string + 'a) \<Rightarrow>
    ('addr, 'i, 'c, 'g) UncheckedExtrinsic \<Rightarrow> (string + ('a, 'i, 'c) Extrinsic) option" where
  "check_xt verify enc lookup_addr u =
    (let x = ux_extrinsic u;
         bare = (\<lambda>who. \<lparr>xt_signed = who, xt_index = xt_index x, xt_function = xt_function x\<rparr>) in
     if \<not> is_signed u then Some (Inr (bare 0))
     else (case lookup_addr (xt_signed x) of
             Inl e \<Rightarrow> Some (Inl e)
           | Inr who \<Rightarrow> map_option (\<lambda>ok. if ok then Inr (bare who) else Inl ''bad signature in extrinsic'')
               (verify_encoded_lazy verify enc (ux_signature u) (bare who) who)))"


section \<open>Outcomes\<close>

datatype ApplyOutcome = Success | Fail

definition apply_outcome_decode :: "ApplyOutcome decoder" where
  "apply_outcome_decode input = do {
    (x, rest) \<leftarrow> read_byte input;
    if x = 0 then Some (Success, rest) else if x = 1 then Some (Fail, rest) else None
  }"

definition apply_outcome_encode :: "ApplyOutcome encoder" where
  "apply_outcome_encode r = Some [case r of Success \<Rightarrow> 0 | Fail \<Rightarrow> 1]"

datatype ApplyError = BadSignature | Stale | Future | CantPay

definition apply_error_decode :: "ApplyError decoder" where
  "apply_error_decode input = do {
    (x, rest) \<leftarrow> read_byte input;
    if x = 0 then Some (BadSignature, rest) else if x = 1 then Some (Stale, rest)
    else if x = 2 then Some (Future, rest) else if x = 3 then Some (CantPay, rest) else None
  }"

definition apply_error_encode :: "ApplyError encoder" where
  "apply_error_encode e = Some [case e of BadSignature \<Rightarrow> 0 | Stale \<Rightarrow> 1 | Future \<Rightarrow> 2 | CantPay \<Rightarrow> 3]"


section \<open>Headers and blocks\<close>

definition digest_decode :: "'l decoder \<Rightarrow> 'l list decoder" where
  "digest_decode dec_log = vec_decode dec_log"

definition digest_encode :: "'l encoder \<Rightarrow> 'l list encoder" where
  "digest_encode enc_log = vec_encode enc_log"

text \<open>The number is a \<^verbatim>\<open>u64\<close>, which no greater number is; a log item is a byte string.\<close>

definition number_encode :: "nat encoder" where
  "number_encode n = (if n < 2 ^ 64 then Some (le_encode 8 n) else None)"

definition number_decode :: "nat decoder" where
  "number_decode input = map_option (\<lambda>(raw, rest). (le_decode raw, rest)) (read_exact 8 input)"

definition header_decode :: "header decoder" where
  "header_decode input =
    map_option (\<lambda>((p, n, s, x, d), rest).
        (\<lparr>hd_parent_hash = p, hd_number = n, hd_state_root = s, hd_extrinsics_root = x, hd_digest = d\<rparr>, rest))
      (tuple_decode h256_decode (tuple_decode number_decode (tuple_decode h256_decode (tuple_decode h256_decode
        (digest_decode bytes_decode)))) input)"

definition header_encode :: "header encoder" where
  "header_encode h =
    tuple_encode h256_encode (tuple_encode number_encode (tuple_encode h256_encode (tuple_encode h256_encode
      (digest_encode encode_slice))))
      (hd_parent_hash h, hd_number h, hd_state_root h, hd_extrinsics_root h, hd_digest h)"

record 'x Block =
  blk_header :: header
  blk_extrinsics :: "'x list"

definition block_decode :: "'x decoder \<Rightarrow> 'x Block decoder" where
  "block_decode dec_x input =
    map_option (\<lambda>((h, xs), rest). (\<lparr>blk_header = h, blk_extrinsics = xs\<rparr>, rest))
      (tuple_decode header_decode (vec_decode dec_x) input)"

definition block_encode :: "'x encoder \<Rightarrow> 'x Block encoder" where
  "block_encode enc_x b = tuple_encode header_encode (vec_encode enc_x) (blk_header b, blk_extrinsics b)"

record 'x SignedBlock =
  sb_block :: "'x Block"
  sb_justification :: "hash PrimitiveJustification"

definition signed_block_decode :: "'x decoder \<Rightarrow> 'x SignedBlock decoder" where
  "signed_block_decode dec_x input =
    map_option (\<lambda>((b, j), rest). (\<lparr>sb_block = b, sb_justification = j\<rparr>, rest))
      (tuple_decode (block_decode dec_x) (primitive_justification_decode h256_decode) input)"

definition signed_block_encode :: "'x encoder \<Rightarrow> 'x SignedBlock encoder" where
  "signed_block_encode enc_x sb =
    tuple_encode (block_encode enc_x) (primitive_justification_encode h256_encode) (sb_block sb, sb_justification sb)"



section \<open>The contract of the codec\<close>

lemma slicable_h256 [slicable_intros]: "slicable h256_encode h256_decode"
proof
  have pow: "(256 :: nat) ^ 32 = 2 ^ 256" by simp
  fix x bs rest assume "h256_encode x = Some bs"
  moreover have "le_decode (le_encode 32 (unat x)) = unat x"
    using unsigned_less [of x] by (intro le_decode_encode) (simp only: pow, simp)
  ultimately show "h256_decode (bs @ rest) = Some (x, rest)"
    by (auto simp: h256_encode_def h256_decode_def hash_to_vec_def)
next
  fix input x rest assume "h256_decode input = Some (x, rest)"
  then obtain raw where raw: "length raw = 32" "input = raw @ rest" "x = word_of_nat (le_decode (rev raw))"
    by (auto simp: h256_decode_def read_exact_Some)
  have "le_decode (rev raw) < 2 ^ 256" using le_decode_bound [of "rev raw"] raw(1) by simp
  then have "unat x = le_decode (rev raw)" using raw(3) by (simp add: unat_of_nat)
  then have "le_encode 32 (unat x) = rev raw" using le_encode_decode [of "rev raw"] raw(1) by simp
  then show "\<exists>bs. h256_encode x = Some bs \<and> input = bs @ rest"
    using raw(2) by (simp add: h256_encode_def hash_to_vec_def)
qed

lemma slicable_number [slicable_intros]: "slicable number_encode number_decode"
proof
  fix x bs rest assume "number_encode x = Some bs"
  then have "bs = le_encode 8 x" "x < 256 ^ 8" by (auto simp: number_encode_def split: if_splits)
  then show "number_decode (bs @ rest) = Some (x, rest)" by (simp add: number_decode_def le_decode_encode)
next
  fix input x rest assume "number_decode input = Some (x, rest)"
  then obtain raw where "length raw = 8" "input = raw @ rest" "x = le_decode raw"
    by (auto simp: number_decode_def read_exact_Some)
  then show "\<exists>bs. number_encode x = Some bs \<and> input = bs @ rest"
    using le_encode_decode [of raw] le_decode_bound [of raw] by (simp add: number_encode_def)
qed

lemma slicable_extrinsic [slicable_intros]:
  assumes "slicable enc_a dec_a" "slicable enc_i dec_i" "slicable enc_c dec_c"
  shows "slicable (extrinsic_encode enc_a enc_i enc_c) (extrinsic_decode dec_a dec_i dec_c)"
proof -
  have "slicable (\<lambda>x. tuple_encode enc_a (tuple_encode enc_i enc_c) (xt_signed x, xt_index x, xt_function x))
    (\<lambda>input. map_option (\<lambda>(y, rest). ((\<lambda>(a, i, c). \<lparr>xt_signed = a, xt_index = i, xt_function = c\<rparr>) y, rest))
      (tuple_decode dec_a (tuple_decode dec_i dec_c) input))"
    by (rule slicable_iso) (auto intro!: slicable_intros assms)
  then show ?thesis by (simp add: extrinsic_encode_def [abs_def] extrinsic_decode_def [abs_def] case_prod_unfold)
qed

lemma slicable_apply_outcome [slicable_intros]: "slicable apply_outcome_encode apply_outcome_decode"
  by standard (auto simp: apply_outcome_encode_def apply_outcome_decode_def read_byte_def
    split: ApplyOutcome.splits list.splits if_splits)

lemma slicable_apply_error [slicable_intros]: "slicable apply_error_encode apply_error_decode"
  by standard (auto simp: apply_error_encode_def apply_error_decode_def read_byte_def
    split: ApplyError.splits list.splits if_splits)

lemma slicable_header [slicable_intros]: "slicable header_encode header_decode"
proof -
  have "slicable (\<lambda>h. tuple_encode h256_encode (tuple_encode number_encode (tuple_encode h256_encode (tuple_encode h256_encode
        (vec_encode encode_slice))))
        (hd_parent_hash h, hd_number h, hd_state_root h, hd_extrinsics_root h, hd_digest h))
    (\<lambda>input. map_option (\<lambda>(y, rest). ((\<lambda>(p, n, s, x, d).
        \<lparr>hd_parent_hash = p, hd_number = n, hd_state_root = s, hd_extrinsics_root = x, hd_digest = d\<rparr>) y, rest))
      (tuple_decode h256_decode (tuple_decode number_decode (tuple_decode h256_decode (tuple_decode h256_decode
        (vec_decode bytes_decode)))) input))"
    by (rule slicable_iso) (auto intro!: slicable_intros)
  then show ?thesis
    by (simp add: header_encode_def [abs_def] header_decode_def [abs_def] digest_encode_def digest_decode_def case_prod_unfold)
qed

lemma slicable_block [slicable_intros]:
  assumes "slicable enc_x dec_x"
  shows "slicable (block_encode enc_x) (block_decode dec_x)"
proof -
  have "slicable (\<lambda>b. tuple_encode header_encode (vec_encode enc_x) (blk_header b, blk_extrinsics b))
    (\<lambda>input. map_option (\<lambda>(y, rest). ((\<lambda>(h, xs). \<lparr>blk_header = h, blk_extrinsics = xs\<rparr>) y, rest))
      (tuple_decode header_decode (vec_decode dec_x) input))"
    by (rule slicable_iso) (auto intro!: slicable_intros assms)
  then show ?thesis by (simp add: block_encode_def [abs_def] block_decode_def [abs_def] case_prod_unfold)
qed

lemma slicable_signed_block:
  assumes "slicable enc_x dec_x"
  shows "slicable (signed_block_encode enc_x) (signed_block_decode dec_x)"
proof -
  have "slicable (\<lambda>sb. tuple_encode (block_encode enc_x) (primitive_justification_encode h256_encode) (sb_block sb, sb_justification sb))
    (\<lambda>input. map_option (\<lambda>(y, rest). ((\<lambda>(b, j). \<lparr>sb_block = b, sb_justification = j\<rparr>) y, rest))
      (tuple_decode (block_decode dec_x) (primitive_justification_decode h256_decode) input))"
    by (rule slicable_iso) (auto intro!: slicable_intros assms)
  then show ?thesis by (simp add: signed_block_encode_def [abs_def] signed_block_decode_def [abs_def] case_prod_unfold)
qed

text \<open>
  An unchecked extrinsic is read back from its encoding, but the length in front may be any: other bytes than those that
  are written decode to the same extrinsic.
\<close>

lemma unchecked_extrinsic_roundtrip:
  assumes "slicable enc_x dec_x" "slicable enc_g dec_g" "unchecked_extrinsic_encode enc_x enc_g u = Some bs"
  shows "unchecked_extrinsic_decode dec_x dec_g (bs @ rest) = Some (u, rest)"
    "u32_encode l = Some len \<Longrightarrow> unchecked_extrinsic_decode dec_x dec_g (len @ drop 4 bs @ rest) = Some (u, rest)"
proof -
  obtain v len where v: "tuple_encode enc_x enc_g (ux_extrinsic u, ux_signature u) = Some v"
    "u32_encode (word_of_nat (length v)) = Some len" "bs = len @ v"
    using assms(3) by (auto simp: unchecked_extrinsic_encode_def bind_eq_Some_conv)
  have d: "unchecked_extrinsic_decode dec_x dec_g (len' @ v @ rest) = Some (u, rest)" if "u32_encode l = Some len'" for l len'
    using u32.decode_encode [OF that] slicable.decode_encode [OF slicable_tuple [OF assms(1,2)] v(1)]
    by (simp add: unchecked_extrinsic_decode_def)
  show "unchecked_extrinsic_decode dec_x dec_g (bs @ rest) = Some (u, rest)" using d [OF v(2)] v(3) by simp
  have "length len = 4" using v(2) by (auto simp: u32_encode_def int_encode_def)
  then show "u32_encode l = Some len \<Longrightarrow> unchecked_extrinsic_decode dec_x dec_g (len @ drop 4 bs @ rest) = Some (u, rest)" for l len
    using d v(3) by simp
qed

end
