(* ===== verification/Parachains.thy ===== *)
theory Parachains
  imports Council Parachain_Types Extrinsics "HOL-Library.Sublist"
begin

text \<open>
  The \<^verbatim>\<open>parachains\<close> module of the Polkadot runtime (\<^verbatim>\<open>src/polkadot/runtime/src/parachains.rs\<close>): the registered
  chains, the heads set once in every block, and the roster that spreads the validators over the chains.  The hash
  \<^verbatim>\<open>blake2_256\<close> is a parameter.
\<close>

record ('a, 'k, 'p) Parachains = "('a, 'k, 'p) Council" +
  para_active_parachains :: "para_id list"
  para_parachain_code :: "para_id \<rightharpoonup> byte list"
  para_parachain_head :: "para_id \<rightharpoonup> byte list"
  para_did_update :: "bool option"

type_synonym ('a, 'k, 'p, 'z) para = "('a, 'k, 'p, 'z) Parachains_scheme"


section \<open>The duty roster\<close>

definition initial_roles :: "para_id list \<Rightarrow> nat \<Rightarrow> nat \<Rightarrow> Chain list" where
  "initial_roles parachains n validators_per_parachain =
    map (\<lambda>i. if i < length parachains * validators_per_parachain
             then Parachain (parachains ! (i div validators_per_parachain)) else Relay) [0..<n]"

text \<open>\<^verbatim>\<open>u32::decode(&mut &seed[from..from + 4])\<close>; a seed that is too short panics.\<close>

definition seed_u32 :: "byte list \<Rightarrow> nat \<Rightarrow> nat option" where
  "seed_u32 seed start =
    (if start + 4 \<le> length seed
     then map_option (\<lambda>(w, _). unat w) (u32_decode (take 4 (drop start seed))) else None)"

definition swap_items :: "'x list \<Rightarrow> nat \<Rightarrow> nat \<Rightarrow> 'x list" where
  "swap_items xs a b = xs[a := xs ! b, b := xs ! a]"

text \<open>The rounds of the shuffle that are left, from round \<open>i\<close> on.\<close>

fun shuffle_roles :: "(byte list \<Rightarrow> byte list) \<Rightarrow> nat \<Rightarrow> nat \<Rightarrow> nat \<Rightarrow> byte list \<Rightarrow> Chain list \<Rightarrow> Chain list \<Rightarrow>
    (Chain list \<times> Chain list) option" where
  "shuffle_roles blake2_256 0 i n seed roles_val roles_gua = Some (roles_val, roles_gua)"
| "shuffle_roles blake2_256 (Suc rounds) i n seed roles_val roles_gua =
    (let offset = i * 8 mod 32; remaining = n - i in do {
       v \<leftarrow> seed_u32 seed offset;
       g \<leftarrow> seed_u32 seed (offset + 4);
       shuffle_roles blake2_256 rounds (i + 1) n (if offset = 24 then blake2_256 seed else seed)
         (swap_items roles_val (remaining - 1) (v mod remaining))
         (swap_items roles_gua (remaining - 1) (g mod remaining))
     })"

text \<open>\<^verbatim>\<open>b"validator_role_pairs"\<close>.\<close>

definition role_pairs_tag :: "byte list" where
  "role_pairs_tag = map word_of_nat [118, 97, 108, 105, 100, 97, 116, 111, 114, 95, 114, 111, 108, 101, 95, 112, 97, 105, 114, 115]"

text \<open>Without validators the first remainder is by zero, or the subtraction before it panics.\<close>

definition calculate_duty_roster :: "(byte list \<Rightarrow> byte list) \<Rightarrow> ('a, 'k, 'p, 'z) para \<Rightarrow> DutyRoster option" where
  "calculate_duty_roster blake2_256 s =
    (let parachains = para_active_parachains s;
         parachain_count = length parachains;
         n = validator_count s;
         validators_per_parachain = (if parachain_count \<noteq> 0 then (n - 1) div parachain_count else 0);
         roles = initial_roles parachains n validators_per_parachain in do {
       assert (n \<noteq> 0);
       random_seed \<leftarrow> sys_random_seed s;
       (v, g) \<leftarrow> shuffle_roles blake2_256 (n - 1) 0 n (blake2_256 (hash_to_vec random_seed @ role_pairs_tag)) roles roles;
       Some \<lparr>validator_duty = v, guarantor_duty = g\<rparr>
     })"


section \<open>Registration\<close>

definition register_parachain :: "para_id \<Rightarrow> byte list \<Rightarrow> byte list \<Rightarrow> ('a, 'k, 'p, 'z) para \<Rightarrow> ('a, 'k, 'p, 'z) para option" where
  "register_parachain i code initial_head_data s =
    (case binary_search (para_active_parachains s) i of
       Inr _ \<Rightarrow> None
     | Inl idx \<Rightarrow> Some (s\<lparr>
         para_parachain_code := (para_parachain_code s)(i \<mapsto> code),
         para_active_parachains := take idx (para_active_parachains s) @ i # drop idx (para_active_parachains s),
         para_parachain_head := (para_parachain_head s)(i \<mapsto> initial_head_data)\<rparr>))"

definition deregister_parachain :: "para_id \<Rightarrow> ('a, 'k, 'p, 'z) para \<Rightarrow> ('a, 'k, 'p, 'z) para" where
  "deregister_parachain i s =
    (let parachains = (case binary_search (para_active_parachains s) i of
           Inr idx \<Rightarrow> take idx (para_active_parachains s) @ drop (idx + 1) (para_active_parachains s)
         | Inl _ \<Rightarrow> para_active_parachains s) in
     s\<lparr>para_parachain_code := (para_parachain_code s)(i := None),
       para_parachain_head := (para_parachain_head s)(i := None),
       para_active_parachains := parachains\<rparr>)"


section \<open>Heads\<close>

text \<open>\<^verbatim>\<open>iter.find\<close>: the iterator is left behind the element that was found.\<close>

fun find_from :: "para_id list \<Rightarrow> para_id \<Rightarrow> para_id list option" where
  "find_from [] i = None"
| "find_from (p # ps) i = (if p = i then Some ps else find_from ps i)"

fun heads_in_order :: "para_id list \<Rightarrow> para_id list \<Rightarrow> bool" where
  "heads_in_order iter [] = True"
| "heads_in_order iter (i # heads) = (case find_from iter i of None \<Rightarrow> False | Some rest \<Rightarrow> heads_in_order rest heads)"

definition set_heads :: "nat \<Rightarrow> 'a::zero \<Rightarrow> CandidateReceipt list \<Rightarrow> ('a, 'k, 'p, 'z) para \<Rightarrow> ('a, 'k, 'p, 'z) para outcome" where
  "set_heads set_position aux heads s =
    (if aux \<noteq> 0 then Some (Inl ''set_heads must not be signed'', s)
     else if para_did_update s \<noteq> None then Some (Inl ''Parachain heads must be updated only once in the block'', s)
     else do {
       index \<leftarrow> sys_extrinsic_index s;
       Some (if index \<noteq> set_position
         then (Inl ''Parachain heads update extrinsic must be at position {} in the block'', s)
         else if \<not> heads_in_order (para_active_parachains s) (map parachain_index heads)
         then (Inl ''Submitted candidate for unregistered or out-of-order parachain {}'', s)
         else (Inr (), s\<lparr>
           para_parachain_head := foldl (\<lambda>m h. m(parachain_index h \<mapsto> head_data h)) (para_parachain_head s) heads,
           para_did_update := Some True\<rparr>))
     })"

definition parachains_execute :: "('a, 'k, 'p, 'z) para \<Rightarrow> ('a, 'k, 'p, 'z) para option" where
  "parachains_execute s = do {
    assert (or_default False (para_did_update s));
    Some (s\<lparr>para_did_update := None\<rparr>)
  }"


section \<open>Genesis\<close>

text \<open>\<^verbatim>\<open>dedup_by_key\<close>: of equal neighbours the first stays.\<close>

fun dedup_by_key :: "('x \<Rightarrow> 'y) \<Rightarrow> 'x list \<Rightarrow> 'x list" where
  "dedup_by_key key [] = []"
| "dedup_by_key key [x] = [x]"
| "dedup_by_key key (x # y # xs) =
    (if key x = key y then dedup_by_key key (x # xs) else x # dedup_by_key key (y # xs))"

text \<open>
  The configured chains in the order of their ids.  The source sorts with an unstable sort, so which of two
  entries of the same id stays is left open; the model keeps the first.  No head is written.
\<close>

definition parachains_build_storage :: "(para_id \<times> byte list) list \<Rightarrow> ('a, 'k, 'p) Council \<Rightarrow> ('a, 'k, 'p) Parachains" where
  "parachains_build_storage config s =
    (let parachains = dedup_by_key fst (sort_key fst config) in
     Council.Council.extend s (Parachains.Parachains.fields (map fst parachains)
       (foldl (\<lambda>m (i, code). m(i \<mapsto> code)) Map.empty parachains) Map.empty None))"


section \<open>The roster is fair\<close>

lemma seed_u32_Some: "start + 4 \<le> length seed \<Longrightarrow> \<exists>v. seed_u32 seed start = Some v"
  by (simp add: seed_u32_def u32_decode_def int_decode_def read_exact_def)

lemma swap_items_perm:
  assumes "a < length xs" "b < length xs"
  shows "mset (swap_items xs a b) = mset xs" "length (swap_items xs a b) = length xs"
  using assms by (simp_all add: swap_items_def mset_swap)

lemma shuffle_roles_perm:
  assumes b: "\<And>x. length (blake2_256 x) = 32"
  shows "i + rounds < n \<Longrightarrow> length seed = 32 \<Longrightarrow> length rv = n \<Longrightarrow> length rg = n \<Longrightarrow>
    \<exists>v g. shuffle_roles blake2_256 rounds i n seed rv rg = Some (v, g) \<and> mset v = mset rv \<and> mset g = mset rg"
proof (induction rounds arbitrary: i seed rv rg)
  case (Suc rounds)
  define offset where "offset = i * 8 mod 32"
  define remaining where "remaining = n - i"
  have "offset = 8 * (i mod 4)" unfolding offset_def using mult_mod_right [of 8 i 4] by (simp add: mult.commute)
  moreover have "i mod 4 < 4" by simp
  ultimately have "offset \<le> 24" by linarith
  then obtain v g where v: "seed_u32 seed offset = Some v" and g: "seed_u32 seed (offset + 4) = Some g"
    using seed_u32_Some [of offset seed] seed_u32_Some [of "offset + 4" seed] Suc.prems(2) by auto
  have r: "0 < remaining" "remaining \<le> n" using Suc.prems(1) by (simp_all add: remaining_def)
  define rv' where "rv' = swap_items rv (remaining - 1) (v mod remaining)"
  define rg' where "rg' = swap_items rg (remaining - 1) (g mod remaining)"
  have m: "remaining - 1 < n" "v mod remaining < n" "g mod remaining < n"
    using r mod_less_divisor [of remaining v] mod_less_divisor [of remaining g] by linarith+
  have p: "mset rv' = mset rv" "length rv' = n" "mset rg' = mset rg" "length rg' = n"
    using m Suc.prems(3,4) swap_items_perm [of "remaining - 1" rv "v mod remaining"]
      swap_items_perm [of "remaining - 1" rg "g mod remaining"]
    by (simp_all add: rv'_def rg'_def)
  have "shuffle_roles blake2_256 (Suc rounds) i n seed rv rg =
      shuffle_roles blake2_256 rounds (i + 1) n (if offset = 24 then blake2_256 seed else seed) rv' rg'"
    using v g by (simp add: Let_def rv'_def rg'_def remaining_def [symmetric] offset_def [symmetric])
  moreover have "length (if offset = 24 then blake2_256 seed else seed) = 32" using b Suc.prems(2) by simp
  ultimately show ?case using Suc.IH [of "i + 1" "if offset = 24 then blake2_256 seed else seed" rv' rg'] Suc.prems(1) p by simp
qed simp

lemma count_map_upt: "count (mset (map f [0..<n])) x = card {i. i < n \<and> f i = x}"
proof -
  have "count (mset (map f [0..<n])) x = length (filter (\<lambda>i. f i = x) [0..<n])"
    by (induction n) auto
  also have "\<dots> = card {i. i < n \<and> f i = x}"
    unfolding length_filter_conv_card by (rule arg_cong [where f = card]) auto
  finally show ?thesis .
qed

lemma initial_roles_counts:
  assumes d: "distinct ps" and le: "length ps * per \<le> n"
  shows "p \<in> set ps \<Longrightarrow> count (mset (initial_roles ps n per)) (Parachain p) = per"
    "count (mset (initial_roles ps n per)) Relay = n - length ps * per"
proof -
  let ?f = "\<lambda>i. if i < length ps * per then Parachain (ps ! (i div per)) else Relay"
  show "count (mset (initial_roles ps n per)) (Parachain p) = per" if p: "p \<in> set ps"
  proof -
    obtain k where k: "k < length ps" "ps ! k = p" using p by (metis in_set_conv_nth)
    have eq: "i < n \<and> ?f i = Parachain p \<longleftrightarrow> k * per \<le> i \<and> i < k * per + per" for i
    proof (cases "per = 0")
      case False
      have kp: "k * per + per \<le> length ps * per" using k(1) by (metis Suc_leI add.commute mult_Suc mult_le_mono1)
      have "i < length ps * per \<Longrightarrow> i div per < length ps" by (simp add: less_mult_imp_div_less)
      then have "i < length ps * per \<Longrightarrow> ps ! (i div per) = p \<longleftrightarrow> i div per = k"
        using d k nth_eq_iff_index_eq by metis
      moreover have "i div per = k \<longleftrightarrow> k * per \<le> i \<and> i < k * per + per"
      proof
        assume "i div per = k"
        then show "k * per \<le> i \<and> i < k * per + per"
          using False dividend_less_times_div [of per i] times_div_less_eq_dividend [of per i]
          by (metis add.commute mult.commute neq0_conv)
      next
        assume "k * per \<le> i \<and> i < k * per + per"
        then show "i div per = k" by (intro div_nat_eqI) (simp_all add: mult.commute)
      qed
      ultimately show ?thesis using kp le by auto
    qed auto
    have "{i. i < n \<and> ?f i = Parachain p} = {k * per..<k * per + per}"
      unfolding eq by (simp add: atLeastLessThan_def atLeast_def lessThan_def Int_def)
    then show ?thesis unfolding initial_roles_def count_map_upt by simp
  qed
  have "{i. i < n \<and> ?f i = Relay} = {length ps * per..<n}" by auto
  then show "count (mset (initial_roles ps n per)) Relay = n - length ps * per"
    unfolding initial_roles_def count_map_upt by simp
qed

text \<open>
  C38.  The roster is fair.  With at least one validator the shuffle always finishes, and both the validation and
  the availability duties are a rearrangement in which every registered parachain has exactly the same number of
  validators, one less than all of them divided by the number of chains, and the rest, at least one, serve the relay chain.
\<close>

theorem duty_roster_fair:
  assumes "\<forall>x. length (blake2_256 x) = 32" "distinct (para_active_parachains s)" "ses_validators s \<noteq> []"
    "length (ses_validators s) < 2 ^ 32" "sys_random_seed s = Some seed"
    and "n = length (ses_validators s)" "c = length (para_active_parachains s)"
  shows "\<exists>roster. calculate_duty_roster blake2_256 s = Some roster \<and>
    (\<forall>duty \<in> {validator_duty roster, guarantor_duty roster}.
      length duty = n \<and> (\<forall>p \<in> set (para_active_parachains s). count (mset duty) (Parachain p) = (n - 1) div c) \<and>
      count (mset duty) Relay = n - c * ((n - 1) div c) \<and> 0 < count (mset duty) Relay)"
proof -
  let ?ps = "para_active_parachains s"
  define per where "per = (if c \<noteq> 0 then (n - 1) div c else 0)"
  define roles where "roles = initial_roles ?ps n per"
  have n: "0 < n" "validator_count s = n" using assms(3,4,6) by (simp_all add: validator_count_def)
  have le: "c * per \<le> n - 1" by (simp add: per_def)
  have per: "c \<noteq> 0 \<Longrightarrow> per = (n - 1) div c" "c * per = c * ((n - 1) div c)" by (simp_all add: per_def)
  have len: "length roles = n" by (simp add: roles_def initial_roles_def)
  obtain v g where vg: "shuffle_roles blake2_256 (n - 1) 0 n (blake2_256 (hash_to_vec seed @ role_pairs_tag)) roles roles = Some (v, g)"
    "mset v = mset roles" "mset g = mset roles"
    using shuffle_roles_perm [of blake2_256 0 "n - 1" n "blake2_256 (hash_to_vec seed @ role_pairs_tag)" roles roles]
      assms(1) n(1) len by auto
  have run: "calculate_duty_roster blake2_256 s = Some \<lparr>validator_duty = v, guarantor_duty = g\<rparr>"
    unfolding calculate_duty_roster_def Let_def n(2) assms(7) [symmetric] per_def [symmetric] roles_def [symmetric]
    using vg(1) n(1) assms(5) by simp
  have cnt: "\<forall>p \<in> set ?ps. count (mset roles) (Parachain p) = (n - 1) div c"
    "count (mset roles) Relay = n - c * ((n - 1) div c)"
  proof -
    have le': "length ?ps * per \<le> n" unfolding assms(7) [symmetric] using le by linarith
    note i = initial_roles_counts [OF assms(2) le', folded roles_def]
    show "\<forall>p \<in> set ?ps. count (mset roles) (Parachain p) = (n - 1) div c"
    proof
      fix p assume p: "p \<in> set ?ps"
      then have "c \<noteq> 0" using assms(7) by auto
      then show "count (mset roles) (Parachain p) = (n - 1) div c" using i(1) [OF p] per(1) by simp
    qed
    show "count (mset roles) Relay = n - c * ((n - 1) div c)" using i(2) unfolding assms(7) [symmetric] per(2) .
  qed
  have pos: "0 < n - c * ((n - 1) div c)" using le n(1) per(2) by linarith
  have duty: "length d = n \<and> (\<forall>p \<in> set ?ps. count (mset d) (Parachain p) = (n - 1) div c) \<and>
      count (mset d) Relay = n - c * ((n - 1) div c) \<and> 0 < count (mset d) Relay" if "mset d = mset roles" for d
    using cnt pos mset_eq_length [OF that] len unfolding that by simp
  then show ?thesis using run duty [OF vg(2)] duty [OF vg(3)] by simp
qed
definition sample_parachains :: "(nat, nat, nat) Parachains" where
  "sample_parachains = parachains_build_storage [(7, [1]), (3, [2])]
    (council_build_storage council_default_config sample_democracy)"

lemma sample_parachains_fields:
  "para_active_parachains sample_parachains = [3, 7]" "ses_validators sample_parachains = [1, 2, 3]"
  "sys_random_seed sample_parachains = Some 0" "sys_extrinsic_index sample_parachains = Some 0"
  "para_did_update sample_parachains = None" "para_parachain_head sample_parachains = Map.empty"
  by (simp_all add: sample_parachains_def parachains_build_storage_def council_build_storage_def
      council_default_config_def sample_democracy_defs Council.Council.defs Parachains.Parachains.defs)

theorem duty_roster_fair_witness:
  "\<exists>roster. calculate_duty_roster (\<lambda>x. replicate 32 (of_nat (length x))) sample_parachains = Some roster \<and>
     count (mset (validator_duty roster)) (Parachain 3) = 1 \<and> count (mset (guarantor_duty roster)) Relay = 1"
proof -
  have n: "3 = length (ses_validators sample_parachains)" "2 = length (para_active_parachains sample_parachains)"
    by (simp_all add: sample_parachains_fields)
  show ?thesis
    using duty_roster_fair [of "\<lambda>x. replicate 32 (of_nat (length x))" sample_parachains 0 3 2, OF _ _ _ _ _ n]
    by (auto simp: sample_parachains_fields)
qed


section \<open>Heads are set for registered chains, in order, once in a block\<close>

lemma find_from_Some: "find_from ps i = Some rest \<Longrightarrow> \<exists>pre. ps = pre @ i # rest \<and> i \<notin> set pre"
proof (induction ps)
  case (Cons p ps)
  show ?case
  proof (cases "p = i")
    case True
    then show ?thesis using Cons.prems by (intro exI [of _ "[]"]) simp
  next
    case False
    then obtain pre where "ps = pre @ i # rest" "i \<notin> set pre" using Cons by auto
    then show ?thesis using False by (intro exI [of _ "p # pre"]) simp
  qed
qed simp

lemma find_from_None: "find_from ps i = None \<longleftrightarrow> i \<notin> set ps"
  by (induction ps) auto

lemma heads_in_order_subseq: "heads_in_order ps is \<longleftrightarrow> subseq is ps"
proof (induction ps "is" rule: heads_in_order.induct)
  case (2 iter i heads)
  show ?case
  proof (cases "find_from iter i")
    case None
    then have "i \<notin> set iter" by (simp add: find_from_None)
    then have "\<not> subseq (i # heads) iter" using list_emb_set [of "(=)" "i # heads" iter i] by auto
    then show ?thesis using None by simp
  next
    case (Some rest)
    obtain pre where pre: "iter = pre @ i # rest" "i \<notin> set pre" using find_from_Some [OF Some] by blast
    have "subseq (i # heads) (pre @ i # rest) \<longleftrightarrow> subseq heads rest"
      using pre(2) by (induction pre) auto
    then show ?thesis using 2 [OF Some] Some pre(1) by simp
  qed
qed simp

lemma subseq_ascending:
  assumes "sorted ps" "distinct ps"
  shows "subseq xs ps \<longleftrightarrow> set xs \<subseteq> set ps \<and> sorted xs \<and> distinct xs"
proof
  assume "subseq xs ps"
  then obtain N where "xs = nths ps N" using subseq_conv_nths by blast
  then show "set xs \<subseteq> set ps \<and> sorted xs \<and> distinct xs"
    using assms set_nths_subset [of ps N] sorted_nths [of ps N] distinct_nthsI [of ps N] by simp
next
  assume r: "set xs \<subseteq> set ps \<and> sorted xs \<and> distinct xs"
  have "filter (\<lambda>x. x \<in> set xs) ps = xs"
    using r assms sorted_wrt_filter [of "(\<le>)" ps] by (intro sorted_distinct_set_unique) auto
  then show "subseq xs ps" by (metis subseq_filter_left)
qed

lemma heads_written:
  "distinct (map parachain_index heads) \<Longrightarrow>
   foldl (\<lambda>m h. m(parachain_index h \<mapsto> head_data h)) m heads i =
   (case map_of (map (\<lambda>h. (parachain_index h, head_data h)) heads) i of Some d \<Rightarrow> Some d | None \<Rightarrow> m i)"
proof (induction heads arbitrary: m)
  case (Cons h heads)
  have "map_of (map (\<lambda>h. (parachain_index h, head_data h)) heads) (parachain_index h) = None"
    using Cons.prems by (auto simp: map_of_eq_None_iff)
  then show ?case using Cons by (auto split: option.split)
qed simp

text \<open>
  C39.  Heads are only set for registered chains.  The call succeeds exactly when it is unsigned, has not succeeded before in
  the block, stands at its position and names registered chains in ascending order without repetition; it then
  sets the head of each of them and of no other, and any other call of it changes nothing.
\<close>

theorem set_heads_exact:
  assumes "sorted (para_active_parachains s)" "distinct (para_active_parachains s)" "sys_extrinsic_index s = Some index"
  shows "\<exists>r s'. set_heads position aux heads s = Some (r, s') \<and>
    (r = Inr () \<longleftrightarrow> aux = 0 \<and> para_did_update s = None \<and> index = position \<and>
       set (map parachain_index heads) \<subseteq> set (para_active_parachains s) \<and>
       sorted (map parachain_index heads) \<and> distinct (map parachain_index heads)) \<and>
    (if r = Inr ()
     then para_did_update s' = Some True \<and> (\<forall>i. para_parachain_head s' i =
        (case map_of (map (\<lambda>h. (parachain_index h, head_data h)) heads) i of
           Some d \<Rightarrow> Some d | None \<Rightarrow> para_parachain_head s i))
     else s' = s)"
proof -
  note ord = subseq_ascending [OF assms(1,2)]
  show ?thesis
    using assms(3) ord [of "map parachain_index heads"] heads_written [of heads "para_parachain_head s"]
    by (auto simp: set_heads_def heads_in_order_subseq)
qed
theorem set_heads_exact_witness:
  "let s = sample_parachains\<lparr>sys_extrinsic_index := Some 1\<rparr>;
       heads = [\<lparr>parachain_index = 7, collator = [], head_data = [9], balance_uploads = [], egress_queue_roots = [], cr_fees = 0\<rparr>] in
   \<exists>s'. set_heads 1 0 heads s = Some (Inr (), s') \<and> para_parachain_head s' 7 = Some [9] \<and> para_did_update s' = Some True"
proof -
  define s where "s = sample_parachains\<lparr>sys_extrinsic_index := Some 1\<rparr>"
  define heads where "heads = [\<lparr>parachain_index = 7, collator = [], head_data = [9], balance_uploads = [], egress_queue_roots = [], cr_fees = 0\<rparr>]"
  have f: "para_active_parachains s = [3, 7]" "para_did_update s = None" "sys_extrinsic_index s = Some 1"
    by (simp_all add: s_def sample_parachains_fields)
  obtain r s' where r: "set_heads 1 0 heads s = Some (r, s')" "r = Inr ()"
    "para_did_update s' = Some True" "para_parachain_head s' 7 = Some [9]"
    using set_heads_exact [of s 1 1 0 heads] by (auto simp: f heads_def split: if_splits)
  then show ?thesis unfolding Let_def s_def heads_def by blast
qed


section \<open>Registration keeps the chains in order\<close>

lemma sorted_insert_at:
  assumes "sorted xs" "distinct xs" "x \<notin> set xs"
  shows "sorted (takeWhile (\<lambda>y. y < x) xs @ x # dropWhile (\<lambda>y. y < x) xs)"
proof -
  have "\<forall>y \<in> set (dropWhile (\<lambda>y. y < x) xs). x \<le> y"
    using assms(1) by (induction xs) (auto split: if_splits)
  moreover have "\<forall>y \<in> set (takeWhile (\<lambda>y. y < x) xs). y < x" by (auto dest: set_takeWhileD)
  moreover have "sorted (takeWhile (\<lambda>y. y < x) xs @ dropWhile (\<lambda>y. y < x) xs)" using assms(1) by simp
  ultimately show ?thesis unfolding sorted_append by fastforce
qed

lemma register_deregister:
  assumes s: "sorted (para_active_parachains s)" and d: "distinct (para_active_parachains s)"
  shows "register_parachain i code h s = None \<longleftrightarrow> i \<in> set (para_active_parachains s)"
    "register_parachain i code h s = Some s' \<Longrightarrow>
       sorted (para_active_parachains s') \<and> distinct (para_active_parachains s') \<and>
       set (para_active_parachains s') = insert i (set (para_active_parachains s))"
    "sorted (para_active_parachains (deregister_parachain i s)) \<and> distinct (para_active_parachains (deregister_parachain i s)) \<and>
       set (para_active_parachains (deregister_parachain i s)) = set (para_active_parachains s) - {i}"
proof -
  let ?ps = "para_active_parachains s"
  let ?t = "takeWhile (\<lambda>y. y < i) ?ps" and ?d = "dropWhile (\<lambda>y. y < i) ?ps"
  have td: "take (length ?t) ?ps = ?t" "drop (length ?t) ?ps = ?d"
    by (metis takeWhile_eq_take, metis dropWhile_eq_drop)
  have split: "?ps = ?t @ ?d" by simp
  show "register_parachain i code h s = None \<longleftrightarrow> i \<in> set ?ps"
    by (simp add: register_parachain_def binary_search_def Let_def)
  show "sorted (para_active_parachains s') \<and> distinct (para_active_parachains s') \<and>
      set (para_active_parachains s') = insert i (set ?ps)" if "register_parachain i code h s = Some s'"
  proof -
    have i: "i \<notin> set ?ps" "para_active_parachains s' = ?t @ i # ?d"
      using that td by (auto simp: register_parachain_def binary_search_def Let_def split: if_splits)
    have "mset (?t @ i # ?d) = add_mset i (mset (?t @ ?d))" by (simp only: mset_append mset.simps union_mset_add_mset_right)
    then have m: "mset (?t @ i # ?d) = mset (i # ?ps)" by simp
    have "distinct (i # ?ps)" using d i(1) by simp
    then show ?thesis
      using sorted_insert_at [OF s d i(1)] mset_eq_setD [OF m] mset_eq_imp_distinct_iff [OF m] unfolding i(2) by simp
  qed
  show "sorted (para_active_parachains (deregister_parachain i s)) \<and> distinct (para_active_parachains (deregister_parachain i s)) \<and>
       set (para_active_parachains (deregister_parachain i s)) = set ?ps - {i}"
  proof (cases "i \<in> set ?ps")
    case True
    then obtain a b where ab: "?ps = a @ i # b" by (meson split_list)
    have "\<forall>y \<in> set a. y < i" using s d unfolding ab by (auto simp: sorted_append less_le)
    then have "?t = a" unfolding ab by (simp add: takeWhile_append2)
    then have "para_active_parachains (deregister_parachain i s) = a @ b"
      using True by (simp add: deregister_parachain_def binary_search_def Let_def ab)
    moreover have "sorted (a @ b)" "distinct (a @ b)" "i \<notin> set (a @ b)"
      using s d unfolding ab by (auto simp: sorted_append)
    ultimately show ?thesis by (auto simp: ab)
  qed (use s d in \<open>simp add: deregister_parachain_def binary_search_def Let_def\<close>)
qed

end
