(* ===== verification/Executive.thy ===== *)
theory Executive
  imports Parachains Staking_Proofs
begin

text \<open>
  The runtime as one program: the calls of every module and their dispatch (\<^verbatim>\<open>src/polkadot/runtime/src/lib.rs\<close>), the execution of
  extrinsics and blocks (\<^verbatim>\<open>src/substrate/runtime/executive/src/lib.rs\<close>), and the inherent extrinsics and the structural check of a block
  (\<^verbatim>\<open>src/polkadot/runtime/src/utils.rs\<close>, \<^verbatim>\<open>src/polkadot/runtime/src/checked_block.rs\<close>).  The executive is generic in the source; what it is
  generic in is the record \<open>executive_traits\<close> here, and \<open>polkadot_executive\<close> is its instance.
\<close>

section \<open>Calls\<close>

type_synonym account_id = hash
type_synonym session_key = hash

datatype consensus_call = Call_report_misbehavior "(hash, nat) MisbehaviorReport"
datatype session_call = Call_set_key session_key
datatype timestamp_call = Call_set nat
datatype 'p democracy_call = Call_propose 'p nat | Call_second nat | Call_vote nat bool
datatype 'a council_call =
    Call_set_approvals "bool list" nat
  | Call_reap_inactive_voter nat "('a, nat) address" nat nat
  | Call_retract_voter nat
  | Call_submit_candidacy nat
  | Call_present_winner "('a, nat) address" nat nat
datatype 'p voting_call = Voting_propose 'p | Voting_vote hash bool | Voting_veto hash
datatype parachains_call = Call_set_heads "CandidateReceipt list"

datatype consensus_priv_call = Priv_set_code "byte list" | Priv_set_storage "(byte list \<times> byte list) list"
datatype session_priv_call = Priv_set_length nat | Priv_force_new_session bool
datatype 'p democracy_priv_call = Priv_start_referendum 'p vote_threshold | Priv_cancel_referendum nat
datatype 'a council_priv_call =
    Priv_set_desired_seats nat
  | Priv_remove_member "('a, nat) address"
  | Priv_set_presentation_duration nat
  | Priv_set_term_duration nat
datatype voting_priv_call = Priv_set_cooloff_period nat | Priv_set_voting_period nat

text \<open>\<^verbatim>\<open>PrivCall\<close> is the proposal of \<^verbatim>\<open>democracy\<close>, so a proposal can start a referendum on a proposal.\<close>

datatype PrivCall =
    PrivCall_Consensus consensus_priv_call
  | PrivCall_Session session_priv_call
  | PrivCall_Staking staking_priv_call
  | PrivCall_Democracy "PrivCall democracy_priv_call"
  | PrivCall_Council "account_id council_priv_call"
  | PrivCall_CouncilVoting voting_priv_call

datatype Call =
    Call_Consensus consensus_call
  | Call_Session session_call
  | Call_Staking "account_id staking_call"
  | Call_Timestamp timestamp_call
  | Call_Democracy "PrivCall democracy_call"
  | Call_Council "account_id council_call"
  | Call_CouncilVoting "PrivCall voting_call"
  | Call_Parachains parachains_call

type_synonym runtime = "(account_id, session_key, PrivCall) Parachains"


section \<open>Calls on the wire\<close>

text \<open>
  An enum is its index and its parameters.  Integers have the width of their type: \<^verbatim>\<open>u32\<close> for indices, \<^verbatim>\<open>u64\<close> for block numbers and
  moments, \<^verbatim>\<open>u128\<close> for balances.
\<close>

definition nat_encode :: "nat \<Rightarrow> nat encoder" where
  "nat_encode bytes n = Some (le_encode bytes n)"

definition bool_encode :: "bool encoder" where
  "bool_encode b = Some [if b then 1 else 0]"

definition tagged :: "byte \<Rightarrow> byte list option \<Rightarrow> byte list option" where
  "tagged i s = map_option (\<lambda>bs. i # bs) s"

definition consensus_call_encode :: "consensus_call encoder" where
  "consensus_call_encode c = (case c of Call_report_misbehavior report \<Rightarrow> tagged 0 (report_encode h256_encode (nat_encode 8) report))"

definition session_call_encode :: "session_call encoder" where
  "session_call_encode c = (case c of Call_set_key key \<Rightarrow> tagged 0 (h256_encode key))"

definition timestamp_call_encode :: "timestamp_call encoder" where
  "timestamp_call_encode c = (case c of Call_set now \<Rightarrow> tagged 0 (nat_encode 8 now))"

definition staking_call_encode :: "account_id staking_call encoder" where
  "staking_call_encode c = (case c of
      Call_transfer dest amount \<Rightarrow> tagged 0 (tuple_encode (address_encode h256_encode) (nat_encode 16) (dest, amount))
    | Call_stake \<Rightarrow> tagged 1 (Some [])
    | Call_unstake position \<Rightarrow> tagged 2 (nat_encode 4 position)
    | Call_nominate target \<Rightarrow> tagged 3 (address_encode h256_encode target)
    | Call_unnominate target_index \<Rightarrow> tagged 4 (nat_encode 4 target_index))"

definition council_call_encode :: "account_id council_call encoder" where
  "council_call_encode c = (case c of
      Call_set_approvals votes ix \<Rightarrow> tagged 0 (tuple_encode (vec_encode bool_encode) (nat_encode 4) (votes, ix))
    | Call_reap_inactive_voter signed_index who who_index assumed \<Rightarrow>
        tagged 1 (tuple_encode (nat_encode 4) (tuple_encode (address_encode h256_encode)
          (tuple_encode (nat_encode 4) (nat_encode 4))) (signed_index, who, who_index, assumed))
    | Call_retract_voter ix \<Rightarrow> tagged 2 (nat_encode 4 ix)
    | Call_submit_candidacy slot \<Rightarrow> tagged 3 (nat_encode 4 slot)
    | Call_present_winner candidate amount ix \<Rightarrow>
        tagged 4 (tuple_encode (address_encode h256_encode) (tuple_encode (nat_encode 16) (nat_encode 4)) (candidate, amount, ix)))"

definition parachains_call_encode :: "parachains_call encoder" where
  "parachains_call_encode c = (case c of Call_set_heads heads \<Rightarrow> tagged 0 (vec_encode candidate_receipt_encode heads))"

definition consensus_priv_call_encode :: "consensus_priv_call encoder" where
  "consensus_priv_call_encode c = (case c of
      Priv_set_code new \<Rightarrow> tagged 0 (encode_slice new)
    | Priv_set_storage items \<Rightarrow> tagged 1 (vec_encode (tuple_encode encode_slice encode_slice) items))"

definition session_priv_call_encode :: "session_priv_call encoder" where
  "session_priv_call_encode c = (case c of
      Priv_set_length new \<Rightarrow> tagged 0 (nat_encode 8 new)
    | Priv_force_new_session normal_rotation \<Rightarrow> tagged 1 (bool_encode normal_rotation))"

definition staking_priv_call_encode :: "staking_priv_call encoder" where
  "staking_priv_call_encode c = (case c of
      Priv_set_sessions_per_era new \<Rightarrow> tagged 0 (nat_encode 8 new)
    | Priv_set_bonding_duration new \<Rightarrow> tagged 1 (nat_encode 8 new)
    | Priv_set_validator_count new \<Rightarrow> tagged 2 (nat_encode 4 new)
    | Priv_force_new_era \<Rightarrow> tagged 3 (Some []))"

definition council_priv_call_encode :: "account_id council_priv_call encoder" where
  "council_priv_call_encode c = (case c of
      Priv_set_desired_seats seats \<Rightarrow> tagged 0 (nat_encode 4 seats)
    | Priv_remove_member who \<Rightarrow> tagged 1 (address_encode h256_encode who)
    | Priv_set_presentation_duration blocks \<Rightarrow> tagged 2 (nat_encode 8 blocks)
    | Priv_set_term_duration blocks \<Rightarrow> tagged 3 (nat_encode 8 blocks))"

definition voting_priv_call_encode :: "voting_priv_call encoder" where
  "voting_priv_call_encode c = (case c of
      Priv_set_cooloff_period blocks \<Rightarrow> tagged 0 (nat_encode 8 blocks)
    | Priv_set_voting_period blocks \<Rightarrow> tagged 1 (nat_encode 8 blocks))"

fun priv_call_encode :: "PrivCall encoder" where
  "priv_call_encode (PrivCall_Consensus c) = tagged 0 (consensus_priv_call_encode c)"
| "priv_call_encode (PrivCall_Session c) = tagged 1 (session_priv_call_encode c)"
| "priv_call_encode (PrivCall_Staking c) = tagged 2 (staking_priv_call_encode c)"
| "priv_call_encode (PrivCall_Democracy (Priv_start_referendum p threshold)) = tagged 5 (tagged 0 (do {
     bs \<leftarrow> priv_call_encode p;
     t \<leftarrow> vote_threshold_encode threshold;
     Some (bs @ t)
   }))"
| "priv_call_encode (PrivCall_Democracy (Priv_cancel_referendum ref_index)) = tagged 5 (tagged 1 (nat_encode 4 ref_index))"
| "priv_call_encode (PrivCall_Council c) = tagged 6 (council_priv_call_encode c)"
| "priv_call_encode (PrivCall_CouncilVoting c) = tagged 7 (voting_priv_call_encode c)"

definition democracy_call_encode :: "PrivCall democracy_call encoder" where
  "democracy_call_encode c = (case c of
      Call_propose p amount \<Rightarrow> tagged 0 (tuple_encode priv_call_encode (nat_encode 16) (p, amount))
    | Call_second p \<Rightarrow> tagged 1 (nat_encode 4 p)
    | Call_vote ref_index approve \<Rightarrow> tagged 2 (tuple_encode (nat_encode 4) bool_encode (ref_index, approve)))"

definition voting_call_encode :: "PrivCall voting_call encoder" where
  "voting_call_encode c = (case c of
      Voting_propose p \<Rightarrow> tagged 0 (priv_call_encode p)
    | Voting_vote h approve \<Rightarrow> tagged 1 (tuple_encode h256_encode bool_encode (h, approve))
    | Voting_veto h \<Rightarrow> tagged 2 (h256_encode h))"

definition call_encode :: "Call encoder" where
  "call_encode c = (case c of
      Call_Consensus x \<Rightarrow> tagged 0 (consensus_call_encode x)
    | Call_Session x \<Rightarrow> tagged 1 (session_call_encode x)
    | Call_Staking x \<Rightarrow> tagged 2 (staking_call_encode x)
    | Call_Timestamp x \<Rightarrow> tagged 3 (timestamp_call_encode x)
    | Call_Democracy x \<Rightarrow> tagged 5 (democracy_call_encode x)
    | Call_Council x \<Rightarrow> tagged 6 (council_call_encode x)
    | Call_CouncilVoting x \<Rightarrow> tagged 7 (voting_call_encode x)
    | Call_Parachains x \<Rightarrow> tagged 8 (parachains_call_encode x))"


section \<open>Dispatch\<close>

text \<open>
  What the runtime takes from its host and from external crates: \<^verbatim>\<open>put_raw\<close> of a storage key, \<^verbatim>\<open>blake2_256\<close>, the roots, the check of an
  Ed25519 signature, the integer square root and the executor of contracts.
\<close>

record host =
  h_put_raw :: "byte list \<Rightarrow> byte list \<Rightarrow> runtime \<Rightarrow> runtime"
  h_blake2_256 :: "byte list \<Rightarrow> hash"
  h_trie_root :: "byte list list \<Rightarrow> hash"
  h_storage_root :: "runtime \<Rightarrow> hash"
  h_ed25519_verify :: "512 word \<Rightarrow> byte list \<Rightarrow> account_id \<Rightarrow> bool"
  h_isqrt :: "nat \<Rightarrow> nat"
  h_executor :: "byte list \<Rightarrow> account_id \<Rightarrow> nat \<Rightarrow> runtime \<Rightarrow> account_id account_db \<Rightarrow> account_id changes \<Rightarrow> bool \<times> account_id changes"

definition TIMESTAMP_SET_POSITION :: nat where [simp]: "TIMESTAMP_SET_POSITION = 0"
definition PARACHAINS_SET_POSITION :: nat where [simp]: "PARACHAINS_SET_POSITION = 1"

text \<open>\<^verbatim>\<open>SessionKeyConversion\<close>: the same bytes.\<close>

definition session_key_conversion :: "account_id \<Rightarrow> session_key" where
  "session_key_conversion a = a"

definition finished :: "runtime option \<Rightarrow> runtime outcome" where
  "finished r = map_option (\<lambda>s. (Inr (), s)) r"

text \<open>\<^verbatim>\<open>Dispatchable\<close> of the privileged calls.\<close>

definition consensus_priv_dispatch :: "host \<Rightarrow> consensus_priv_call \<Rightarrow> runtime \<Rightarrow> runtime outcome" where
  "consensus_priv_dispatch h c s = (case c of
      Priv_set_code new \<Rightarrow> finished (Some (set_code new s))
    | Priv_set_storage items \<Rightarrow> finished (Some (fold (\<lambda>(k, v). h_put_raw h k v) items s)))"

definition session_priv_dispatch :: "session_priv_call \<Rightarrow> runtime \<Rightarrow> runtime outcome" where
  "session_priv_dispatch c s = (case c of
      Priv_set_length new \<Rightarrow> finished (Some (set_length new s))
    | Priv_force_new_session normal_rotation \<Rightarrow>
        finished (force_new_session (new_session session_key_conversion) normal_rotation s))"

definition democracy_priv_dispatch :: "PrivCall democracy_priv_call \<Rightarrow> runtime \<Rightarrow> runtime outcome" where
  "democracy_priv_dispatch c s = (case c of
      Priv_start_referendum p threshold \<Rightarrow> start_referendum p threshold s
    | Priv_cancel_referendum ref_index \<Rightarrow> Some (cancel_referendum ref_index s))"

definition council_priv_dispatch :: "account_id council_priv_call \<Rightarrow> runtime \<Rightarrow> runtime outcome" where
  "council_priv_dispatch c s = (case c of
      Priv_set_desired_seats seats \<Rightarrow> Some (set_desired_seats seats s)
    | Priv_remove_member who \<Rightarrow> Some (remove_member who s)
    | Priv_set_presentation_duration blocks \<Rightarrow> Some (set_presentation_duration blocks s)
    | Priv_set_term_duration blocks \<Rightarrow> Some (set_term_duration blocks s))"

definition voting_priv_dispatch :: "voting_priv_call \<Rightarrow> runtime \<Rightarrow> runtime outcome" where
  "voting_priv_dispatch c s = (case c of
      Priv_set_cooloff_period blocks \<Rightarrow> Some (set_cooloff_period blocks s)
    | Priv_set_voting_period blocks \<Rightarrow> Some (set_voting_period blocks s))"

definition priv_dispatch :: "host \<Rightarrow> PrivCall \<Rightarrow> runtime \<Rightarrow> runtime outcome" where
  "priv_dispatch h call s = (case call of
      PrivCall_Consensus c \<Rightarrow> consensus_priv_dispatch h c s
    | PrivCall_Session c \<Rightarrow> session_priv_dispatch c s
    | PrivCall_Staking c \<Rightarrow> finished (staking_priv_dispatch session_key_conversion c s)
    | PrivCall_Democracy c \<Rightarrow> democracy_priv_dispatch c s
    | PrivCall_Council c \<Rightarrow> council_priv_dispatch c s
    | PrivCall_CouncilVoting c \<Rightarrow> voting_priv_dispatch c s)"

text \<open>\<^verbatim>\<open>AuxDispatchable\<close> of the public calls; \<open>aux\<close> is the sender.\<close>

definition democracy_dispatch :: "account_id \<Rightarrow> PrivCall democracy_call \<Rightarrow> runtime \<Rightarrow> runtime outcome" where
  "democracy_dispatch aux c s = (case c of
      Call_propose p amount \<Rightarrow> democracy_propose aux p amount s
    | Call_second p \<Rightarrow> democracy_second aux p s
    | Call_vote ref_index approve \<Rightarrow> Some (democracy_vote aux ref_index approve s))"

definition council_dispatch :: "account_id \<Rightarrow> account_id council_call \<Rightarrow> runtime \<Rightarrow> runtime outcome" where
  "council_dispatch aux c s = (case c of
      Call_set_approvals votes ix \<Rightarrow> set_approvals aux votes ix s
    | Call_reap_inactive_voter signed_index who who_index assumed \<Rightarrow>
        Some (reap_inactive_voter aux signed_index who who_index assumed s)
    | Call_retract_voter ix \<Rightarrow> Some (retract_voter aux ix s)
    | Call_submit_candidacy slot \<Rightarrow> submit_candidacy aux slot s
    | Call_present_winner candidate amount ix \<Rightarrow> present_winner aux candidate amount ix s)"

text \<open>The hash of a motion is that of its encoding.\<close>

definition voting_dispatch :: "host \<Rightarrow> account_id \<Rightarrow> PrivCall voting_call \<Rightarrow> runtime \<Rightarrow> runtime outcome" where
  "voting_dispatch h aux c s = (case c of
      Voting_propose p \<Rightarrow> do {
        bs \<leftarrow> priv_call_encode p;
        voting_propose (\<lambda>_. h_blake2_256 h bs) aux p s
      }
    | Voting_vote proposal approve \<Rightarrow> Some (voting_vote aux proposal approve s)
    | Voting_veto proposal_hash \<Rightarrow> voting_veto aux proposal_hash s)"

definition call_dispatch :: "host \<Rightarrow> account_id \<Rightarrow> Call \<Rightarrow> runtime \<Rightarrow> runtime outcome" where
  "call_dispatch h aux call s = (case call of
      Call_Consensus (Call_report_misbehavior _) \<Rightarrow> Some (Inr (), s)
    | Call_Session (Call_set_key key) \<Rightarrow> finished (Some (set_key aux key s))
    | Call_Staking c \<Rightarrow> staking_dispatch (h_executor h) aux c s
    | Call_Timestamp (Call_set now) \<Rightarrow> finished (timestamp_set 0 TIMESTAMP_SET_POSITION aux now s)
    | Call_Democracy c \<Rightarrow> democracy_dispatch aux c s
    | Call_Council c \<Rightarrow> council_dispatch aux c s
    | Call_CouncilVoting c \<Rightarrow> voting_dispatch h aux c s
    | Call_Parachains (Call_set_heads heads) \<Rightarrow> set_heads PARACHAINS_SET_POSITION aux heads s)"

text \<open>\<^verbatim>\<open>IsSubType\<close> at the only place it is used: is a motion one to cancel a referendum.\<close>

definition as_cancel :: "PrivCall \<Rightarrow> nat option" where
  "as_cancel p = (case p of PrivCall_Democracy (Priv_cancel_referendum i) \<Rightarrow> Some i | _ \<Rightarrow> None)"


section \<open>The executive\<close>

record ('a, 'x, 'c, 's) executive_traits =
  ex_encode :: "'x encoder"
  ex_check :: "'s \<Rightarrow> 'x \<Rightarrow> (string + 'c) option"
  ex_sender :: "'c \<Rightarrow> 'a"
  ex_index :: "'c \<Rightarrow> nat"
  ex_apply :: "'c \<Rightarrow> 's \<Rightarrow> 's outcome"
  ex_make_payment :: "'a \<Rightarrow> nat \<Rightarrow> 's \<Rightarrow> (string + unit) \<times> 's"
  ex_finalisation :: "'s \<Rightarrow> 's option"
  ex_trie_root :: "byte list list \<Rightarrow> hash"
  ex_storage_root :: "'s \<Rightarrow> hash"

type_synonym ('a, 'x, 'c, 'z) traits = "('a, 'x, 'c, ('a, 'z) System_scheme) executive_traits"

datatype internal_error = Internal_BadSignature string | Internal_Stale | Internal_Future | Internal_CantPay
datatype internal_outcome = Internal_Success | Internal_Fail string

definition initialise_block :: "header \<Rightarrow> ('a, 'z) System_scheme \<Rightarrow> ('a, 'z) System_scheme option" where
  "initialise_block hdr s = initialise (hd_number hdr) (hd_parent_hash hdr) (hd_extrinsics_root hdr) s"

definition extrinsics_root :: "('a, 'x, 'c, 'z) traits \<Rightarrow> 'x list \<Rightarrow> hash option" where
  "extrinsics_root E xts = map_option (ex_trie_root E) (option_list (map (ex_encode E) xts))"

definition initial_checks :: "('a, 'x, 'c, 'z) traits \<Rightarrow> 'x Block \<Rightarrow> ('a, 'z) System_scheme \<Rightarrow> unit option" where
  "initial_checks E block s =
    (let hdr = blk_header block; n = hd_number hdr in do {
       assert (n > 0);
       parent \<leftarrow> sys_block_hash s (n - 1);
       assert (parent = hd_parent_hash hdr);
       xts_root \<leftarrow> extrinsics_root E (blk_extrinsics block);
       assert (hd_extrinsics_root hdr = xts_root)
     })"

text \<open>The index and the fee of a signed extrinsic; an unsigned one has neither.\<close>

definition charge_sender :: "('a::zero, 'x, 'c, 'z) traits \<Rightarrow> 'c \<Rightarrow> nat \<Rightarrow> ('a, 'z) System_scheme \<Rightarrow>
    (internal_error + unit) \<times> ('a, 'z) System_scheme" where
  "charge_sender E xt encoded_len s =
    (let sender = ex_sender E xt; expected_index = account_nonce s sender in
     if sender \<noteq> 0 then
       if ex_index E xt \<noteq> expected_index
       then (Inl (if ex_index E xt < expected_index then Internal_Stale else Internal_Future), s)
       else (case ex_make_payment E sender encoded_len s of
               (Inl _, s1) \<Rightarrow> (Inl Internal_CantPay, s1)
             | (Inr _, s1) \<Rightarrow> (Inr (), inc_account_nonce sender s1))
     else (Inr (), s))"

definition apply_extrinsic_no_note_with_len :: "('a::zero, 'x, 'c, 'z) traits \<Rightarrow> 'x \<Rightarrow> nat \<Rightarrow> ('a, 'z) System_scheme \<Rightarrow>
    ((internal_error + internal_outcome) \<times> ('a, 'z) System_scheme) option" where
  "apply_extrinsic_no_note_with_len E uxt encoded_len s = do {
    checked \<leftarrow> ex_check E s uxt;
    (case checked of
       Inl e \<Rightarrow> Some (Inl (Internal_BadSignature e), s)
     | Inr xt \<Rightarrow> (case charge_sender E xt encoded_len s of
           (Inl e, s1) \<Rightarrow> Some (Inl e, s1)
         | (Inr _, s1) \<Rightarrow> do {
             (r, s2) \<leftarrow> ex_apply E xt s1;
             i \<leftarrow> sys_extrinsic_index s2;
             Some (Inr (case r of Inr _ \<Rightarrow> Internal_Success | Inl e \<Rightarrow> Internal_Fail e),
               s2\<lparr>sys_extrinsic_index := Some (u32 (i + 1))\<rparr>)
           }))
  }"

definition apply_extrinsic :: "('a::zero, 'x, 'c, 'z) traits \<Rightarrow> 'x \<Rightarrow> ('a, 'z) System_scheme \<Rightarrow>
    ((ApplyError + ApplyOutcome) \<times> ('a, 'z) System_scheme) option" where
  "apply_extrinsic E uxt s = do {
    encoded \<leftarrow> ex_encode E uxt;
    s1 \<leftarrow> note_extrinsic encoded s;
    (r, s2) \<leftarrow> apply_extrinsic_no_note_with_len E uxt (length encoded) s1;
    Some ((case r of
        Inr Internal_Success \<Rightarrow> Inr Success
      | Inr (Internal_Fail _) \<Rightarrow> Inr Fail
      | Inl Internal_CantPay \<Rightarrow> Inl CantPay
      | Inl (Internal_BadSignature _) \<Rightarrow> Inl BadSignature
      | Inl Internal_Stale \<Rightarrow> Inl Stale
      | Inl Internal_Future \<Rightarrow> Inl Future), s2)
  }"

definition apply_extrinsic_no_note :: "('a::zero, 'x, 'c, 'z) traits \<Rightarrow> 'x \<Rightarrow> ('a, 'z) System_scheme \<Rightarrow>
    ('a, 'z) System_scheme option" where
  "apply_extrinsic_no_note E uxt s = do {
    encoded \<leftarrow> ex_encode E uxt;
    (r, s1) \<leftarrow> apply_extrinsic_no_note_with_len E uxt (length encoded) s;
    (case r of Inr _ \<Rightarrow> Some s1 | Inl _ \<Rightarrow> None)
  }"

fun apply_all :: "('a::zero, 'x, 'c, 'z) traits \<Rightarrow> 'x list \<Rightarrow> ('a, 'z) System_scheme \<Rightarrow> ('a, 'z) System_scheme option" where
  "apply_all E [] s = Some s"
| "apply_all E (x # xs) s = do { s1 \<leftarrow> apply_extrinsic_no_note E x s; apply_all E xs s1 }"

definition final_checks :: "('a, 'x, 'c, 'z) traits \<Rightarrow> header \<Rightarrow> ('a, 'z) System_scheme \<Rightarrow> ('a, 'z) System_scheme option" where
  "final_checks E hdr s = do {
    assert (hd_digest hdr = sys_digest s);
    (_, s1) \<leftarrow> finalise (ex_storage_root E) s;
    assert (hd_state_root hdr = ex_storage_root E s1);
    Some s1
  }"

definition execute_block :: "('a::zero, 'x, 'c, 'z) traits \<Rightarrow> 'x Block \<Rightarrow> ('a, 'z) System_scheme \<Rightarrow> ('a, 'z) System_scheme option" where
  "execute_block E block s = do {
    s1 \<leftarrow> initialise_block (blk_header block) s;
    _ \<leftarrow> initial_checks E block s1;
    s2 \<leftarrow> apply_all E (blk_extrinsics block) s1;
    s3 \<leftarrow> ex_finalisation E s2;
    final_checks E (blk_header block) s3
  }"

definition finalise_block :: "('a, 'x, 'c, 'z) traits \<Rightarrow> ('a, 'z) System_scheme \<Rightarrow> (header \<times> ('a, 'z) System_scheme) option" where
  "finalise_block E s = do {
    s1 \<leftarrow> ex_finalisation E s;
    s2 \<leftarrow> derive_extrinsics (ex_trie_root E) s1;
    finalise (ex_storage_root E) s2
  }"


section \<open>The Polkadot runtime\<close>

type_synonym bare_extrinsic = "(account_id, nat, Call) Extrinsic"
type_synonym unchecked_extrinsic = "((account_id, nat) address, nat, Call, 512 word) UncheckedExtrinsic"

definition bare_extrinsic_encode :: "bare_extrinsic encoder" where
  "bare_extrinsic_encode = extrinsic_encode h256_encode (nat_encode 4) call_encode"

definition h512_encode :: "512 word encoder" where
  "h512_encode g = Some (rev (le_encode 64 (unat g)))"

definition runtime_extrinsic_encode :: "unchecked_extrinsic encoder" where
  "runtime_extrinsic_encode =
    unchecked_extrinsic_encode (extrinsic_encode (address_encode h256_encode) (nat_encode 4) call_encode) h512_encode"

text \<open>The end of a block, in the order of the type \<^verbatim>\<open>Executive\<close>; \<^verbatim>\<open>staking\<close> has nothing to do.\<close>

definition runtime_finalisation :: "host \<Rightarrow> runtime \<Rightarrow> runtime option" where
  "runtime_finalisation h s = do {
    s1 \<leftarrow> parachains_execute s;
    s2 \<leftarrow> council_execute as_cancel s1;
    s3 \<leftarrow> democracy_execute (h_isqrt h) (priv_dispatch h) s2;
    s4 \<leftarrow> check_rotate_session (new_session session_key_conversion) s3;
    timestamp_execute s4
  }"

definition polkadot_executive :: "host \<Rightarrow> (account_id, unchecked_extrinsic, bare_extrinsic, runtime) executive_traits" where
  "polkadot_executive h =
    \<lparr>ex_encode = runtime_extrinsic_encode,
     ex_check = (\<lambda>s. check_xt (h_ed25519_verify h) bare_extrinsic_encode (lookup s)),
     ex_sender = xt_signed,
     ex_index = xt_index,
     ex_apply = (\<lambda>xt. call_dispatch h (xt_signed xt) (xt_function xt)),
     ex_make_payment = make_payment,
     ex_finalisation = runtime_finalisation h,
     ex_trie_root = h_trie_root h,
     ex_storage_root = h_storage_root h\<rparr>"

definition inherent_extrinsics :: "nat \<Rightarrow> CandidateReceipt list \<Rightarrow> unchecked_extrinsic list" where
  "inherent_extrinsics timestamp parachain_heads =
    [\<lparr>ux_extrinsic = \<lparr>xt_signed = Id 0, xt_index = 0, xt_function = Call_Timestamp (Call_set timestamp)\<rparr>, ux_signature = 0\<rparr>,
     \<lparr>ux_extrinsic = \<lparr>xt_signed = Id 0, xt_index = 0, xt_function = Call_Parachains (Call_set_heads parachain_heads)\<rparr>, ux_signature = 0\<rparr>]"

definition check_extrinsic :: "host \<Rightarrow> runtime \<Rightarrow> unchecked_extrinsic \<Rightarrow> bool option" where
  "check_extrinsic h s xt = map_option (\<lambda>r. case r of Inr _ \<Rightarrow> True | Inl _ \<Rightarrow> False)
    (check_xt (h_ed25519_verify h) bare_extrinsic_encode (lookup s) xt)"


section \<open>Checked blocks\<close>

text \<open>\<^verbatim>\<open>CheckedBlock\<close> wraps a block; the place it is asserted at only appears in the message of the panic.\<close>

definition timestamp_of_xt :: "unchecked_extrinsic \<Rightarrow> nat option" where
  "timestamp_of_xt xt = (case xt_function (ux_extrinsic xt) of Call_Timestamp (Call_set x) \<Rightarrow> Some x | _ \<Rightarrow> None)"

definition heads_of_xt :: "unchecked_extrinsic \<Rightarrow> CandidateReceipt list option" where
  "heads_of_xt xt = (case xt_function (ux_extrinsic xt) of Call_Parachains (Call_set_heads x) \<Rightarrow> Some x | _ \<Rightarrow> None)"

definition checked_block_new :: "unchecked_extrinsic Block \<Rightarrow> unchecked_extrinsic Block + unchecked_extrinsic Block" where
  "checked_block_new block =
    (let has_timestamp = (case get_at (blk_extrinsics block) TIMESTAMP_SET_POSITION of
           None \<Rightarrow> False | Some xt \<Rightarrow> \<not> is_signed xt \<and> timestamp_of_xt xt \<noteq> None);
         has_heads = (case get_at (blk_extrinsics block) PARACHAINS_SET_POSITION of
           None \<Rightarrow> False | Some xt \<Rightarrow> \<not> is_signed xt \<and> heads_of_xt xt \<noteq> None) in
     if \<not> has_timestamp then Inl block else if \<not> has_heads then Inl block else Inr block)"

definition checked_block_timestamp :: "unchecked_extrinsic Block \<Rightarrow> nat option" where
  "checked_block_timestamp block = Option.bind (get_at (blk_extrinsics block) TIMESTAMP_SET_POSITION) timestamp_of_xt"

definition checked_block_parachain_heads :: "unchecked_extrinsic Block \<Rightarrow> CandidateReceipt list option" where
  "checked_block_parachain_heads block = Option.bind (get_at (blk_extrinsics block) PARACHAINS_SET_POSITION) heads_of_xt"


section \<open>Genesis\<close>

text \<open>\<^verbatim>\<open>GenesisConfig::build_storage\<close> with every module configured.\<close>

definition runtime_build_storage :: "session_key list \<Rightarrow> byte list \<Rightarrow> nat \<Rightarrow> nat \<Rightarrow> account_id list \<Rightarrow> nat \<Rightarrow> account_id staking_config \<Rightarrow>
    democracy_config \<Rightarrow> account_id council_config \<Rightarrow> (para_id \<times> byte list) list \<Rightarrow> runtime" where
  "runtime_build_storage auths code period session_length vals percent_late staking democracy council parachains =
    parachains_build_storage parachains (council_build_storage council
      (democracy_build_storage democracy (build_storage auths code period session_length vals percent_late staking)))"

end
