(* ===== verification/Executive_Proofs.thy ===== *)
theory Executive_Proofs
  imports Executive
begin

text \<open>
  What the execution of a block guarantees.  Every call of every module is shown to leave the timestamp, the position in the block and the
  storage of \<^verbatim>\<open>parachains\<close> alone, but for the two calls that are there to change them; so a block that executes carries both
  inherent extrinsics at their places.
\<close>

section \<open>What the calls leave alone\<close>

text \<open>
  The timestamp, the position in the block and the storage of the modules above: no operation of a module below touches them.
\<close>

definition sta_frame :: "('a, 'k, 'z) sta \<Rightarrow> bool option \<times> nat \<times> nat option \<times> 'z" where
  "sta_frame s = (tim_did_update s, tim_now s, sys_extrinsic_index s, Staking.Staking.more s)"

named_theorems frames \<open>operations that keep the frame\<close>

lemma staking_frames [frames]:
  "sta_frame (on_free_too_low who s) = sta_frame s"
  "sta_frame (snd (set_free_balance who b s)) = sta_frame s"
  "sta_frame (snd (set_reserved_balance who b s)) = sta_frame s"
  "sta_frame (snd (make_payment who l s)) = sta_frame s"
  "sta_frame (snd (stake who s)) = sta_frame s"
  "sta_frame (snd (unstake who i s)) = sta_frame s"
  "sta_frame (snd (nominate who a s)) = sta_frame s"
  "sta_frame (snd (unnominate who i s)) = sta_frame s"
  "sta_frame (set_sessions_per_era n s) = sta_frame s"
  "sta_frame (set_bonding_duration n s) = sta_frame s"
  "sta_frame (set_validator_count n s) = sta_frame s"
  "sta_frame (set_code code s) = sta_frame s"
  "sta_frame (set_key who k s) = sta_frame s"
  "sta_frame (set_length n s) = sta_frame s"
  "sta_frame (inc_account_nonce who s) = sta_frame s"
  "sta_frame (enact_era_length s) = sta_frame s"
  "sta_frame (snd (elect s)) = sta_frame s"
  by (simp_all add: sta_frame_def on_free_too_low_def set_free_balance_def set_reserved_balance_def on_reserved_too_low_def
      make_payment_def stake_def unstake_def nominate_def unnominate_def set_sessions_per_era_def set_bonding_duration_def
      set_validator_count_def set_code_def set_key_def set_length_def inc_account_nonce_def enact_era_length_def elect_def Let_def
    split: sum.split option.split)

lemma balance_frames [frames]:
  "sta_frame (snd (slash_reserved who b s)) = sta_frame s"
  "sta_frame (snd (slash who b s)) = sta_frame s"
  "sta_frame (snd (reward who b s)) = sta_frame s"
  "sta_frame (snd (unreserve who b s)) = sta_frame s"
  "sta_frame (snd (transfer_reserved who to b s)) = sta_frame s"
  by (simp_all add: slash_reserved_def slash_def reward_def unreserve_def transfer_reserved_def Let_def frames)

lemma frame_pair: "sta_frame (snd p) = sta_frame s \<Longrightarrow> p = (r, s') \<Longrightarrow> sta_frame s' = sta_frame s"
  by simp

lemma fold_frame: "(\<And>x s. v (f x s) = v s) \<Longrightarrow> v (fold f xs s) = v s"
  by (induction xs arbitrary: s) simp_all

lemma reserve_frame: "reserve who b s = Some (r, s') \<Longrightarrow> sta_frame s' = sta_frame s"
  by (auto simp: reserve_def Let_def bind_eq_Some_conv frames split: if_splits)

lemma new_account_frame': "new_account who b s = Some (r, s') \<Longrightarrow> sta_frame s' = sta_frame s"
proof -
  assume a: "new_account who b s = Some (r, s')"
  obtain i where i: "maybe_try_index (sta_next_enum_set s) b = Some i" using a by (auto simp: new_account_def bind_eq_Some_conv)
  obtain r1 s1 where r1: "try_reclaim who i s = (r1, s1)" by fastforce
  show ?thesis
  proof (cases "r1 = GoodHint")
    case True
    then show ?thesis using a i r1 by (auto simp: new_account_def try_reclaim_def Let_def sta_frame_def split: if_splits)
  next
    case False
    then show ?thesis using a i r1 by (cases r1) (auto simp: new_account_def Let_def sta_frame_def bind_eq_Some_conv)
  qed
qed

lemma merge_rest_frame [frames]: "sta_frame (merge_rest who e s) = sta_frame s"
proof -
  have f: "sta_frame (fold (merge_storage who) kvs t) = sta_frame t" for kvs t
    by (rule fold_frame) (simp add: merge_storage_def sta_frame_def)
  show ?thesis unfolding merge_rest_def f by (simp add: sta_frame_def split: option.split)
qed

lemma merge_entry_frame: "merge_entry e s = Some s' \<Longrightarrow> sta_frame s' = sta_frame s"
proof -
  have b: "sta_frame (s\<lparr>sta_free_balance := m\<rparr>) = sta_frame s" for s :: "('a, 'b, 'c) sta" and m by (simp add: sta_frame_def)
  assume "merge_entry e s = Some s'"
  then show ?thesis
    by (auto simp: merge_entry_def Let_def bind_eq_Some_conv frames b dest!: new_account_frame' split: option.splits if_splits prod.splits)
qed

lemma direct_merge_frame: "direct_merge changes s = Some s' \<Longrightarrow> sta_frame s' = sta_frame s"
proof -
  have "merge_entries es s = Some s' \<Longrightarrow> sta_frame s' = sta_frame s" for es and s s' :: "('a, 'b, 'c) sta"
    by (induction es arbitrary: s) (auto simp: bind_eq_Some_conv dest!: merge_entry_frame)
  then show "direct_merge changes s = Some s' \<Longrightarrow> sta_frame s' = sta_frame s" by (simp add: direct_merge_def)
qed

lemma staking_dispatch_frame: "staking_dispatch execute aux c s = Some (r, s') \<Longrightarrow> sta_frame s' = sta_frame s"
proof -
  have t: "transfer execute aux dest n s = Some (r, s') \<Longrightarrow> sta_frame s' = sta_frame s" for dest n
  proof (cases "lookup s dest")
    case (Inr d)
    assume a: "transfer execute aux dest n s = Some (r, s')"
    then obtain q where q: "effect_transfer execute aux d n s DirectAccountDb = Some q"
      using Inr by (cases "effect_transfer execute aux d n s DirectAccountDb") (simp_all add: transfer_def)
    show ?thesis using a Inr q direct_merge_frame [of _ s s']
      by (cases q) (auto simp: transfer_def bind_eq_Some_conv split: option.splits)
  qed (simp add: transfer_def)
  assume "staking_dispatch execute aux c s = Some (r, s')"
  then show ?thesis
    by (cases c) (auto simp: staking_dispatch_def dest: t staking_frames(5-8) [THEN frame_pair])
qed

lemma set_authority_frame [frames]: "sta_frame (set_authority i k s) = sta_frame s"
  by (simp add: set_authority_def sv_set_item_def sta_frame_def)

lemma update_keys_frame [frames]: "sta_frame (update_keys i vs s) = sta_frame s"
proof (induction vs arbitrary: i s)
  case (Cons v vs)
  have "sta_frame (s\<lparr>ses_next_key_for := m\<rparr>) = sta_frame s" for m by (simp add: sta_frame_def)
  then show ?case using Cons.IH by (simp add: frames split: option.split)
qed simp

lemma set_validators_frame: "set_validators convert vs s = Some s' \<Longrightarrow> sta_frame s' = sta_frame s"
  by (auto simp: set_validators_def sta_frame_def elim!: set_authorities_frame)

lemma validator_frames [frames]:
  fixes s :: "('a, 'b, 'c) sta"
  shows "sta_frame (reward_validator n v s) = sta_frame s"
  "sta_frame (slash_validator n v s) = sta_frame s"
proof -
  have r: "sta_frame (fold (reward_one a t) ns s) = sta_frame s" for a t ns and s :: "('a, 'b, 'c) sta"
    by (rule fold_frame) (simp add: reward_one_def frames)
  have l: "sta_frame (fold (slash_one a t) ns s) = sta_frame s" for a t ns and s :: "('a, 'b, 'c) sta"
    by (rule fold_frame) (simp add: slash_one_def frames)
  show "sta_frame (reward_validator n v s) = sta_frame s"
    by (simp add: reward_validator_def Let_def r reward_one_def [of _ _ v] frames)
  obtain q t where t: "slash v n s = (q, t)" by fastforce
  then have "sta_frame t = sta_frame s" using balance_frames(2) [of v n s] by simp
  then show "sta_frame (slash_validator n v s) = sta_frame s"
    by (simp add: slash_validator_def t Let_def l split: option.split)
qed

lemma new_era_frame: "new_era convert s = Some s' \<Longrightarrow> sta_frame s' = sta_frame s"
proof -
  have b: "sta_frame (s\<lparr>sta_current_era := n\<rparr>) = sta_frame s" for n by (simp add: sta_frame_def)
  assume "new_era convert s = Some s'"
  then have "sta_frame s' = sta_frame (snd (elect (enact_era_length (s\<lparr>sta_current_era := u64 (sta_current_era s + 1)\<rparr>))))"
    by (auto simp: new_era_def dest: set_validators_frame split: prod.splits)
  then show ?thesis by (simp only: frames b)
qed

lemma new_session_frame: "new_session convert normal e s = Some s' \<Longrightarrow> sta_frame s' = sta_frame s"
proof -
  have f: "sta_frame (fold (reward_validator n) vs s) = sta_frame s" "sta_frame (fold (slash_validator n) vs s) = sta_frame s" for n vs
    by (rule fold_frame, simp add: frames)+
  have branch: "(if a then if b then if c then new_era convert t else Some t else None else None) = Some s' \<Longrightarrow>
      sta_frame t = sta_frame s \<Longrightarrow> sta_frame s' = sta_frame s" for a b c t
    by (auto dest: new_era_frame split: if_splits)
  assume "new_session convert normal e s = Some s'"
  from branch [OF this [unfolded new_session_def Let_def bind_assert]]
  show ?thesis by (cases normal) (simp_all only: f if_True if_False)
qed

lemma rotate_session_frame: "rotate_session (new_session convert) normal s = Some s' \<Longrightarrow> sta_frame s' = sta_frame s"
proof -
  assume "rotate_session (new_session convert) normal s = Some s'"
  then obtain t u where t: "enact_length (s\<lparr>ses_current_index := u64 (ses_current_index s + 1), ses_current_start := timestamp_get s\<rparr>) = Some t"
    and u: "new_session convert normal (sub64 (timestamp_get s) (ses_current_start s)) t = Some u"
    and s': "s' = update_keys 0 (ses_validators u) u"
    by (auto simp: rotate_session_def Let_def bind_eq_Some_conv)
  have "sta_frame t = sta_frame s" using t by (auto simp: enact_length_def sta_frame_def bind_eq_Some_conv split: option.splits)
  then show ?thesis using new_session_frame [OF u] by (simp add: s' frames)
qed

lemma check_rotate_frame: "check_rotate_session (new_session convert) s = Some s' \<Longrightarrow> sta_frame s' = sta_frame s"
  by (auto simp: check_rotate_session_def Let_def bind_eq_Some_conv bind_assert dest!: rotate_session_frame split: if_splits)

lemma staking_priv_frame: "staking_priv_dispatch convert c s = Some s' \<Longrightarrow> sta_frame s' = sta_frame s"
  by (auto simp: staking_priv_dispatch_def force_new_era_def frames dest!: rotate_session_frame split: staking_priv_call.splits)

definition cou_frame :: "('a, 'k, 'p, 'z) cou \<Rightarrow> bool option \<times> nat \<times> nat option \<times> 'z" where
  "cou_frame s = (tim_did_update s, tim_now s, sys_extrinsic_index s, Council.Council.more s)"

lemma lift_frame: "sta_frame s' = sta_frame s \<Longrightarrow> cou_frame s' = cou_frame s"
  by (cases s rule: Council.Council.cases_scheme, cases s' rule: Council.Council.cases_scheme) (simp add: sta_frame_def cou_frame_def)

lemmas lifted_frames [frames] = staking_frames [THEN lift_frame] balance_frames [THEN lift_frame]

text \<open>Updates of the storage of \<^verbatim>\<open>democracy\<close> and \<^verbatim>\<open>council\<close>.\<close>

lemma democracy_update_frames [simp]:
  "cou_frame (s\<lparr>dem_public_prop_count := a\<rparr>) = cou_frame s"
  "cou_frame (s\<lparr>dem_public_props := b\<rparr>) = cou_frame s"
  "cou_frame (s\<lparr>dem_deposit_of := c\<rparr>) = cou_frame s"
  "cou_frame (s\<lparr>dem_referendum_count := d\<rparr>) = cou_frame s"
  "cou_frame (s\<lparr>dem_next_tally := e\<rparr>) = cou_frame s"
  "cou_frame (s\<lparr>dem_referendum_info_of := f\<rparr>) = cou_frame s"
  "cou_frame (s\<lparr>dem_voters_for := g\<rparr>) = cou_frame s"
  "cou_frame (s\<lparr>dem_vote_of := h\<rparr>) = cou_frame s"
  by (simp_all add: cou_frame_def)

lemma council_update_frames [simp]:
  "cou_frame (s\<lparr>cou_voters := a\<rparr>) = cou_frame s"
  "cou_frame (s\<lparr>cou_approvals_of := b\<rparr>) = cou_frame s"
  "cou_frame (s\<lparr>cou_voter_last_active := c\<rparr>) = cou_frame s"
  "cou_frame (s\<lparr>cou_candidates := d\<rparr>) = cou_frame s"
  "cou_frame (s\<lparr>cou_candidate_count := e\<rparr>) = cou_frame s"
  "cou_frame (s\<lparr>cou_candidate_reg_info := f\<rparr>) = cou_frame s"
  "cou_frame (s\<lparr>cou_leaderboard := g\<rparr>) = cou_frame s"
  "cou_frame (s\<lparr>cou_snapshoted_stakes := h\<rparr>) = cou_frame s"
  "cou_frame (s\<lparr>cou_next_finalise := i\<rparr>) = cou_frame s"
  "cou_frame (s\<lparr>cou_active_council := j\<rparr>) = cou_frame s"
  "cou_frame (s\<lparr>cou_vote_index := k\<rparr>) = cou_frame s"
  "cou_frame (s\<lparr>cou_desired_seats := l\<rparr>) = cou_frame s"
  "cou_frame (s\<lparr>cou_presentation_duration := m\<rparr>) = cou_frame s"
  "cou_frame (s\<lparr>cou_term_duration := n\<rparr>) = cou_frame s"
  by (simp_all add: cou_frame_def)

lemma voting_update_frames [simp]:
  "cou_frame (s\<lparr>cov_proposals := a\<rparr>) = cou_frame s"
  "cou_frame (s\<lparr>cov_proposal_of := b\<rparr>) = cou_frame s"
  "cou_frame (s\<lparr>cov_proposal_voters := c\<rparr>) = cou_frame s"
  "cou_frame (s\<lparr>cov_vote_of := d\<rparr>) = cou_frame s"
  "cou_frame (s\<lparr>cov_veto_of := e\<rparr>) = cou_frame s"
  "cou_frame (s\<lparr>cov_cooloff_period := f\<rparr>) = cou_frame s"
  "cou_frame (s\<lparr>cov_voting_period := g\<rparr>) = cou_frame s"
  by (simp_all add: cou_frame_def)

text \<open>A call that panics changes nothing; a call that returns must return a state with the same frame.\<close>

definition kept :: "('a, 'k, 'p, 'z) cou \<Rightarrow> ('r \<times> ('a, 'k, 'p, 'z) cou) option \<Rightarrow> bool" where
  "kept s r \<longleftrightarrow> (case r of None \<Rightarrow> True | Some p \<Rightarrow> cou_frame (snd p) = cou_frame s)"

lemma kept_simps [simp]: "kept s None" "kept s (Some p) \<longleftrightarrow> cou_frame (snd p) = cou_frame s"
  by (simp_all add: kept_def)

lemma keptI: "(\<And>r s'. x = Some (r, s') \<Longrightarrow> cou_frame s' = cou_frame s) \<Longrightarrow> kept s x"
  by (cases x) auto

lemma keptD: "kept s x \<Longrightarrow> x = Some (r, s') \<Longrightarrow> cou_frame s' = cou_frame s"
  by simp

lemma kept_bind: "(\<And>v. x = Some v \<Longrightarrow> kept s (f v)) \<Longrightarrow> kept s (Option.bind x f)"
  by (cases x) auto

lemma reserve_cou_frame: "reserve who b s = Some (r, s') \<Longrightarrow> cou_frame s' = cou_frame s"
  by (rule lift_frame) (rule reserve_frame)

lemma referendum_frames [frames]:
  "cou_frame (snd (inject_referendum e p t s)) = cou_frame s"
  "cou_frame (clear_referendum i s) = cou_frame s"
  "cou_frame (internal_cancel_referendum i s) = cou_frame s"
  "cou_frame (snd (cancel_referendum i s)) = cou_frame s"
  by (simp_all add: inject_referendum_def clear_referendum_def internal_cancel_referendum_def cancel_referendum_def Let_def)

lemma internal_start_frame: "internal_start_referendum p t s = Some (r, s') \<Longrightarrow> cou_frame s' = cou_frame s"
  using referendum_frames(1) [of "u64 (the (sys_number s) + dem_voting_period s)" p t s]
  by (auto simp: internal_start_referendum_def bind_eq_Some_conv)

lemma start_referendum_frame: "start_referendum p t s = Some (r, s') \<Longrightarrow> cou_frame s' = cou_frame s"
  by (auto simp: start_referendum_def bind_eq_Some_conv dest: internal_start_frame)

lemma democracy_propose_kept: "kept s (democracy_propose aux p n s)"
  by (auto simp: democracy_propose_def Let_def intro!: kept_bind dest!: reserve_cou_frame split: sum.split)

lemma democracy_second_kept: "kept s (democracy_second aux i s)"
  by (auto simp: democracy_second_def Let_def intro!: kept_bind dest!: reserve_cou_frame split: option.split sum.split)

lemma democracy_vote_frame [frames]: "cou_frame (snd (democracy_vote aux i b s)) = cou_frame s"
  by (simp add: democracy_vote_def Let_def)

lemma launch_public_frame [frames]: "cou_frame (snd (launch_public now s)) = cou_frame s"
proof -
  have f: "cou_frame (fold (\<lambda>d t. snd (unreserve d n t)) ds t) = cou_frame t" for n ds t
    by (rule fold_frame) (simp add: frames)
  show ?thesis by (simp add: launch_public_def Let_def split_beta frames f split: option.split)
qed

lemma tally_referenda_kept:
  assumes d: "\<And>p t. kept t (dispatch p t)"
  shows "cou_frame t = cou_frame s \<Longrightarrow> kept s (tally_referenda isqrt dispatch rs t)"
proof (induction rs arbitrary: t)
  case (Cons x rs)
  obtain i u p th where x: "x = (i, u, p, th)" by (cases x)
  have "kept s (dispatch p (clear_referendum i t))"
    using d [of "clear_referendum i t" p] Cons.prems
    by (cases "dispatch p (clear_referendum i t)") (simp_all add: frames)
  then have "kept s (case q of Inl e \<Rightarrow> Some (Inl e, s2)
      | Inr _ \<Rightarrow> tally_referenda isqrt dispatch rs (s2\<lparr>dem_next_tally := u32 (i + 1)\<rparr>))"
    if "dispatch p (clear_referendum i t) = Some (q, s2)" for q s2
    using that Cons.IH by (simp split: sum.split)
  moreover have "kept s (tally_referenda isqrt dispatch rs ((clear_referendum i t)\<lparr>dem_next_tally := u32 (i + 1)\<rparr>))"
    using Cons by (simp add: frames)
  ultimately show ?case unfolding x tally_referenda.simps Let_def split_beta
    by (intro kept_bind) (auto intro!: kept_bind cong: sum.case_cong simp del: One_nat_def)
qed simp

lemma democracy_execute_frame:
  assumes "\<And>p t. kept t (dispatch p t)"
  shows "democracy_execute isqrt dispatch s = Some s' \<Longrightarrow> cou_frame s' = cou_frame s"
proof -
  assume "democracy_execute isqrt dispatch s = Some s'"
  then obtain now r where e: "democracy_end_block isqrt dispatch now s = Some (r, s')"
    by (auto simp: democracy_execute_def bind_eq_Some_conv)
  have "kept s (democracy_end_block isqrt dispatch now s)"
    unfolding democracy_end_block_def Let_def split_beta
    by (intro kept_bind) (simp add: frames tally_referenda_kept [OF assms] split: sum.split)
  then show ?thesis using e by simp
qed

lemma set_approvals_kept: "kept s (set_approvals aux votes i s)"
proof -
  have "kept s (if cou_voter_last_active s aux = None
         then do {
           (r, s1) \<leftarrow> reserve aux (cou_voting_bond s) s;
           Some (case r of Inl e \<Rightarrow> (Inl e, s1)
                         | Inr _ \<Rightarrow> (Inr (), s1\<lparr>cou_voters := cou_voters s1 @ [aux]\<rparr>))
         }
         else Some (Inr (), s))" (is "kept s ?x")
    by (auto intro!: kept_bind dest!: reserve_cou_frame split: sum.split)
  then show ?thesis unfolding set_approvals_def
    by (auto intro!: kept_bind dest!: keptD split: sum.split simp del: kept_simps(2) simp: kept_simps(2) [of _ "(_, _)"] kept_simps(2) [of _ "case_sum _ _ _"])
qed

lemma submit_candidacy_kept: "kept s (submit_candidacy aux slot s)"
proof -
  have b: "kept s (do {
       (r, s1) \<leftarrow> reserve aux (cou_candidacy_bond s) s;
       Some (case r of Inl _ \<Rightarrow> (Inl e, s1)
         | Inr _ \<Rightarrow> (Inr (), s1\<lparr>cou_candidates := c, cou_candidate_count := n, cou_candidate_reg_info := i s1\<rparr>))
     })" for c n i e
    by (auto intro!: kept_bind dest!: reserve_cou_frame split: sum.split)
  have "kept s x \<Longrightarrow> kept s (if c then Some (e, s) else if d then Some (e', s) else x)" for c d e e' x by simp
  then show ?thesis unfolding submit_candidacy_def Let_def using b by this
qed

lemma council_call_frames [frames]:
  "cou_frame (remove_voter v i vs s) = cou_frame s"
  "cou_frame (snd (retract_voter aux i s)) = cou_frame s"
  "cou_frame (snd (set_desired_seats n s)) = cou_frame s"
  "cou_frame (snd (remove_member who s)) = cou_frame s"
  "cou_frame (snd (set_presentation_duration n s)) = cou_frame s"
  "cou_frame (snd (set_term_duration n s)) = cou_frame s"
  "cou_frame (snd (set_cooloff_period n s)) = cou_frame s"
  "cou_frame (snd (set_voting_period n s)) = cou_frame s"
  "cou_frame (snd (voting_vote aux h b s)) = cou_frame s"
  "cou_frame (set_proposals ps s) = cou_frame s"
  "cou_frame (set_veto_of h e vs s) = cou_frame s"
  "cou_frame (kill_veto_of h s) = cou_frame s"
  "cou_frame (snd (take_tally h s)) = cou_frame s"
  by (simp_all add: remove_voter_def retract_voter_def Let_def frames set_desired_seats_def remove_member_def
      set_presentation_duration_def set_term_duration_def set_cooloff_period_def set_voting_period_def voting_vote_def
      set_proposals_def set_veto_of_def kill_veto_of_def take_tally_def generic_tally_def split_beta split: sum.split)

lemma reap_frame [frames]: "cou_frame (snd (reap_inactive_voter aux i a j k s)) = cou_frame s"
  by (simp add: reap_inactive_voter_def Let_def split_beta frames split: sum.split option.split)

lemma present_winner_kept: "kept s (present_winner aux a c i s)"
  unfolding present_winner_def Let_def
  by (simp add: frames kept_bind split: sum.split option.split)

lemma voting_propose_kept: "kept s (voting_propose hash_of aux p s)"
  unfolding voting_propose_def Let_def
  by (auto intro!: kept_bind simp: frames)

lemma voting_veto_kept: "kept s (voting_veto aux h s)"
  unfolding voting_veto_def Let_def
  by (auto intro!: kept_bind simp: frames split: sum.split)

lemma finalise_tally_kept: "cou_frame t = cou_frame s \<Longrightarrow> kept s (finalise_tally t)"
proof -
  have f: "cou_frame (fold (\<lambda>(_, w) t. snd (unreserve w n t)) ws t) = cou_frame t" for n t ws
    by (rule fold_frame) (simp add: split_beta frames)
  assume "cou_frame t = cou_frame s"
  then show ?thesis unfolding finalise_tally_def Let_def
    by (simp add: f kept_bind split_beta split: option.split)
qed

lemma council_end_block_kept: "kept s (council_end_block n s)"
proof -
  have "cou_frame t = cou_frame s" if "(if n mod cou_voting_period s = 0
      then do {
        next \<leftarrow> council_next_tally s;
        (case next of
           Some number \<Rightarrow> if n = number then start_tally s else Some s
         | None \<Rightarrow> Some s)
      }
      else Some s) = Some t" for t
    using that by (auto simp: start_tally_def Let_def bind_eq_Some_conv split: if_split_asm option.split_asm)
  then show ?thesis unfolding council_end_block_def
    by (auto intro!: kept_bind finalise_tally_kept split: option.split)
qed

lemma resolve_motion_kept: "kept s (resolve_motion cancels p h s)"
  unfolding resolve_motion_def Let_def split_beta
  by (auto simp: frames intro!: kept_bind dest!: internal_start_frame split: option.split)

lemma take_proposal_frame [frames]: "cou_frame (snd (take_proposal_if_expiring_at n s)) = cou_frame s"
  by (simp add: take_proposal_if_expiring_at_def Let_def set_proposals_def split: list.split)

lemma voting_end_block_frame: "voting_end_block cancels n s = Some (r, s') \<Longrightarrow> cou_frame s' = cou_frame s"
proof (induction cancels n s rule: voting_end_block.induct)
  case (1 cancels now s)
  obtain m t where t: "take_proposal_if_expiring_at now s = (m, t)" by fastforce
  then have ft: "cou_frame t = cou_frame s" using take_proposal_frame [of now s] by simp
  show ?case
  proof (cases m)
    case None
    then show ?thesis using "1.prems" t ft by (simp add: voting_end_block.simps [of cancels now s] del: voting_end_block.simps)
  next
    case (Some ph)
    obtain p h where ph: "ph = (p, h)" by fastforce
    obtain q u where u: "resolve_motion cancels p h t = Some (q, u)"
      using "1.prems" t Some ph by (auto simp: voting_end_block.simps [of cancels now s] split: option.split_asm)
    then have fu: "cou_frame u = cou_frame s" using keptD [OF resolve_motion_kept] ft by metis
    show ?thesis
    proof (cases q)
      case (Inl e)
      then show ?thesis using "1.prems" t Some ph u fu by (simp add: voting_end_block.simps [of cancels now s] del: voting_end_block.simps)
    next
      case (Inr x)
      then have "voting_end_block cancels now u = Some (r, s')"
        using "1.prems" t Some ph u by (simp add: voting_end_block.simps [of cancels now s] del: voting_end_block.simps)
      then show ?thesis using "1.IH" t Some ph u Inr fu by metis
    qed
  qed
qed

lemma council_execute_frame: "council_execute cancels s = Some s' \<Longrightarrow> cou_frame s' = cou_frame s"
  by (auto simp: council_execute_def bind_eq_Some_conv simp del: voting_end_block.simps
      dest!: keptD [OF council_end_block_kept] voting_end_block_frame)

section \<open>The calls\<close>

text \<open>What a passed proposal writes to raw storage keys is not the storage of \<^verbatim>\<open>timestamp\<close>, \<^verbatim>\<open>parachains\<close> or the position in the block.\<close>

definition raw_writes_apart :: "host \<Rightarrow> bool" where
  "raw_writes_apart h \<longleftrightarrow> (\<forall>k v t. cou_frame (h_put_raw h k v t) = cou_frame t)"

lemma kept_finished: "(\<And>t. x = Some t \<Longrightarrow> cou_frame t = cou_frame s) \<Longrightarrow> kept s (finished x)"
  by (cases x) (simp_all add: finished_def)

lemma kept_pair: "cou_frame (snd p) = cou_frame s \<Longrightarrow> kept s (Some p)"
  by simp

lemmas kept_calls = democracy_propose_kept democracy_second_kept set_approvals_kept submit_candidacy_kept
  present_winner_kept voting_propose_kept voting_veto_kept

lemma consensus_priv_kept:
  assumes "raw_writes_apart h"
  shows "kept s (consensus_priv_dispatch h c s)"
proof -
  have f: "cou_frame (fold (\<lambda>(k, v). h_put_raw h k v) items s) = cou_frame s" for items
    using assms by (intro fold_frame) (simp add: raw_writes_apart_def split_beta)
  show ?thesis unfolding consensus_priv_dispatch_def
    by (cases c) (auto simp: frames f intro!: kept_finished)
qed

lemma session_priv_kept: "kept s (session_priv_dispatch c s)"
  unfolding session_priv_dispatch_def force_new_session_def
  by (cases c) (auto simp: frames intro!: kept_finished dest!: rotate_session_frame lift_frame)

lemma priv_dispatch_kept:
  assumes "raw_writes_apart h"
  shows "kept s (priv_dispatch h c s)"
proof (cases c)
  case (PrivCall_Staking d)
  have "kept s (finished (staking_priv_dispatch session_key_conversion d s))"
    by (rule kept_finished) (rule lift_frame, erule staking_priv_frame)
  then show ?thesis by (simp add: priv_dispatch_def PrivCall_Staking)
next
  case (PrivCall_Democracy d)
  have "kept s (start_referendum p t s)" for p t by (rule keptI) (rule start_referendum_frame)
  then show ?thesis by (cases d) (simp_all add: priv_dispatch_def democracy_priv_dispatch_def PrivCall_Democracy frames)
next
  case (PrivCall_Council d)
  then show ?thesis by (cases d) (simp_all add: priv_dispatch_def council_priv_dispatch_def frames)
next
  case (PrivCall_CouncilVoting d)
  then show ?thesis by (cases d) (simp_all add: priv_dispatch_def voting_priv_dispatch_def frames)
qed (simp_all add: priv_dispatch_def consensus_priv_kept [OF assms] session_priv_kept)

text \<open>Every public call but the two inherent ones.\<close>

lemma call_dispatch_kept:
  assumes "\<And>now. c \<noteq> Call_Timestamp (Call_set now)" "\<And>heads. c \<noteq> Call_Parachains (Call_set_heads heads)"
  shows "kept s (call_dispatch h aux c s)"
proof (cases c)
  case (Call_Consensus d)
  then show ?thesis by (cases d) (simp add: call_dispatch_def)
next
  case (Call_Session d)
  then show ?thesis by (cases d) (auto simp: call_dispatch_def frames intro!: kept_finished)
next
  case (Call_Staking d)
  have "kept s (staking_dispatch (h_executor h) aux d s)" by (rule keptI) (rule lift_frame, erule staking_dispatch_frame)
  then show ?thesis by (simp add: call_dispatch_def Call_Staking)
next
  case (Call_Timestamp d)
  then show ?thesis using assms(1) by (cases d) simp
next
  case (Call_Democracy d)
  then show ?thesis by (cases d) (simp_all add: call_dispatch_def democracy_dispatch_def kept_calls frames)
next
  case (Call_Council d)
  then show ?thesis by (cases d) (simp_all add: call_dispatch_def council_dispatch_def kept_calls frames)
next
  case (Call_CouncilVoting d)
  then show ?thesis by (cases d) (auto simp: call_dispatch_def voting_dispatch_def kept_calls frames intro!: kept_bind)
next
  case (Call_Parachains d)
  then show ?thesis using assms(2) by (cases d) simp
qed

section \<open>One extrinsic\<close>

text \<open>The frame as fields.\<close>

lemma frame_fields:
  assumes "cou_frame s' = cou_frame (s :: runtime)"
  shows "tim_did_update s' = tim_did_update s" "tim_now s' = tim_now s" "sys_extrinsic_index s' = sys_extrinsic_index s"
    "para_active_parachains s' = para_active_parachains s" "para_parachain_code s' = para_parachain_code s"
    "para_parachain_head s' = para_parachain_head s" "para_did_update s' = para_did_update s"
  using assms
  by (cases s rule: Parachains.Parachains.cases_scheme, cases s' rule: Parachains.Parachains.cases_scheme, simp add: cou_frame_def)+

lemma charge_sender_frame:
  assumes "charge_sender (polkadot_executive h) xt n s = (r, s')"
  shows "cou_frame s' = cou_frame s" "xt_signed xt = 0 \<Longrightarrow> s' = s"
proof -
  show z: "xt_signed xt = 0 \<Longrightarrow> s' = s" using assms by (simp add: charge_sender_def polkadot_executive_def Let_def)
  obtain q t where q: "make_payment (xt_signed xt) n s = (q, t)" by fastforce
  then have "cou_frame t = cou_frame s" using lifted_frames(4) [of "xt_signed xt" n s] by simp
  then show "cou_frame s' = cou_frame s" using assms q
    by (auto simp: charge_sender_def polkadot_executive_def Let_def frames split: if_split_asm sum.split_asm)
qed

lemma check_xt_sender:
  assumes "check_xt verify enc lk x = Some (Inr xt)"
  shows "xt_function xt = xt_function (ux_extrinsic x)"
    "is_signed x \<and> xt_signed xt = 0 \<Longrightarrow> \<exists>m. verify (ux_signature x) m 0"
    "\<not> is_signed x \<Longrightarrow> xt_signed xt = 0"
  using assms
  by (auto simp: check_xt_def Let_def verify_encoded_lazy_def is_signed_def split: if_split_asm sum.split_asm)

text \<open>An extrinsic that does not make the block invalid has been dispatched in a state with the same frame.\<close>

lemma extrinsic_applied:
  assumes "apply_extrinsic_no_note (polkadot_executive h) x s = Some s1"
  obtains who t r u i where "cou_frame t = cou_frame s" "who = 0 \<Longrightarrow> t = s"
    "is_signed x \<Longrightarrow> who = 0 \<Longrightarrow> \<exists>m. h_ed25519_verify h (ux_signature x) m 0"
    "call_dispatch h who (xt_function (ux_extrinsic x)) t = Some (r, u)"
    "sys_extrinsic_index u = Some i" "s1 = u\<lparr>sys_extrinsic_index := Some (u32 (i + 1))\<rparr>"
proof -
  let ?E = "polkadot_executive h"
  obtain n p s2 where p: "apply_extrinsic_no_note_with_len ?E x n s = Some (p, s2)"
    and c: "(case p of Inr _ \<Rightarrow> Some s2 | Inl _ \<Rightarrow> None) = Some s1"
    using assms by (auto simp: apply_extrinsic_no_note_def bind_eq_Some_conv)
  obtain q where q: "apply_extrinsic_no_note_with_len ?E x n s = Some (Inr q, s1)"
    using p c by (cases p) auto
  obtain ck where ck: "check_xt (h_ed25519_verify h) bare_extrinsic_encode (lookup s) x = Some ck"
    using q by (auto simp: apply_extrinsic_no_note_with_len_def polkadot_executive_def bind_eq_Some_conv)
  then obtain xt where xt: "check_xt (h_ed25519_verify h) bare_extrinsic_encode (lookup s) x = Some (Inr xt)"
    using q by (cases ck) (simp_all add: apply_extrinsic_no_note_with_len_def polkadot_executive_def)
  obtain e t where t: "charge_sender ?E xt n s = (e, t)" by fastforce
  obtain z where e: "e = Inr z" and d: "do {
       (r, s2) \<leftarrow> call_dispatch h (xt_signed xt) (xt_function xt) t;
       i \<leftarrow> sys_extrinsic_index s2;
       Some (Inr (case r of Inr _ \<Rightarrow> Internal_Success | Inl e \<Rightarrow> Internal_Fail e) :: internal_error + internal_outcome,
         s2\<lparr>sys_extrinsic_index := Some (u32 (i + 1))\<rparr>)
     } = Some (Inr q, s1)"
    using q xt t by (cases e) (simp_all add: apply_extrinsic_no_note_with_len_def polkadot_executive_def)
  obtain r u i where "call_dispatch h (xt_signed xt) (xt_function xt) t = Some (r, u)"
    "sys_extrinsic_index u = Some i" "s1 = u\<lparr>sys_extrinsic_index := Some (u32 (i + 1))\<rparr>"
    using d by (auto simp: bind_eq_Some_conv)
  then show ?thesis
    using that [of t "xt_signed xt" r u i] charge_sender_frame [OF t] check_xt_sender [OF xt] by auto
qed

lemma index_frame: "cou_frame (s\<lparr>sys_extrinsic_index := i\<rparr>) = (case cou_frame s of (d, n, _, m) \<Rightarrow> (d, n, i, m))"
  by (simp add: cou_frame_def)

lemma plain_extrinsic:
  assumes "apply_extrinsic_no_note (polkadot_executive h) x s = Some s1" "timestamp_of_xt x = None" "heads_of_xt x = None"
    "sys_extrinsic_index s = Some i"
  shows "cou_frame s1 = (case cou_frame s of (d, n, _, m) \<Rightarrow> (d, n, Some (u32 (i + 1)), m))"
proof -
  obtain who t r u j where a: "cou_frame t = cou_frame s"
    "call_dispatch h who (xt_function (ux_extrinsic x)) t = Some (r, u)"
    "sys_extrinsic_index u = Some j" "s1 = u\<lparr>sys_extrinsic_index := Some (u32 (j + 1))\<rparr>"
    by (rule extrinsic_applied [OF assms(1)]) blast
  have "kept t (call_dispatch h who (xt_function (ux_extrinsic x)) t)"
    using assms(2,3) by (intro call_dispatch_kept) (auto simp: timestamp_of_xt_def heads_of_xt_def)
  then have "cou_frame u = cou_frame s" using a(1,2) by simp
  moreover from this have "j = i" using frame_fields(3) [of u s] a(3) assms(4) by simp
  ultimately show ?thesis by (simp add: a(4) index_frame)
qed

lemma timestamp_extrinsic:
  assumes "apply_extrinsic_no_note (polkadot_executive h) x s = Some s1" "timestamp_of_xt x = Some now"
  shows "sys_extrinsic_index s = Some 0" "tim_did_update s = None" "tim_now s = 0 \<or> now \<ge> u64 (tim_now s + tim_block_period s)"
    "is_signed x \<Longrightarrow> \<exists>m. h_ed25519_verify h (ux_signature x) m 0"
    "s1 = s\<lparr>tim_now := now, tim_did_update := Some True, sys_extrinsic_index := Some 1\<rparr>"
proof -
  have c: "xt_function (ux_extrinsic x) = Call_Timestamp (Call_set now)"
    using assms(2) by (auto simp: timestamp_of_xt_def split: Call.split_asm timestamp_call.split_asm)
  obtain who t r u j where a: "cou_frame t = cou_frame s" "who = 0 \<Longrightarrow> t = s"
    "is_signed x \<Longrightarrow> who = 0 \<Longrightarrow> \<exists>m. h_ed25519_verify h (ux_signature x) m 0"
    "call_dispatch h who (Call_Timestamp (Call_set now)) t = Some (r, u)"
    "sys_extrinsic_index u = Some j" "s1 = u\<lparr>sys_extrinsic_index := Some (u32 (j + 1))\<rparr>"
    using c extrinsic_applied [OF assms(1)] by metis
  have w: "who = 0" using a(4) by (auto simp: call_dispatch_def finished_def timestamp_set_def bind_assert split: if_split_asm)
  then have u: "timestamp_set 0 0 0 now s = Some u" using a(2,4) by (auto simp: call_dispatch_def finished_def)
  then have b: "tim_did_update s = None" "sys_extrinsic_index s = Some 0" "tim_now s = 0 \<or> now \<ge> u64 (tim_now s + tim_block_period s)"
    "u = s\<lparr>tim_now := now, tim_did_update := Some True\<rparr>"
    by (auto simp: timestamp_set_def bind_assert bind_eq_Some_conv split: if_split_asm)
  then show "sys_extrinsic_index s = Some 0" "tim_did_update s = None" "tim_now s = 0 \<or> now \<ge> u64 (tim_now s + tim_block_period s)"
    "s1 = s\<lparr>tim_now := now, tim_did_update := Some True, sys_extrinsic_index := Some 1\<rparr>"
    using a(5,6) by simp_all
  show "is_signed x \<Longrightarrow> \<exists>m. h_ed25519_verify h (ux_signature x) m 0" using a(3) w by simp
qed

lemma set_heads_cases:
  assumes "set_heads position aux heads t = Some (r, u)"
  shows "u = t \<or> aux = 0 \<and> para_did_update t = None \<and> sys_extrinsic_index t = Some position \<and>
    heads_in_order (para_active_parachains t) (map parachain_index heads) \<and>
    u = t\<lparr>para_parachain_head := foldl (\<lambda>m h. m(parachain_index h \<mapsto> head_data h)) (para_parachain_head t) heads,
      para_did_update := Some True\<rparr>"
proof -
  let ?ok = "heads_in_order (para_active_parachains t) (map parachain_index heads)"
  let ?u = "t\<lparr>para_parachain_head := foldl (\<lambda>m h. m(parachain_index h \<mapsto> head_data h)) (para_parachain_head t) heads,
      para_did_update := Some True\<rparr>"
  define v where "v = ?u"
  have d: "set_heads position aux heads t = (if aux \<noteq> 0 then Some (Inl ''set_heads must not be signed'', t)
     else if para_did_update t \<noteq> None then Some (Inl ''Parachain heads must be updated only once in the block'', t)
     else do {
       index \<leftarrow> sys_extrinsic_index t;
       Some (if index \<noteq> position
         then (Inl ''Parachain heads update extrinsic must be at position {} in the block'', t)
         else if \<not> ?ok
         then (Inl ''Submitted candidate for unregistered or out-of-order parachain {}'', t)
         else (Inr (), v))
     })" unfolding set_heads_def v_def ..
  show ?thesis unfolding v_def [symmetric]
    using assms unfolding d by (cases "sys_extrinsic_index t") (auto split: if_split_asm)
qed

lemma heads_extrinsic:
  assumes "apply_extrinsic_no_note (polkadot_executive h) x s = Some s1" "heads_of_xt x = Some heads"
    "sys_extrinsic_index s = Some i"
  shows "cou_frame s1 = (case cou_frame s of (d, n, _, m) \<Rightarrow> (d, n, Some (u32 (i + 1)), m)) \<or>
    i = 1 \<and> para_did_update s = None \<and> heads_in_order (para_active_parachains s) (map parachain_index heads) \<and>
    (is_signed x \<longrightarrow> (\<exists>m. h_ed25519_verify h (ux_signature x) m 0)) \<and>
    s1 = s\<lparr>para_parachain_head := foldl (\<lambda>m h. m(parachain_index h \<mapsto> head_data h)) (para_parachain_head s) heads,
      para_did_update := Some True, sys_extrinsic_index := Some 2\<rparr>"
proof -
  have c: "xt_function (ux_extrinsic x) = Call_Parachains (Call_set_heads heads)"
    using assms(2) by (auto simp: heads_of_xt_def split: Call.split_asm parachains_call.split_asm)
  obtain who t r u j where a: "cou_frame t = cou_frame s" "who = 0 \<Longrightarrow> t = s"
    "is_signed x \<Longrightarrow> who = 0 \<Longrightarrow> \<exists>m. h_ed25519_verify h (ux_signature x) m 0"
    "call_dispatch h who (Call_Parachains (Call_set_heads heads)) t = Some (r, u)"
    "sys_extrinsic_index u = Some j" "s1 = u\<lparr>sys_extrinsic_index := Some (u32 (j + 1))\<rparr>"
    using c extrinsic_applied [OF assms(1)] by metis
  then have "set_heads 1 who heads t = Some (r, u)" by (simp add: call_dispatch_def)
  from set_heads_cases [OF this] show ?thesis
  proof (elim disjE conjE)
    assume u: "u = t"
    then have "j = i" using frame_fields(3) [OF a(1)] a(5) assms(3) by simp
    then show ?thesis using u a(1,6) by (simp add: index_frame)
  next
    assume b: "who = 0" "para_did_update t = None" "sys_extrinsic_index t = Some 1"
      "heads_in_order (para_active_parachains t) (map parachain_index heads)"
      "u = t\<lparr>para_parachain_head := foldl (\<lambda>m h. m(parachain_index h \<mapsto> head_data h)) (para_parachain_head t) heads,
        para_did_update := Some True\<rparr>"
    have t: "t = s" using b(1) by (rule a(2))
    have i: "i = 1" "j = 1" using b(3,5) a(5) assms(3) t by simp_all
    show ?thesis using b a(3,6) unfolding t i by (intro disjI2) simp
  qed
qed

text \<open>After the first two positions nothing can move the frame but the position itself.\<close>

lemma rest_of_block:
  assumes "apply_all (polkadot_executive h) xs s = Some s'" "sys_extrinsic_index s = Some i" "2 \<le> i" "i + length xs < 2 ^ 32"
  shows "cou_frame s' = (case cou_frame s of (d, n, _, m) \<Rightarrow> (d, n, Some (i + length xs), m))"
  using assms
proof (induction xs arbitrary: s i)
  case Nil
  then show ?case by (simp add: cou_frame_def)
next
  case (Cons x xs)
  obtain t where t: "apply_extrinsic_no_note (polkadot_executive h) x s = Some t" "apply_all (polkadot_executive h) xs t = Some s'"
    using Cons.prems(1) by (auto simp: bind_eq_Some_conv)
  have w: "u32 (i + 1) = i + 1" using Cons.prems(4) by simp
  have f: "cou_frame t = (case cou_frame s of (d, n, _, m) \<Rightarrow> (d, n, Some (i + 1), m))"
  proof (cases "timestamp_of_xt x")
    case None
    then show ?thesis
      using plain_extrinsic [OF t(1) _ _ Cons.prems(2)] heads_extrinsic [OF t(1) _ Cons.prems(2)] Cons.prems(3)
      unfolding w by (cases "heads_of_xt x") auto
  next
    case (Some now)
    then show ?thesis using timestamp_extrinsic(1) [OF t(1)] Cons.prems(2,3) by simp
  qed
  then have "sys_extrinsic_index t = Some (i + 1)" by (simp add: cou_frame_def)
  from Cons.IH [OF t(2) this] show ?case using Cons.prems(3,4) f by (simp split: prod.split)
qed
section \<open>The block\<close>

lemma initialise_block_frame:
  assumes "initialise_block hdr s = Some (t :: runtime)"
  shows "cou_frame t = (case cou_frame s of (d, n, _, m) \<Rightarrow> (d, n, Some 0, m))" "tim_block_period t = tim_block_period s"
  using assms by (auto simp: initialise_block_def initialise_def Let_def bind_eq_Some_conv cou_frame_def)

lemma final_checks_frame:
  assumes "final_checks E hdr s = Some (t :: runtime)"
  shows "cou_frame t = (case cou_frame s of (d, n, _, m) \<Rightarrow> (d, n, None, m))"
  using assms by (auto simp: final_checks_def finalise_def Let_def bind_eq_Some_conv bind_assert cou_frame_def split: if_split_asm)

lemma runtime_finalisation_frame:
  assumes "raw_writes_apart h" "runtime_finalisation h s = Some s'"
  shows "para_did_update s = Some True" "tim_did_update s = Some True"
    "cou_frame s' = cou_frame (s\<lparr>para_did_update := None, tim_did_update := None\<rparr>)"
proof -
  obtain s1 s2 s3 s4 where s: "parachains_execute s = Some s1" "council_execute as_cancel s1 = Some s2"
    "democracy_execute (h_isqrt h) (priv_dispatch h) s2 = Some s3"
    "check_rotate_session (new_session session_key_conversion) s3 = Some s4" "timestamp_execute s4 = Some s'"
    using assms(2) by (auto simp: runtime_finalisation_def bind_eq_Some_conv)
  have 1: "or_default False (para_did_update s)" "s1 = s\<lparr>para_did_update := None\<rparr>"
    using s(1) by (auto simp: parachains_execute_def bind_assert split: if_split_asm)
  have 2: "tim_did_update s4 = Some True" "s' = s4\<lparr>tim_did_update := None\<rparr>"
    using s(5) by (auto simp: timestamp_execute_def split: if_split_asm)
  have "cou_frame s4 = cou_frame s3" by (rule lift_frame) (rule check_rotate_frame [OF s(4)])
  also have "\<dots> = cou_frame s2" by (rule democracy_execute_frame [OF priv_dispatch_kept [OF assms(1)] s(3)])
  also have "\<dots> = cou_frame s1" by (rule council_execute_frame [OF s(2)])
  finally have f: "cou_frame s4 = cou_frame s1" .
  show "para_did_update s = Some True" using 1(1) by (auto simp: or_default_def split: option.split_asm)
  show "tim_did_update s = Some True" using frame_fields(1) [OF f] 1(2) 2(1) by simp
  show "cou_frame s' = cou_frame (s\<lparr>para_did_update := None, tim_did_update := None\<rparr>)"
    using f 1(2) 2(2) by (simp add: cou_frame_def)
qed

lemma did_update_frame:
  assumes "cou_frame t = (case cou_frame s of (d, n, _, m) \<Rightarrow> (d, n, i, m))"
  shows "cou_frame t = cou_frame (s\<lparr>sys_extrinsic_index := i\<rparr>)"
  using assms by (simp add: cou_frame_def)

text \<open>The first two extrinsics: each is the inherent one of its position or moves nothing but the position.\<close>

lemma first_extrinsic:
  assumes "apply_extrinsic_no_note (polkadot_executive h) x s = Some t" "sys_extrinsic_index s = Some 0"
  obtains (moved) "cou_frame t = cou_frame (s\<lparr>sys_extrinsic_index := Some 1\<rparr>)"
  | (set) now where "timestamp_of_xt x = Some now" "tim_now s = 0 \<or> now \<ge> u64 (tim_now s + tim_block_period s)"
      "is_signed x \<Longrightarrow> \<exists>m. h_ed25519_verify h (ux_signature x) m 0"
      "t = s\<lparr>tim_now := now, tim_did_update := Some True, sys_extrinsic_index := Some 1\<rparr>"
proof (cases "timestamp_of_xt x")
  case None
  have "cou_frame t = (case cou_frame s of (d, n, _, m) \<Rightarrow> (d, n, Some 1, m))"
    using plain_extrinsic [OF assms(1) None _ assms(2)] heads_extrinsic [OF assms(1) _ assms(2)]
    by (cases "heads_of_xt x") auto
  then show ?thesis by (intro moved did_update_frame)
next
  case (Some now)
  then show ?thesis using timestamp_extrinsic [OF assms(1) Some] by (intro set)
qed

lemma second_extrinsic:
  assumes "apply_extrinsic_no_note (polkadot_executive h) y s = Some t" "sys_extrinsic_index s = Some 1"
  obtains (moved) "cou_frame t = cou_frame (s\<lparr>sys_extrinsic_index := Some 2\<rparr>)"
  | (set) heads where "heads_of_xt y = Some heads" "heads_in_order (para_active_parachains s) (map parachain_index heads)"
      "is_signed y \<Longrightarrow> \<exists>m. h_ed25519_verify h (ux_signature y) m 0"
      "t = s\<lparr>para_parachain_head := foldl (\<lambda>m h. m(parachain_index h \<mapsto> head_data h)) (para_parachain_head s) heads,
        para_did_update := Some True, sys_extrinsic_index := Some 2\<rparr>"
proof -
  have n: "timestamp_of_xt y = None" using timestamp_extrinsic(1) [OF assms(1)] assms(2) by (cases "timestamp_of_xt y") auto
  show ?thesis
  proof (cases "heads_of_xt y")
    case None
    then show ?thesis using plain_extrinsic [OF assms(1) n None assms(2)]
      by (intro moved did_update_frame) (simp del: One_nat_def)
  next
    case (Some heads)
    from heads_extrinsic [OF assms(1) Some assms(2)] show ?thesis
    proof (elim disjE conjE)
      assume "cou_frame t = (case cou_frame s of (d, n, _, m) \<Rightarrow> (d, n, Some (u32 (1 + 1)), m))"
      then show ?thesis by (intro moved did_update_frame) (simp del: One_nat_def)
    qed (rule set [OF Some], simp_all)
  qed
qed

lemma inherents_applied:
  assumes "apply_all (polkadot_executive h) xs s = Some s'" "sys_extrinsic_index s = Some 0" "length xs < 2 ^ 32"
    and "tim_did_update s = None" "para_did_update s = None" "tim_did_update s' = Some True" "para_did_update s' = Some True"
  obtains x y rest now heads where "xs = x # y # rest"
    "timestamp_of_xt x = Some now" "tim_now s = 0 \<or> now \<ge> u64 (tim_now s + tim_block_period s)"
    "is_signed x \<longrightarrow> (\<exists>m. h_ed25519_verify h (ux_signature x) m 0)"
    "heads_of_xt y = Some heads" "heads_in_order (para_active_parachains s) (map parachain_index heads)"
    "is_signed y \<longrightarrow> (\<exists>m. h_ed25519_verify h (ux_signature y) m 0)"
    "cou_frame s' = cou_frame (s\<lparr>tim_now := now, tim_did_update := Some True,
       para_parachain_head := foldl (\<lambda>m h. m(parachain_index h \<mapsto> head_data h)) (para_parachain_head s) heads,
       para_did_update := Some True, sys_extrinsic_index := Some (length xs)\<rparr>)"
proof -
  obtain x ys where x: "xs = x # ys" using assms(1,5,7) by (cases xs) auto
  obtain t where t: "apply_extrinsic_no_note (polkadot_executive h) x s = Some t" "apply_all (polkadot_executive h) ys t = Some s'"
    using assms(1) x by (auto simp: bind_eq_Some_conv)
  have pt: "para_did_update t = None \<and> para_active_parachains t = para_active_parachains s \<and>
      para_parachain_head t = para_parachain_head s \<and> sys_extrinsic_index t = Some 1"
    using t(1) assms(2)
  proof (cases rule: first_extrinsic)
    case moved
    then show ?thesis using frame_fields [OF moved] assms(5) by simp
  qed (simp add: assms(5))
  obtain y rest where y: "ys = y # rest" using t(2) pt assms(7) by (cases ys) auto
  obtain u where u: "apply_extrinsic_no_note (polkadot_executive h) y t = Some u" "apply_all (polkadot_executive h) rest u = Some s'"
    using t(2) y by (auto simp: bind_eq_Some_conv)
  have it: "sys_extrinsic_index t = Some 1" using pt by simp
  have iu: "sys_extrinsic_index u = Some 2"
    using u(1) it
  proof (cases rule: second_extrinsic)
    case moved
    then show ?thesis using frame_fields(3) [OF moved] by simp
  qed simp
  have fu: "cou_frame s' = cou_frame (u\<lparr>sys_extrinsic_index := Some (length xs)\<rparr>)"
    using rest_of_block [OF u(2) iu] assms(3) x y by (intro did_update_frame) simp
  from u(1) it show ?thesis
  proof (cases rule: second_extrinsic)
    case moved
    then show ?thesis using frame_fields(7) [OF fu] frame_fields(7) [OF moved] pt assms(7) by simp
  next
    case (set heads)
    note heads = this
    from t(1) assms(2) show ?thesis
    proof (cases rule: first_extrinsic)
      case moved
      then show ?thesis using frame_fields(1) [OF fu] frame_fields(1) [OF moved] heads(4) assms(4,6) by simp
    next
      case (set now)
      then show ?thesis using heads fu x y by (intro that [of x y rest now heads]) (simp_all add: cou_frame_def)
    qed
  qed
qed


section \<open>A block that executes\<close>

definition sample_runtime :: runtime where
  "sample_runtime = runtime_build_storage [1, 2, 3] [] 5 10 [1, 2, 3] 30 default_config democracy_default_config
    council_default_config [(7, [1]), (3, [2])]"

definition sample_host :: host where
  "sample_host = \<lparr>h_put_raw = (\<lambda>_ _ s. s), h_blake2_256 = (\<lambda>_. 0), h_trie_root = (\<lambda>xts. word_of_nat (length xts)), h_storage_root = (\<lambda>_. 8),
    h_ed25519_verify = (\<lambda>_ _ who. who \<noteq> 0), h_isqrt = (\<lambda>n. n), h_executor = (\<lambda>_ _ _ _ _ c. (False, c))\<rparr>"

definition sample_receipt :: CandidateReceipt where
  "sample_receipt = \<lparr>parachain_index = 7, collator = replicate 32 0, head_data = [9], balance_uploads = [], egress_queue_roots = [], cr_fees = 0\<rparr>"

definition sample_block :: "unchecked_extrinsic Block" where
  "sample_block = \<lparr>blk_header = \<lparr>hd_parent_hash = 5, hd_number = 1, hd_state_root = 8, hd_extrinsics_root = 2, hd_digest = []\<rparr>,
    blk_extrinsics = inherent_extrinsics 6 [sample_receipt]\<rparr>"

lemma sample_runtime_fields:
  "sys_block_hash sample_runtime = [0 \<mapsto> genesis_hash]" "sys_digest sample_runtime = []"
  "tim_now sample_runtime = 0" "tim_block_period sample_runtime = 5" "tim_did_update sample_runtime = None"
  "ses_session_length sample_runtime = 10" "ses_last_length_change sample_runtime = None" "ses_current_start sample_runtime = 0"
  "ses_broken_percent_late sample_runtime = 30" "dem_launch_period sample_runtime = 1000"
  "dem_referendum_count sample_runtime = 0" "dem_next_tally sample_runtime = 0"
  "cou_voting_period sample_runtime = 1000" "cou_next_finalise sample_runtime = None" "cov_proposals sample_runtime = []"
  "para_active_parachains sample_runtime = [3, 7]" "para_parachain_head sample_runtime = Map.empty"
  "para_did_update sample_runtime = None"
  by (simp_all add: sample_runtime_def runtime_build_storage_def parachains_build_storage_def council_build_storage_def
      council_default_config_def democracy_build_storage_def democracy_default_config_def build_storage_def default_config_def
      Staking.Staking.defs Democracy.Democracy.defs Council.Council.defs Parachains.Parachains.defs)

lemma sample_block_encodes:
  "\<exists>a b. map runtime_extrinsic_encode (inherent_extrinsics 6 [sample_receipt]) = [Some a, Some b]"
  by (simp add: inherent_extrinsics_def runtime_extrinsic_encode_def unchecked_extrinsic_encode_def extrinsic_encode_def tuple_encode_def
      address_encode_def h256_encode_def nat_encode_def call_encode_def timestamp_call_encode_def parachains_call_encode_def tagged_def
      h512_encode_def vec_encode_def candidate_receipt_encode_def sample_receipt_def id_encode_def u32_encode_def int_encode_def
      bytes_n_encode_def encode_slice_def u64_encode_def bind_eq_Some_conv)

lemma random_numbers_0: "random_numbers k 0 = replicate k 0"
  by (induction k) simp_all

definition sample_opened :: "hash \<Rightarrow> runtime" where
  "sample_opened seed = sample_runtime\<lparr>sys_number := Some 1, sys_parent_hash := Some 5, sys_block_hash := [0 \<mapsto> 5],
     sys_extrinsics_root := Some 2, sys_random_seed := Some seed, sys_extrinsic_index := Some 0\<rparr>"

definition sample_filled :: "hash \<Rightarrow> runtime" where
  "sample_filled seed = (sample_opened seed)\<lparr>tim_now := 6, tim_did_update := Some True, para_parachain_head := [7 \<mapsto> [9]],
     para_did_update := Some True, sys_extrinsic_index := Some 2\<rparr>"

lemma sample_initialised:
  "\<exists>seed. initialise_block (blk_header sample_block) sample_runtime = Some (sample_opened seed)"
proof -
  have z: "(1::nat) - 1 = 0" by simp
  have h: "option_list (map [0 \<mapsto> x] (random_numbers 81 0)) = Some (map the (map [0 \<mapsto> x] (random_numbers 81 0)))" for x :: hash
    unfolding random_numbers_0 by (simp add: option_list_def)
  have "sub64 1 1 = 0" by (simp add: sub64_def)
  then show ?thesis
    unfolding initialise_block_def initialise_def Let_def calculate_random_def sample_opened_def
    by (simp add: sample_block_def sample_runtime_fields z h del: One_nat_def) (rule exI, rule refl)
qed

lemma sample_checks: "initial_checks (polkadot_executive sample_host) sample_block (sample_opened seed) = Some ()"
proof -
  obtain a b where "map runtime_extrinsic_encode (inherent_extrinsics 6 [sample_receipt]) = [Some a, Some b]"
    using sample_block_encodes by (elim exE)
  then have "extrinsics_root (polkadot_executive sample_host) (inherent_extrinsics 6 [sample_receipt]) = Some 2"
    by (simp add: extrinsics_root_def polkadot_executive_def option_list_def sample_host_def)
  then show ?thesis by (simp add: initial_checks_def sample_block_def sample_opened_def Let_def)
qed

lemma sample_applied: "apply_all (polkadot_executive sample_host) (blk_extrinsics sample_block) (sample_opened seed) = Some (sample_filled seed)"
proof -
  obtain a b where ab: "map runtime_extrinsic_encode (inherent_extrinsics 6 [sample_receipt]) = [Some a, Some b]"
    using sample_block_encodes by (elim exE)
  show ?thesis using ab
    by (simp add: sample_block_def inherent_extrinsics_def apply_extrinsic_no_note_def apply_extrinsic_no_note_with_len_def
        polkadot_executive_def check_xt_def is_signed_def sig_is_signed_def charge_sender_def call_dispatch_def finished_def
        timestamp_set_def set_heads_def sample_opened_def sample_filled_def sample_runtime_fields sample_receipt_def)
qed

lemma sample_finalised: "\<exists>t. runtime_finalisation sample_host (sample_filled seed) = Some t \<and>
  sys_digest t = [] \<and> sys_number t \<noteq> None \<and> sys_parent_hash t \<noteq> None \<and> sys_extrinsics_root t \<noteq> None"
proof -
  let ?s = "(sample_filled seed)\<lparr>para_did_update := None\<rparr>"
  have 1: "parachains_execute (sample_filled seed) = Some ?s"
    by (simp add: parachains_execute_def sample_filled_def or_default_def)
  have "council_end_block 1 ?s = Some (Inr (), ?s)"
    by (simp add: council_end_block_def sample_filled_def sample_opened_def sample_runtime_fields)
  moreover have "voting_end_block as_cancel 1 ?s = Some (Inr (), ?s)"
    by (simp add: voting_end_block.simps take_proposal_if_expiring_at_def sample_filled_def sample_opened_def sample_runtime_fields)
  ultimately have 2: "council_execute as_cancel ?s = Some ?s"
    by (simp add: council_execute_def sample_filled_def sample_opened_def del: voting_end_block.simps One_nat_def)
  have 3: "democracy_execute (h_isqrt sample_host) (priv_dispatch sample_host) ?s = Some ?s"
    by (simp add: democracy_execute_def democracy_end_block_def maturing_referendums_at_def active_referendums_def
        sample_filled_def sample_opened_def sample_runtime_fields)
  have 4: "check_rotate_session (new_session session_key_conversion) ?s = Some ?s"
    by (simp add: check_rotate_session_def broken_validation_def blocks_remaining_def ideal_session_duration_def timestamp_get_def
        last_length_change_def sub64_def sample_filled_def sample_opened_def sample_runtime_fields Let_def)
  show ?thesis
    by (simp add: runtime_finalisation_def 1 2 3 4 timestamp_execute_def)
      (simp add: sample_filled_def sample_opened_def sample_runtime_fields)
qed

lemma sample_block_executes: "\<exists>s'. execute_block (polkadot_executive sample_host) sample_block sample_runtime = Some s'"
proof -
  obtain seed where 1: "initialise_block (blk_header sample_block) sample_runtime = Some (sample_opened seed)"
    using sample_initialised by blast
  obtain t where t: "runtime_finalisation sample_host (sample_filled seed) = Some t" "sys_digest t = []" "sys_number t \<noteq> None"
    "sys_parent_hash t \<noteq> None" "sys_extrinsics_root t \<noteq> None" using sample_finalised by blast
  have r: "ex_storage_root (polkadot_executive sample_host) = (\<lambda>_. 8)" "ex_finalisation (polkadot_executive sample_host) = runtime_finalisation sample_host"
    by (simp_all add: polkadot_executive_def sample_host_def)
  have "\<exists>s'. final_checks (polkadot_executive sample_host) (blk_header sample_block) t = Some s'"
    using t(2-5) by (auto simp: final_checks_def finalise_def r Let_def sample_block_def)
  then show ?thesis using 1 sample_checks [of seed] sample_applied [of seed] t(1) by (simp add: execute_block_def r)
qed



section \<open>What the executive does not check\<close>

text \<open>
  The test that the parent hash is correct cannot fail: opening the block has just written the parent hash of its header to the place
  the test reads.
\<close>

lemma parent_check_passes:
  assumes "initialise_block (blk_header block) s = Some t" "0 < hd_number (blk_header block)" "hd_number (blk_header block) < 2 ^ 64"
  shows "sys_block_hash t (hd_number (blk_header block) - 1) = Some (hd_parent_hash (blk_header block))"
  using assms by (auto simp: initialise_block_def initialise_def Let_def bind_eq_Some_conv sub64_ge)

text \<open>A signed call to set the time panics when it is dispatched, after its fee has been taken.\<close>

lemma signed_timestamp_panics: "who \<noteq> 0 \<Longrightarrow> call_dispatch h who (Call_Timestamp (Call_set now)) s = None"
  by (simp add: call_dispatch_def finished_def timestamp_set_def)

text \<open>An account whose funds fall below the existential deposit starts again at index zero, so that its extrinsics can be applied again.\<close>

lemma reaped_account_index:
  assumes "b < sta_existential_deposit s" "reserved_balance s who = 0"
  shows "account_nonce (snd (set_free_balance who b s)) who = 0"
  using assms by (simp add: set_free_balance_def on_free_too_low_def account_nonce_def reserved_balance_def Let_def)

end
