(* ===== verification/Spec2Isabelle.thy ===== *)
theory Spec2Isabelle
  imports Bft_Service Statement_Table Staking_Proofs Democracy Council_Proofs Executive_Proofs
begin

text \<open>
  \<^bold>\<open>The runtime and the agreement of the Polkadot node\<close>

  This development models the parts of the repository that decide: the Byzantine agreement of
  \<^verbatim>\<open>substrate/bft\<close>, the statement table of \<^verbatim>\<open>polkadot/statement-table\<close>, the codec of \<^verbatim>\<open>substrate/codec\<close> and the
  modules of the runtime under \<^verbatim>\<open>substrate/runtime\<close> and \<^verbatim>\<open>polkadot/runtime\<close> with their composition (all paths are under \<^verbatim>\<open>src/\<close>).

  \<^bold>\<open>How the parts interact.\<close>  Authorities agree on a block with the BFT accumulator and strategy; a block
  carries candidates of parachains chosen by the statement table, and its execution runs the runtime: \<^verbatim>\<open>system\<close> holds the
  block environment, \<^verbatim>\<open>session\<close> rotates the authorities of \<^verbatim>\<open>consensus\<close>, \<^verbatim>\<open>staking\<close> holds balances and elects
  validators when an era ends, \<^verbatim>\<open>democracy\<close> reserves deposits in \<^verbatim>\<open>staking\<close> and carries out what
  referenda pass, and \<^verbatim>\<open>council\<close> elects a council whose motions start or cancel referenda.

  \<^bold>\<open>Theories, and what they model.\<close>
  \<^item> \<^verbatim>\<open>Prelude\<close>: containers, fact collections, counting lemmas.
  \<^item> \<^verbatim>\<open>Bft_Types\<close>, \<^verbatim>\<open>Bft_Accumulator\<close>: messages and \<^verbatim>\<open>generic/accumulator.rs\<close>.  One record per
    round; \<open>import_proposal\<close>, \<open>import_prepare\<close>, \<open>import_commit\<close>, \<open>import_advance_round\<close> under \<open>acc_import_message\<close>.  Shown:
    agreement of two accumulators, the phase as a function of the set of messages, soundness of justifications and of
    misbehaviour reports.  The prepare and commit ballots share the locale \<open>ballot\<close>.
  \<^item> \<^verbatim>\<open>Bft_Strategy\<close>, \<^verbatim>\<open>Bft_Voting\<close>: \<^verbatim>\<open>generic/mod.rs\<close>, the local view and its poll.  Shown: no
    equivocation, locks respected, progress, that polling returns, the order of the outgoing queue.  The locale
    \<open>signing_context\<close> is the interface of the environment that signs.
  \<^item> \<^verbatim>\<open>Codec\<close>, \<^verbatim>\<open>Bft_Codec\<close>: \<^verbatim>\<open>codec/src\<close> and \<^verbatim>\<open>runtime/primitives/src/bft.rs\<close>.  The locale \<open>slicable\<close> is the contract of the trait
    of that name; every instance is an interpretation or a \<open>slicable_intros\<close> fact.
  \<^item> \<^verbatim>\<open>Bft_Service\<close>: \<^verbatim>\<open>bft/src/lib.rs\<close>, its errors, the network form of messages and the bookkeeping of running agreements.
  \<^item> \<^verbatim>\<open>Statement_Table\<close>: \<^verbatim>\<open>statement-table/src/generic.rs\<close>: votes, candidates, includability, batches and misbehaviour.
  \<^item> \<^verbatim>\<open>Safe_Mix\<close>: \<^verbatim>\<open>safe-mix/src/lib.rs\<close>, equal to the tree of majorities it streams.
  \<^item> \<^verbatim>\<open>Runtime_System\<close>, \<^verbatim>\<open>Session\<close>, \<^verbatim>\<open>Staking\<close>, \<^verbatim>\<open>Staking_Proofs\<close>, \<^verbatim>\<open>Democracy\<close>, \<^verbatim>\<open>Council\<close>, \<^verbatim>\<open>Council_Proofs\<close>: the runtime modules of those names.  The storage of
    a module is a record that extends the record of the module it depends on, an operation is a function on every
    extension of it, a panic is \<^const>\<open>None\<close> and an error is the message of the source.
  \<^item> \<^verbatim>\<open>Parachain_Types\<close>, \<^verbatim>\<open>Parachains\<close>: \<^verbatim>\<open>polkadot/primitives/src/parachain.rs\<close> and \<^verbatim>\<open>polkadot/runtime/src/parachains.rs\<close>.  Shown: the codecs obey
    \<open>slicable\<close>, the duty roster is fair, heads are set once and only for registered chains, registration keeps the chains sorted.
  \<^item> \<^verbatim>\<open>Extrinsics\<close>, \<^verbatim>\<open>Executive\<close>, \<^verbatim>\<open>Executive_Proofs\<close>: \<^verbatim>\<open>runtime/primitives/src/generic.rs\<close>, \<^verbatim>\<open>runtime/executive/src/lib.rs\<close> and \<^verbatim>\<open>polkadot/runtime/src\<close>:
    extrinsics, headers and blocks on the wire, the calls of all modules, their dispatch, and the execution of a block by the
    composed runtime.  Shown: which storage no call of any module touches, and that a block that executes carries its inherent extrinsics.
  \<^bold>\<open>Bounds and fuel.\<close>  Machine integers of the runtime are natural numbers with every wrap written out (\<open>u32\<close>, \<open>u64\<close>,
  \<open>u128\<close>, \<open>sub32\<close>, \<open>sub64\<close>); bytes are words.  No theorem rests on fuel: loops are structural, have a termination proof, or are
  \<open>partial_function (option)\<close> with a proof that they return (\<open>node_poll_returns\<close>, \<open>new_account_index\<close>).  Theorems on
  runs that a wrapping counter limits say how many steps they cover, always fewer than 2^32.

  \<^bold>\<open>Parameters.\<close>  Signatures, hashes, the WebAssembly contract executor, the integer square root of its crate, the roots and
  raw writes of the host are arguments; in the theories of the modules so is the dispatch of a privileged call, which \<open>Executive\<close> supplies.
  What is assumed of them is a hypothesis of the theorem, and the witness instantiates it.

  \<^bold>\<open>Not modelled.\<close>  Event loops, futures and threads (service start-up, network protocol, consensus
  service); databases, tries and the WebAssembly interpreter, which are external crates, and the state database over them; command lines, RPC and
  telemetry; the macros that generate storage accessors and call enums, whose expansion is what the runtime theories
  translate; the decoding of calls, serde and display instances.
\<close>

end
